(* ===== verification/Prelude.thy ===== *)
theory Prelude
  imports Main "HOL-Library.Word"
begin

text \<open>
  Shared vocabulary of the chagle development: the widths of the machine integers the Rust
  code uses, results of fallible code as sums, hash maps as association lists in iteration
  order, and the fact collections the component theories extend.

  \<^item> \<^verbatim>\<open>Result<T, E>\<close> is \<open>'e + 't\<close>, \<open>Inl\<close> for \<^verbatim>\<open>Err\<close>; the \<^verbatim>\<open>?\<close> operator is \<open>rbind\<close>.
  \<^item> A Rust \<^verbatim>\<open>String\<close> is its UTF-8 encoding, a \<open>string\<close> of 8-bit characters;
    \<^verbatim>\<open>as_bytes\<close> reads the same bytes as machine words.
  \<^item> A \<^verbatim>\<open>HashMap\<close> that the code iterates over is a list of entries with distinct keys, in
    the (unspecified) order in which the iterator visits them; \<open>hm_eq\<close> is its \<^verbatim>\<open>PartialEq\<close>,
    which ignores that order. A \<^verbatim>\<open>HashMap\<close> that is only looked up is a map
    \<open>'k \<rightharpoonup> 'v\<close>.
\<close>

named_theorems result_iff \<open>when a composed fallible computation succeeds\<close>
named_theorems wf_intros \<open>operations preserve their component's invariant\<close>

section \<open>Machine integers and strings\<close>

type_synonym byte = "8 word"
type_synonym u16 = "16 word"
type_synonym u32 = "32 word"
type_synonym u64 = "64 word"
type_synonym bytes = "byte list"

definition as_bytes :: "string \<Rightarrow> bytes" where
  "as_bytes s = map of_char s"

definition string_of_bytes :: "bytes \<Rightarrow> string" where
  "string_of_bytes bs = map (\<lambda>b. char_of (unat b)) bs"

lemma length_as_bytes [simp]: "length (as_bytes s) = length s"
  by (simp add: as_bytes_def)

lemma as_bytes_append [simp]: "as_bytes (s @ t) = as_bytes s @ as_bytes t"
  by (simp add: as_bytes_def)

lemma unat_of_char [simp]: "unat (of_char c :: byte) = of_char c"
proof -
  have "(of_char c :: nat) < 2 ^ LENGTH(8)"
    using nat_of_char_less_256 [of c] by simp
  then have "unat (of_nat (of_char c) :: byte) = of_char c"
    by (simp only: unsigned_of_nat take_bit_nat_eq_self of_nat_id)
  then show ?thesis
    by (simp only: of_nat_of_char)
qed

lemma of_char_char_of_unat [simp]: "of_char (char_of (unat b)) = (b :: byte)"
proof -
  have "unat b < 256"
    using unsigned_less [of b, where 'a = nat] by simp
  then have "(of_char (char_of (unat b)) :: nat) = unat b"
    by simp
  then have "(of_nat (of_char (char_of (unat b))) :: byte) = of_nat (unat b)"
    by (rule arg_cong)
  then show ?thesis by (simp only: of_nat_of_char) simp
qed

lemma string_of_as_bytes [simp]: "string_of_bytes (as_bytes s) = s"
  by (induction s) (simp_all add: string_of_bytes_def as_bytes_def)

lemma as_bytes_of_string [simp]: "as_bytes (string_of_bytes bs) = bs"
  by (induction bs) (simp_all add: string_of_bytes_def as_bytes_def)

lemma as_bytes_eq_iff [simp]: "as_bytes s = as_bytes t \<longleftrightarrow> s = t"
  by (metis string_of_as_bytes)

text \<open>
  \<^verbatim>\<open>to_be_bytes\<close> and \<^verbatim>\<open>from_be_bytes\<close>, on the value of the integer and with the width in bytes;
  the little-endian forms are their reversals.
\<close>

fun be_of_nat :: "nat \<Rightarrow> nat \<Rightarrow> bytes" where
  "be_of_nat 0 x = []"
| "be_of_nat (Suc n) x = be_of_nat n (x div 256) @ [of_nat x]"

definition nat_of_be :: "bytes \<Rightarrow> nat" where
  "nat_of_be bs = foldl (\<lambda>acc b. acc * 256 + unat b) 0 bs"

definition le_of_nat :: "nat \<Rightarrow> nat \<Rightarrow> bytes" where
  "le_of_nat n x = rev (be_of_nat n x)"

definition nat_of_le :: "bytes \<Rightarrow> nat" where
  "nat_of_le bs = nat_of_be (rev bs)"

lemma length_be_of_nat [simp]: "length (be_of_nat n x) = n"
  by (induction n arbitrary: x) auto

lemma length_le_of_nat [simp]: "length (le_of_nat n x) = n"
  by (simp add: le_of_nat_def)

lemma nat_of_be_snoc: "nat_of_be (bs @ [b]) = nat_of_be bs * 256 + unat b"
  by (simp add: nat_of_be_def)

lemma unat_of_nat_byte: "unat (of_nat n :: byte) = n mod 256"
  by (simp add: unsigned_of_nat take_bit_eq_mod)

lemma nat_of_be_of_nat: "nat_of_be (be_of_nat n x) = x mod 256 ^ n"
proof (induction n arbitrary: x)
  case 0
  show ?case by (simp add: nat_of_be_def)
next
  case (Suc n)
  have "nat_of_be (be_of_nat (Suc n) x) = (x div 256 mod 256 ^ n) * 256 + x mod 256"
    by (simp add: nat_of_be_snoc Suc unat_of_nat_byte)
  also have "\<dots> = x mod 256 ^ Suc n"
    using mod_mult2_eq [of x 256 "256 ^ n"] by (simp add: mult.commute)
  finally show ?case .
qed

lemma nat_of_le_of_nat: "nat_of_le (le_of_nat n x) = x mod 256 ^ n"
  by (simp add: nat_of_le_def le_of_nat_def nat_of_be_of_nat)

lemma nat_of_be_less: "nat_of_be bs < 256 ^ length bs"
proof (induction bs rule: rev_induct)
  case Nil
  show ?case by (simp add: nat_of_be_def)
next
  case (snoc b bs)
  have "unat b < 256"
    using unsigned_less [of b, where 'a = nat] by simp
  then have "nat_of_be bs * 256 + unat b < (nat_of_be bs + 1) * 256"
    by simp
  also have "\<dots> \<le> 256 ^ length bs * 256"
    using snoc.IH by (intro mult_right_mono) auto
  finally show ?case by (simp add: nat_of_be_snoc mult.commute)
qed

section \<open>Fallible results\<close>

fun rbind :: "'e + 'a \<Rightarrow> ('a \<Rightarrow> 'e + 'b) \<Rightarrow> 'e + 'b" where
  "rbind (Inl e) f = Inl e"
| "rbind (Inr x) f = f x"

fun ok_or :: "'a option \<Rightarrow> 'e \<Rightarrow> 'e + 'a" where
  "ok_or None e = Inl e"
| "ok_or (Some x) e = Inr x"

fun map_err :: "('e \<Rightarrow> 'f) \<Rightarrow> 'e + 'a \<Rightarrow> 'f + 'a" where
  "map_err f (Inl e) = Inl (f e)"
| "map_err f (Inr x) = Inr x"

definition require :: "bool \<Rightarrow> 'e \<Rightarrow> 'e + unit" where
  "require b e = (if b then Inr () else Inl e)"

fun is_ok :: "'e + 'a \<Rightarrow> bool" where
  "is_ok (Inl e) = False"
| "is_ok (Inr x) = True"

lemma rbind_Inr_iff [result_iff]: "rbind m f = Inr y \<longleftrightarrow> (\<exists>x. m = Inr x \<and> f x = Inr y)"
  by (cases m) auto

lemma rbind_Inl_iff: "rbind m f = Inl e \<longleftrightarrow> m = Inl e \<or> (\<exists>x. m = Inr x \<and> f x = Inl e)"
  by (cases m) auto

lemma ok_or_Inr_iff [result_iff]: "ok_or m e = Inr x \<longleftrightarrow> m = Some x"
  by (cases m) auto

lemma map_err_Inr_iff [result_iff]: "map_err f m = Inr x \<longleftrightarrow> m = Inr x"
  by (cases m) auto

lemma require_Inr_iff [result_iff]: "require b e = Inr u \<longleftrightarrow> b"
  by (cases u) (simp add: require_def)

lemma require_simps [simp]: "require True e = Inr ()" "require False e = Inl e"
  by (simp_all add: require_def)

lemma is_ok_iff: "is_ok m \<longleftrightarrow> (\<exists>x. m = Inr x)"
  by (cases m) auto

section \<open>Hash maps in iteration order\<close>

type_synonym ('k, 'v) hmap = "('k \<times> 'v) list"

definition hm_wf :: "('k, 'v) hmap \<Rightarrow> bool" where
  "hm_wf m \<longleftrightarrow> distinct (map fst m)"

definition hm_get :: "('k, 'v) hmap \<Rightarrow> 'k \<Rightarrow> 'v option" where
  "hm_get m k = map_of m k"

text \<open>
  \<^verbatim>\<open>HashMap::eq\<close>: the same number of entries, and every entry of the one is found in the other.
  \<open>veq\<close> is the equality of the values.
\<close>

definition hm_eq :: "('v \<Rightarrow> 'v \<Rightarrow> bool) \<Rightarrow> ('k, 'v) hmap \<Rightarrow> ('k, 'v) hmap \<Rightarrow> bool" where
  "hm_eq veq a b \<longleftrightarrow> length a = length b \<and>
     (\<forall>(k, v) \<in> set a. case hm_get b k of None \<Rightarrow> False | Some w \<Rightarrow> veq v w)"

lemma hm_get_in_set: "hm_get m k = Some v \<Longrightarrow> (k, v) \<in> set m"
  by (simp add: hm_get_def map_of_SomeD)

lemma hm_get_iff: "hm_wf m \<Longrightarrow> hm_get m k = Some v \<longleftrightarrow> (k, v) \<in> set m"
  by (simp add: hm_get_def hm_wf_def)

lemma hm_get_None_iff: "hm_get m k = None \<longleftrightarrow> k \<notin> fst ` set m"
  by (simp add: hm_get_def map_of_eq_None_iff)

lemma hm_eq_keys:
  assumes "hm_wf a" and "hm_wf b" and "hm_eq veq a b"
  shows "fst ` set a = fst ` set b"
proof -
  have sub: "fst ` set a \<subseteq> fst ` set b"
  proof
    fix k
    assume "k \<in> fst ` set a"
    then obtain v where "(k, v) \<in> set a" by force
    with assms(3) have "hm_get b k \<noteq> None"
      by (auto simp: hm_eq_def split: option.splits)
    then show "k \<in> fst ` set b" by (simp add: hm_get_None_iff)
  qed
  have "card (fst ` set a) = card (fst ` set b)"
    using assms by (metis distinct_card hm_eq_def hm_wf_def length_map list.set_map)
  with sub show ?thesis
    by (simp add: card_subset_eq)
qed

text \<open>On well-formed maps the order-free equality is pointwise equality of the lookups.\<close>

lemma hm_eq_iff_get:
  assumes "hm_wf a" and "hm_wf b"
  shows "hm_eq (=) a b \<longleftrightarrow> hm_get a = hm_get b"
proof
  assume eq: "hm_eq (=) a b"
  have keys: "fst ` set a = fst ` set b"
    using assms eq by (rule hm_eq_keys)
  show "hm_get a = hm_get b"
  proof
    fix k
    show "hm_get a k = hm_get b k"
    proof (cases "hm_get a k")
      case None
      with keys show ?thesis by (metis hm_get_None_iff)
    next
      case (Some v)
      then have "(k, v) \<in> set a" by (rule hm_get_in_set)
      with eq Some show ?thesis
        by (auto simp: hm_eq_def split: option.splits)
    qed
  qed
next
  assume get: "hm_get a = hm_get b"
  have "set a = set b"
    using get assms hm_get_iff by (metis subrelI subset_antisym)
  moreover from this have "length a = length b"
    using assms by (metis distinct_card hm_wf_def length_map list.set_map)
  moreover have "hm_get b k = Some v" if "(k, v) \<in> set a" for k v
    using that \<open>set a = set b\<close> assms(2) by (simp add: hm_get_iff)
  ultimately show "hm_eq (=) a b"
    by (auto simp: hm_eq_def)
qed

section \<open>Lists\<close>

lemma take_length_append [simp]: "take (length xs) (xs @ ys) = xs"
  by simp

lemma drop_length_append [simp]: "drop (length xs) (xs @ ys) = ys"
  by simp

section \<open>Systems that come to rest\<close>

text \<open>
  Several tasks that work on each other's queues come to rest when every step takes weight from
  the state. The weight then bounds the number of steps, and a state in which none is possible
  is reached from everywhere.
\<close>

locale settling =
  fixes step :: "'s \<Rightarrow> 's \<Rightarrow> bool" and invar :: "'s \<Rightarrow> bool" and weight :: "'s \<Rightarrow> nat"
  assumes step_invar: "invar s \<Longrightarrow> step s t \<Longrightarrow> invar t"
    and step_weight: "invar s \<Longrightarrow> step s t \<Longrightarrow> weight t < weight s"
begin

lemma steps_invar: "step\<^sup>*\<^sup>* s t \<Longrightarrow> invar s \<Longrightarrow> invar t"
  by (induction rule: rtranclp_induct) (auto intro: step_invar)

lemma steps_bounded: "(step ^^ k) s t \<Longrightarrow> invar s \<Longrightarrow> invar t \<and> weight t + k \<le> weight s"
proof (induction k arbitrary: t)
  case (Suc k)
  then obtain u where "(step ^^ k) s u" "step u t" by auto
  with Suc.IH [of u] Suc.prems(2) show ?case
    using step_invar [of u t] step_weight [of u t] by auto
qed simp

lemma settles: "invar s \<Longrightarrow> \<exists>t. step\<^sup>*\<^sup>* s t \<and> invar t \<and> (\<forall>u. \<not> step t u)"
proof (induction "weight s" arbitrary: s rule: less_induct)
  case less
  show ?case
  proof (cases "\<exists>u. step s u")
    case True
    then obtain u where u: "step s u" by blast
    with less.prems obtain t where "step\<^sup>*\<^sup>* u t" "invar t" "\<forall>v. \<not> step t v"
      using less.hyps [OF step_weight] step_invar by blast
    with u show ?thesis by (meson converse_rtranclp_into_rtranclp)
  qed (use less.prems in blast)
qed

end

end
