(* ===== verification/Multi_Map.thy ===== *)
theory Multi_Map
  imports Prelude
begin

text \<open>
  The two-key map of \<^verbatim>\<open>src/multi_map.rs\<close>, which the server uses for its control channels.

  An item \<open>(k1, k2, v)\<close> lives in one heap box. Both hash maps hold raw pointers to it: the key
  of an entry of \<^verbatim>\<open>map1\<close> is a pointer to the box's first component, that of an entry of
  \<^verbatim>\<open>map2\<close> a pointer to its second, and the value of both is the pointer to the box. The model
  keeps the heap and the pointers: \<open>heap\<close> maps the addresses of live boxes to their contents,
  \<open>map1\<close> and \<open>map2\<close> list entries \<open>(key pointer, item pointer)\<close>, where a pointer into a box is
  the box's address. Every dereference of an address that is not live is the value
  \<open>Inl Dangling\<close>, every release of one \<open>Inl DoubleFree\<close>: undefined behaviour of the
  \<^verbatim>\<open>unsafe\<close> blocks is a result of the model. A lookup dereferences the key pointers of the
  entries it compares with; the model compares with all entries up to the one it finds, more
  than a hash map would.

  The lemmas show that from the empty map no sequence of operations meets a dangling pointer,
  that the map implements a set of items with unique first and unique second keys
  (\<open>mm_abs\<close>), and that dropping it releases every box exactly once.
\<close>

section \<open>Representation\<close>

type_synonym addr = nat

datatype ub = Dangling | DoubleFree

type_synonym ('k1, 'k2, 'v) item = "'k1 \<times> 'k2 \<times> 'v"

type_synonym entry = "addr \<times> addr"

record ('k1, 'k2, 'v) multi_map =
  heap :: "addr \<rightharpoonup> ('k1, 'k2, 'v) item"
  map1 :: "entry list"
  map2 :: "entry list"

definition key1 :: "('k1, 'k2, 'v) item \<Rightarrow> 'k1" where
  "key1 it = fst it"

definition key2 :: "('k1, 'k2, 'v) item \<Rightarrow> 'k2" where
  "key2 it = fst (snd it)"

definition val_of :: "('k1, 'k2, 'v) item \<Rightarrow> 'v" where
  "val_of it = snd (snd it)"

section \<open>Hash maps whose keys are pointers\<close>

text \<open>\<^verbatim>\<open>Key::borrow\<close>: dereference a pointer.\<close>

definition deref :: "(addr \<rightharpoonup> 'i) \<Rightarrow> addr \<Rightarrow> ub + 'i" where
  "deref h p = (case h p of None \<Rightarrow> Inl Dangling | Some it \<Rightarrow> Inr it)"

text \<open>
  Find the entry whose key pointer points to a key equal to \<open>k\<close>: the entries before it, the
  entry, the entries after it.
\<close>

fun probe :: "(addr \<rightharpoonup> 'i) \<Rightarrow> ('i \<Rightarrow> 'k) \<Rightarrow> 'k \<Rightarrow> entry list \<Rightarrow>
    ub + (entry list \<times> entry \<times> entry list) option" where
  "probe h key k [] = Inr None"
| "probe h key k (e # es) =
     rbind (deref h (fst e)) (\<lambda>it.
       if key it = k then Inr (Some ([], e, es))
       else rbind (probe h key k es) (\<lambda>r.
         Inr (case r of None \<Rightarrow> None | Some (pre, f, post) \<Rightarrow> Some (e # pre, f, post))))"

definition hm_contains_key :: "(addr \<rightharpoonup> 'i) \<Rightarrow> ('i \<Rightarrow> 'k) \<Rightarrow> entry list \<Rightarrow> 'k \<Rightarrow> ub + bool" where
  "hm_contains_key h key es k = rbind (probe h key k es) (\<lambda>r. Inr (r \<noteq> None))"

definition hm_find :: "(addr \<rightharpoonup> 'i) \<Rightarrow> ('i \<Rightarrow> 'k) \<Rightarrow> entry list \<Rightarrow> 'k \<Rightarrow> ub + addr option" where
  "hm_find h key es k =
     rbind (probe h key k es) (\<lambda>r. Inr (map_option (\<lambda>(_, e, _). snd e) r))"

definition hm_take :: "(addr \<rightharpoonup> 'i) \<Rightarrow> ('i \<Rightarrow> 'k) \<Rightarrow> entry list \<Rightarrow> 'k \<Rightarrow>
    ub + (addr option \<times> entry list)" where
  "hm_take h key es k =
     rbind (probe h key k es) (\<lambda>r. Inr (case r of None \<Rightarrow> (None, es)
       | Some (pre, e, post) \<Rightarrow> (Some (snd e), pre @ post)))"

text \<open>\<^verbatim>\<open>HashMap::insert\<close>: an equal key keeps its key pointer and gets the new item pointer.\<close>

definition hm_put :: "(addr \<rightharpoonup> 'i) \<Rightarrow> ('i \<Rightarrow> 'k) \<Rightarrow> entry list \<Rightarrow> addr \<Rightarrow> addr \<Rightarrow> ub + entry list" where
  "hm_put h key es kp ip =
     rbind (deref h kp) (\<lambda>it.
       rbind (probe h key (key it) es) (\<lambda>r. Inr (case r of None \<Rightarrow> es @ [(kp, ip)]
         | Some (pre, e, post) \<Rightarrow> pre @ (fst e, ip) # post)))"

section \<open>The operations\<close>

definition mm_new :: "('k1, 'k2, 'v) multi_map" where
  "mm_new = \<lparr>heap = Map.empty, map1 = [], map2 = []\<rparr>"

text \<open>\<^verbatim>\<open>insert\<close>, at the address \<open>a\<close> that the allocator hands out for the box.\<close>

definition mm_insert_at :: "addr \<Rightarrow> 'k1 \<Rightarrow> 'k2 \<Rightarrow> 'v \<Rightarrow> ('k1, 'k2, 'v) multi_map \<Rightarrow>
    ub + (('k1, 'k2, 'v) item + unit) \<times> ('k1, 'k2, 'v) multi_map" where
  "mm_insert_at a k1 k2 v m =
     rbind (hm_contains_key (heap m) key1 (map1 m) k1) (\<lambda>in1.
     rbind (if in1 then Inr True else hm_contains_key (heap m) key2 (map2 m) k2) (\<lambda>dup.
       if dup then Inr (Inl (k1, k2, v), m)
       else let h = (heap m)(a \<mapsto> (k1, k2, v)) in
         rbind (hm_put h key1 (map1 m) a a) (\<lambda>m1.
         rbind (hm_put h key2 (map2 m) a a) (\<lambda>m2.
           Inr (Inr (), \<lparr>heap = h, map1 = m1, map2 = m2\<rparr>)))))"

text \<open>An allocator: one past the largest address in use.\<close>

definition fresh_addr :: "('k1, 'k2, 'v) multi_map \<Rightarrow> addr" where
  "fresh_addr m = Suc (fold (\<lambda>e n. max (snd e) n) (map1 m) 0)"

definition mm_insert :: "'k1 \<Rightarrow> 'k2 \<Rightarrow> 'v \<Rightarrow> ('k1, 'k2, 'v) multi_map \<Rightarrow>
    ub + (('k1, 'k2, 'v) item + unit) \<times> ('k1, 'k2, 'v) multi_map" where
  "mm_insert k1 k2 v m = mm_insert_at (fresh_addr m) k1 k2 v m"

definition mm_get1 :: "('k1, 'k2, 'v) multi_map \<Rightarrow> 'k1 \<Rightarrow> ub + 'v option" where
  "mm_get1 m k1 =
     rbind (hm_find (heap m) key1 (map1 m) k1) (\<lambda>r. case r of None \<Rightarrow> Inr None
       | Some p \<Rightarrow> rbind (deref (heap m) p) (\<lambda>it. Inr (Some (val_of it))))"

definition mm_get2 :: "('k1, 'k2, 'v) multi_map \<Rightarrow> 'k2 \<Rightarrow> ub + 'v option" where
  "mm_get2 m k2 =
     rbind (hm_find (heap m) key2 (map2 m) k2) (\<lambda>r. case r of None \<Rightarrow> Inr None
       | Some p \<Rightarrow> rbind (deref (heap m) p) (\<lambda>it. Inr (Some (val_of it))))"

text \<open>
  \<^verbatim>\<open>get1_mut\<close> and \<^verbatim>\<open>get_mut2\<close> hand out a mutable reference to the value; \<open>f\<close> is what the
  caller does to it.
\<close>

definition set_val :: "('v \<Rightarrow> 'v) \<Rightarrow> ('k1, 'k2, 'v) item \<Rightarrow> ('k1, 'k2, 'v) item" where
  "set_val f it = (key1 it, key2 it, f (val_of it))"

definition mm_get1_mut :: "('k1, 'k2, 'v) multi_map \<Rightarrow> 'k1 \<Rightarrow> ('v \<Rightarrow> 'v) \<Rightarrow>
    ub + bool \<times> ('k1, 'k2, 'v) multi_map" where
  "mm_get1_mut m k1 f =
     rbind (hm_find (heap m) key1 (map1 m) k1) (\<lambda>r. case r of None \<Rightarrow> Inr (False, m)
       | Some p \<Rightarrow> rbind (deref (heap m) p) (\<lambda>it.
           Inr (True, m\<lparr>heap := (heap m)(p \<mapsto> set_val f it)\<rparr>)))"

definition mm_get_mut2 :: "('k1, 'k2, 'v) multi_map \<Rightarrow> 'k2 \<Rightarrow> ('v \<Rightarrow> 'v) \<Rightarrow>
    ub + bool \<times> ('k1, 'k2, 'v) multi_map" where
  "mm_get_mut2 m k2 f =
     rbind (hm_find (heap m) key2 (map2 m) k2) (\<lambda>r. case r of None \<Rightarrow> Inr (False, m)
       | Some p \<Rightarrow> rbind (deref (heap m) p) (\<lambda>it.
           Inr (True, m\<lparr>heap := (heap m)(p \<mapsto> set_val f it)\<rparr>)))"

text \<open>\<^verbatim>\<open>Box::from_raw\<close> followed by the drop of the box at the end of its scope.\<close>

definition free_box :: "(addr \<rightharpoonup> 'i) \<Rightarrow> addr \<Rightarrow> ub + (addr \<rightharpoonup> 'i)" where
  "free_box h p = (if h p = None then Inl DoubleFree else Inr (h(p := None)))"

definition mm_remove1 :: "('k1, 'k2, 'v) multi_map \<Rightarrow> 'k1 \<Rightarrow>
    ub + 'v option \<times> ('k1, 'k2, 'v) multi_map" where
  "mm_remove1 m k1 =
     rbind (hm_take (heap m) key1 (map1 m) k1) (\<lambda>(r, m1). case r of None \<Rightarrow> Inr (None, m)
       | Some p \<Rightarrow>
           rbind (deref (heap m) p) (\<lambda>it.
           rbind (hm_take (heap m) key2 (map2 m) (key2 it)) (\<lambda>(_, m2).
           rbind (free_box (heap m) p) (\<lambda>h.
             Inr (Some (val_of it), \<lparr>heap = h, map1 = m1, map2 = m2\<rparr>)))))"

definition mm_remove2 :: "('k1, 'k2, 'v) multi_map \<Rightarrow> 'k2 \<Rightarrow>
    ub + 'v option \<times> ('k1, 'k2, 'v) multi_map" where
  "mm_remove2 m k2 =
     rbind (hm_take (heap m) key2 (map2 m) k2) (\<lambda>(r, m2). case r of None \<Rightarrow> Inr (None, m)
       | Some p \<Rightarrow>
           rbind (deref (heap m) p) (\<lambda>it.
           rbind (hm_take (heap m) key1 (map1 m) (key1 it)) (\<lambda>(_, m1).
           rbind (free_box (heap m) p) (\<lambda>h.
             Inr (Some (val_of it), \<lparr>heap = h, map1 = m1, map2 = m2\<rparr>)))))"

text \<open>\<^verbatim>\<open>Drop::drop\<close>: clear the first map, drain the second and release each item.\<close>

fun free_all :: "(addr \<rightharpoonup> 'i) \<Rightarrow> entry list \<Rightarrow> ub + (addr \<rightharpoonup> 'i)" where
  "free_all h [] = Inr h"
| "free_all h (e # es) = rbind (free_box h (snd e)) (\<lambda>h'. free_all h' es)"

definition mm_drop :: "('k1, 'k2, 'v) multi_map \<Rightarrow> ub + ('k1, 'k2, 'v) multi_map" where
  "mm_drop m = rbind (free_all (heap m) (map2 m)) (\<lambda>h. Inr \<lparr>heap = h, map1 = [], map2 = []\<rparr>)"

text \<open>A caller of the map: a sequence of operations, run until one of them goes wrong.\<close>

datatype ('k1, 'k2, 'v) mm_op =
  Insert 'k1 'k2 'v | Get1 'k1 | Get2 'k2 | Set1 'k1 'v | Set2 'k2 'v | Remove1 'k1 | Remove2 'k2

fun mm_step :: "('k1, 'k2, 'v) mm_op \<Rightarrow> ('k1, 'k2, 'v) multi_map \<Rightarrow>
    ub + ('k1, 'k2, 'v) multi_map" where
  "mm_step (Insert k1 k2 v) m = rbind (mm_insert k1 k2 v m) (\<lambda>(_, m'). Inr m')"
| "mm_step (Get1 k1) m = rbind (mm_get1 m k1) (\<lambda>_. Inr m)"
| "mm_step (Get2 k2) m = rbind (mm_get2 m k2) (\<lambda>_. Inr m)"
| "mm_step (Set1 k1 v) m = rbind (mm_get1_mut m k1 (\<lambda>_. v)) (\<lambda>(_, m'). Inr m')"
| "mm_step (Set2 k2 v) m = rbind (mm_get_mut2 m k2 (\<lambda>_. v)) (\<lambda>(_, m'). Inr m')"
| "mm_step (Remove1 k1) m = rbind (mm_remove1 m k1) (\<lambda>(_, m'). Inr m')"
| "mm_step (Remove2 k2) m = rbind (mm_remove2 m k2) (\<lambda>(_, m'). Inr m')"

fun mm_run :: "('k1, 'k2, 'v) mm_op list \<Rightarrow> ('k1, 'k2, 'v) multi_map \<Rightarrow>
    ub + ('k1, 'k2, 'v) multi_map" where
  "mm_run [] m = Inr m"
| "mm_run (x # xs) m = rbind (mm_step x m) (\<lambda>m'. mm_run xs m')"

text \<open>The same operations on the set of items the map stands for.\<close>

fun spec_step :: "('k1, 'k2, 'v) mm_op \<Rightarrow> ('k1, 'k2, 'v) item set \<Rightarrow> ('k1, 'k2, 'v) item set" where
  "spec_step (Insert k1 k2 v) S =
     (if k1 \<in> key1 ` S \<or> k2 \<in> key2 ` S then S else insert (k1, k2, v) S)"
| "spec_step (Get1 k1) S = S"
| "spec_step (Get2 k2) S = S"
| "spec_step (Set1 k1 v) S = (\<lambda>it. if key1 it = k1 then set_val (\<lambda>_. v) it else it) ` S"
| "spec_step (Set2 k2 v) S = (\<lambda>it. if key2 it = k2 then set_val (\<lambda>_. v) it else it) ` S"
| "spec_step (Remove1 k1) S = {it \<in> S. key1 it \<noteq> k1}"
| "spec_step (Remove2 k2) S = {it \<in> S. key2 it \<noteq> k2}"

section \<open>The invariant\<close>

text \<open>
  One of the two maps is keyed by \<open>key\<close> over a heap: every entry's two pointers agree, the
  entries name every live box once, and no two live boxes have equal keys.
\<close>

definition keyed :: "(addr \<rightharpoonup> 'i) \<Rightarrow> ('i \<Rightarrow> 'k) \<Rightarrow> entry list \<Rightarrow> bool" where
  "keyed h key es \<longleftrightarrow> (\<forall>e \<in> set es. fst e = snd e) \<and> distinct (map snd es) \<and>
     snd ` set es = dom h \<and> inj_on (\<lambda>a. key (the (h a))) (dom h)"

definition mm_wf :: "('k1, 'k2, 'v) multi_map \<Rightarrow> bool" where
  "mm_wf m \<longleftrightarrow> keyed (heap m) key1 (map1 m) \<and> keyed (heap m) key2 (map2 m)"

text \<open>What the map stands for: the set of its items.\<close>

definition mm_abs :: "('k1, 'k2, 'v) multi_map \<Rightarrow> ('k1, 'k2, 'v) item set" where
  "mm_abs m = ran (heap m)"

lemma keyed_live: "keyed h key es \<Longrightarrow> e \<in> set es \<Longrightarrow> \<exists>it. h (fst e) = Some it"
  by (force simp: keyed_def)

lemma keyed_unique:
  "keyed h key es \<Longrightarrow> h a = Some it \<Longrightarrow> h b = Some it' \<Longrightarrow> key it = key it' \<Longrightarrow> a = b"
  by (auto simp: keyed_def inj_on_def dom_def)

lemma probe_absent:
  "\<forall>e \<in> set es. \<exists>it. h (fst e) = Some it \<and> key it \<noteq> k \<Longrightarrow> probe h key k es = Inr None"
  by (induction es) (auto simp: deref_def)

lemma probe_present:
  "\<forall>e \<in> set pre. \<exists>it. h (fst e) = Some it \<and> key it \<noteq> k \<Longrightarrow> h (fst f) = Some it \<Longrightarrow> key it = k \<Longrightarrow>
   probe h key k (pre @ f # post) = Inr (Some (pre, f, post))"
  by (induction pre) (auto simp: deref_def)

lemma keyed_probe_absent:
  "keyed h key es \<Longrightarrow> k \<notin> key ` ran h \<Longrightarrow> probe h key k es = Inr None"
  by (rule probe_absent) (metis image_eqI keyed_live ranI)

lemma keyed_probe_present:
  assumes wf: "keyed h key es" and a: "h a = Some it"
  obtains pre post where "es = pre @ (a, a) # post"
    and "probe h key (key it) es = Inr (Some (pre, (a, a), post))"
    and "pre @ post = filter (\<lambda>e. snd e \<noteq> a) es"
proof -
  from a have "a \<in> dom h" by blast
  with wf have "a \<in> snd ` set es" by (simp add: keyed_def)
  then obtain e where "e \<in> set es" and "snd e = a" by blast
  with wf have "(a, a) \<in> set es" by (metis keyed_def prod.collapse)
  then obtain pre post where es: "es = pre @ (a, a) # post" by (meson split_list)
  have notin: "a \<notin> snd ` set pre" "a \<notin> snd ` set post"
    using wf by (auto simp: keyed_def es)
  have other: "\<exists>it'. h (fst e) = Some it' \<and> key it' \<noteq> key it" if "e \<in> set pre" for e
  proof -
    have "e \<in> set es" using that by (simp add: es)
    then obtain it' where it': "h (fst e) = Some it'" using keyed_live [OF wf] by blast
    have "fst e \<noteq> a"
      using wf \<open>e \<in> set es\<close> that notin(1) by (metis image_eqI keyed_def)
    with it' keyed_unique [OF wf it' a] show ?thesis by blast
  qed
  have "probe h key (key it) es = Inr (Some (pre, (a, a), post))"
    unfolding es by (rule probe_present) (use other a in auto)
  moreover have "pre @ post = filter (\<lambda>e. snd e \<noteq> a) es"
  proof -
    have "filter (\<lambda>e. snd e \<noteq> a) pre = pre" and "filter (\<lambda>e. snd e \<noteq> a) post = post"
      using notin by (force simp: filter_id_conv)+
    then show ?thesis by (simp add: es)
  qed
  ultimately show thesis using es that by blast
qed

lemma hm_contains_key_keyed:
  "keyed h key es \<Longrightarrow> hm_contains_key h key es k = Inr (k \<in> key ` ran h)"
proof (cases "k \<in> key ` ran h")
  case True
  assume wf: "keyed h key es"
  from True obtain a it where "h a = Some it" and "k = key it" by (auto simp: ran_def)
  with wf True show ?thesis
    by (auto simp: hm_contains_key_def elim: keyed_probe_present)
qed (simp add: hm_contains_key_def keyed_probe_absent)

lemma hm_find_absent:
  "keyed h key es \<Longrightarrow> k \<notin> key ` ran h \<Longrightarrow> hm_find h key es k = Inr None"
  by (simp add: hm_find_def keyed_probe_absent)

lemma hm_find_present:
  "keyed h key es \<Longrightarrow> h a = Some it \<Longrightarrow> hm_find h key es (key it) = Inr (Some a)"
  by (auto simp: hm_find_def elim: keyed_probe_present)

lemma hm_take_absent:
  "keyed h key es \<Longrightarrow> k \<notin> key ` ran h \<Longrightarrow> hm_take h key es k = Inr (None, es)"
  by (simp add: hm_take_def keyed_probe_absent)

lemma hm_take_present:
  assumes "keyed h key es" and "h a = Some it"
  shows "hm_take h key es (key it) = Inr (Some a, filter (\<lambda>e. snd e \<noteq> a) es)"
  using keyed_probe_present [OF assms] by (metis (mono_tags, lifting) hm_take_def
      old.prod.case option.case(2) rbind.simps(2) snd_conv)

lemma hm_put_fresh:
  assumes wf: "keyed h key es" and a: "h a = None" and k: "key it \<notin> key ` ran h"
  shows "hm_put (h(a \<mapsto> it)) key es a a = Inr (es @ [(a, a)])"
proof -
  have "probe (h(a \<mapsto> it)) key (key it) es = Inr None"
  proof (rule probe_absent, rule ballI)
    fix e
    assume e: "e \<in> set es"
    then obtain it' where it': "h (fst e) = Some it'" using keyed_live [OF wf] by blast
    with a have "fst e \<noteq> a" by auto
    moreover have "key it' \<noteq> key it" using it' k by (metis image_eqI ranI)
    ultimately show "\<exists>it'. (h(a \<mapsto> it)) (fst e) = Some it' \<and> key it' \<noteq> key it"
      using it' by simp
  qed
  then show ?thesis by (simp add: hm_put_def deref_def)
qed

lemma keyed_insert [wf_intros]:
  assumes "keyed h key es" and "h a = None" and "key it \<notin> key ` ran h"
  shows "keyed (h(a \<mapsto> it)) key (es @ [(a, a)])"
  using assms by (auto simp: keyed_def inj_on_def ran_def dom_def image_iff)

lemma keyed_delete [wf_intros]:
  assumes "keyed h key es"
  shows "keyed (h(a := None)) key (filter (\<lambda>e. snd e \<noteq> a) es)"
  using assms unfolding keyed_def
  by (auto simp: distinct_map_filter inj_on_def image_iff)

lemma keyed_update [wf_intros]:
  assumes "keyed h key es" and "h a = Some it" and "key it' = key it"
  shows "keyed (h(a \<mapsto> it')) key es"
proof -
  have "dom (h(a \<mapsto> it')) = dom h"
    using assms(2) by auto
  moreover have "key (the ((h(a \<mapsto> it')) x)) = key (the (h x))" for x
    using assms(2,3) by simp
  ultimately show ?thesis
    using assms(1) by (simp add: keyed_def)
qed

section \<open>The operations against the set of items\<close>

lemma mm_new_wf [wf_intros]: "mm_wf mm_new"
  by (simp add: mm_wf_def mm_new_def keyed_def)

lemma mm_new_abs [simp]: "mm_abs mm_new = {}"
  by (simp add: mm_abs_def mm_new_def)

lemma fresh_addr_free:
  assumes "mm_wf m"
  shows "heap m (fresh_addr m) = None"
proof -
  have bound: "b \<le> fold (\<lambda>e n. max (snd e) n) es n"
    if "b = n \<or> b \<in> snd ` set es" for b n and es :: "entry list"
    using that
  proof (induction es arbitrary: n b)
    case (Cons e es)
    have "max (snd e) n \<le> fold (\<lambda>e n. max (snd e) n) es (max (snd e) n)"
      by (rule Cons.IH) simp
    moreover have "b \<le> max (snd e) n \<or> b \<in> snd ` set es"
      using Cons.prems by auto
    ultimately show ?case
      using Cons.IH by auto
  qed simp
  have "fresh_addr m \<notin> snd ` set (map1 m)"
    using bound [of "fresh_addr m" 0 "map1 m"] by (auto simp: fresh_addr_def)
  with assms show ?thesis
    by (auto simp: mm_wf_def keyed_def)
qed

text \<open>Looking an item up by either key.\<close>

lemma mm_get1_absent: "mm_wf m \<Longrightarrow> k1 \<notin> key1 ` mm_abs m \<Longrightarrow> mm_get1 m k1 = Inr None"
  by (simp add: mm_get1_def mm_wf_def mm_abs_def hm_find_absent)

lemma mm_get2_absent: "mm_wf m \<Longrightarrow> k2 \<notin> key2 ` mm_abs m \<Longrightarrow> mm_get2 m k2 = Inr None"
  by (simp add: mm_get2_def mm_wf_def mm_abs_def hm_find_absent)

lemma mm_get1_present: "mm_wf m \<Longrightarrow> it \<in> mm_abs m \<Longrightarrow> mm_get1 m (key1 it) = Inr (Some (val_of it))"
  by (auto simp: mm_get1_def mm_wf_def mm_abs_def ran_def hm_find_present deref_def)

lemma mm_get2_present: "mm_wf m \<Longrightarrow> it \<in> mm_abs m \<Longrightarrow> mm_get2 m (key2 it) = Inr (Some (val_of it))"
  by (auto simp: mm_get2_def mm_wf_def mm_abs_def ran_def hm_find_present deref_def)

lemma mm_abs_unique1:
  "mm_wf m \<Longrightarrow> it \<in> mm_abs m \<Longrightarrow> it' \<in> mm_abs m \<Longrightarrow> key1 it = key1 it' \<Longrightarrow> it = it'"
  by (auto simp: mm_wf_def mm_abs_def ran_def) (metis keyed_unique option.inject)

lemma mm_abs_unique2:
  "mm_wf m \<Longrightarrow> it \<in> mm_abs m \<Longrightarrow> it' \<in> mm_abs m \<Longrightarrow> key2 it = key2 it' \<Longrightarrow> it = it'"
  by (auto simp: mm_wf_def mm_abs_def ran_def) (metis keyed_unique option.inject)

text \<open>Inserting: refused when either key is taken, otherwise one more item.\<close>

lemma mm_insert_at_taken:
  assumes "mm_wf m" and "k1 \<in> key1 ` mm_abs m \<or> k2 \<in> key2 ` mm_abs m"
  shows "mm_insert_at a k1 k2 v m = Inr (Inl (k1, k2, v), m)"
  using assms by (auto simp: mm_insert_at_def mm_wf_def mm_abs_def hm_contains_key_keyed)

lemma mm_insert_at_fresh:
  assumes wf: "mm_wf m" and a: "heap m a = None"
    and k1: "k1 \<notin> key1 ` mm_abs m" and k2: "k2 \<notin> key2 ` mm_abs m"
  obtains m' where "mm_insert_at a k1 k2 v m = Inr (Inr (), m')"
    and "mm_wf m'" and "mm_abs m' = insert (k1, k2, v) (mm_abs m)"
proof -
  let ?it = "(k1, k2, v)"
  let ?h = "(heap m)(a \<mapsto> ?it)"
  let ?m' = "\<lparr>heap = ?h, map1 = map1 m @ [(a, a)], map2 = map2 m @ [(a, a)]\<rparr>"
  have keys: "key1 ?it \<notin> key1 ` ran (heap m)" "key2 ?it \<notin> key2 ` ran (heap m)"
    using k1 k2 by (simp_all add: key1_def key2_def mm_abs_def)
  have wfs: "keyed (heap m) key1 (map1 m)" "keyed (heap m) key2 (map2 m)"
    using wf by (simp_all add: mm_wf_def)
  have "mm_insert_at a k1 k2 v m = Inr (Inr (), ?m')"
    using k1 k2 hm_put_fresh [OF wfs(1) a keys(1)] hm_put_fresh [OF wfs(2) a keys(2)]
    by (simp add: mm_insert_at_def hm_contains_key_keyed wfs mm_abs_def)
  moreover have "mm_wf ?m'"
    using wfs a keys by (simp add: mm_wf_def keyed_insert)
  moreover have "mm_abs ?m' = insert ?it (mm_abs m)"
    using a by (simp add: mm_abs_def)
  ultimately show thesis by (rule that)
qed

text \<open>Removing by either key: the item with that key goes, and both maps forget it.\<close>

lemma mm_remove1_absent:
  "mm_wf m \<Longrightarrow> k1 \<notin> key1 ` mm_abs m \<Longrightarrow> mm_remove1 m k1 = Inr (None, m)"
  by (simp add: mm_remove1_def mm_wf_def mm_abs_def hm_take_absent)

lemma mm_remove2_absent:
  "mm_wf m \<Longrightarrow> k2 \<notin> key2 ` mm_abs m \<Longrightarrow> mm_remove2 m k2 = Inr (None, m)"
  by (simp add: mm_remove2_def mm_wf_def mm_abs_def hm_take_absent)

definition without :: "addr \<Rightarrow> ('k1, 'k2, 'v) multi_map \<Rightarrow> ('k1, 'k2, 'v) multi_map" where
  "without a m = \<lparr>heap = (heap m)(a := None), map1 = filter (\<lambda>e. snd e \<noteq> a) (map1 m),
     map2 = filter (\<lambda>e. snd e \<noteq> a) (map2 m)\<rparr>"

lemma without_wf [wf_intros]: "mm_wf m \<Longrightarrow> mm_wf (without a m)"
  by (simp add: mm_wf_def without_def keyed_delete)

lemma without_abs:
  assumes wf: "mm_wf m" and a: "heap m a = Some it"
  shows "mm_abs (without a m) = mm_abs m - {it}"
proof -
  have "keyed (heap m) key1 (map1 m)"
    using wf by (simp add: mm_wf_def)
  then have only: "b = a" if "heap m b = Some it" for b
    using that a by (rule keyed_unique) simp
  show ?thesis
  proof (rule set_eqI, rule iffI)
    fix x
    assume "x \<in> mm_abs (without a m)"
    then obtain b where "b \<noteq> a" and "heap m b = Some x"
      by (auto simp: mm_abs_def without_def ran_def split: if_splits)
    with only show "x \<in> mm_abs m - {it}"
      by (auto simp: mm_abs_def ran_def)
  next
    fix x
    assume "x \<in> mm_abs m - {it}"
    then obtain b where "heap m b = Some x" and "x \<noteq> it"
      by (auto simp: mm_abs_def ran_def)
    moreover from this a have "b \<noteq> a" by auto
    ultimately show "x \<in> mm_abs (without a m)"
      by (auto simp: mm_abs_def without_def ran_def)
  qed
qed

lemma mm_remove1_at:
  assumes "mm_wf m" and "heap m a = Some it"
  shows "mm_remove1 m (key1 it) = Inr (Some (val_of it), without a m)"
  using assms
  by (simp add: mm_remove1_def mm_wf_def hm_take_present deref_def free_box_def without_def)

lemma mm_remove2_at:
  assumes "mm_wf m" and "heap m a = Some it"
  shows "mm_remove2 m (key2 it) = Inr (Some (val_of it), without a m)"
  using assms
  by (simp add: mm_remove2_def mm_wf_def hm_take_present deref_def free_box_def without_def)

lemma mm_remove1_present:
  assumes "mm_wf m" and "it \<in> mm_abs m"
  obtains m' where "mm_remove1 m (key1 it) = Inr (Some (val_of it), m')"
    and "mm_wf m'" and "mm_abs m' = mm_abs m - {it}"
proof -
  obtain a where a: "heap m a = Some it"
    using assms(2) by (auto simp: mm_abs_def ran_def)
  show thesis
    using that [OF mm_remove1_at [OF assms(1) a]] assms(1) a by (simp add: without_wf without_abs)
qed

lemma mm_remove2_present:
  assumes "mm_wf m" and "it \<in> mm_abs m"
  obtains m' where "mm_remove2 m (key2 it) = Inr (Some (val_of it), m')"
    and "mm_wf m'" and "mm_abs m' = mm_abs m - {it}"
proof -
  obtain a where a: "heap m a = Some it"
    using assms(2) by (auto simp: mm_abs_def ran_def)
  show thesis
    using that [OF mm_remove2_at [OF assms(1) a]] assms(1) a by (simp add: without_wf without_abs)
qed

text \<open>Mutable access changes the value of the one item and no key.\<close>

lemma set_val_keys [simp]: "key1 (set_val f it) = key1 it" "key2 (set_val f it) = key2 it"
  by (simp_all add: set_val_def key1_def key2_def)

lemma mm_heap_update_wf:
  "mm_wf m \<Longrightarrow> heap m a = Some it \<Longrightarrow> mm_wf (m\<lparr>heap := (heap m)(a \<mapsto> set_val f it)\<rparr>)"
  by (simp add: mm_wf_def keyed_update)

lemma ran_update_item:
  assumes "keyed h key es" and "h a = Some it"
  shows "ran (h(a \<mapsto> g it)) = (\<lambda>x. if key x = key it then g x else x) ` ran h"
proof (rule set_eqI)
  fix y
  have only: "b = a \<and> x = it" if "h b = Some x" "key x = key it" for b x
    using keyed_unique [OF assms(1) that(1) assms(2) that(2)] that assms(2) by auto
  show "y \<in> ran (h(a \<mapsto> g it)) \<longleftrightarrow> y \<in> (\<lambda>x. if key x = key it then g x else x) ` ran h"
  proof
    assume "y \<in> ran (h(a \<mapsto> g it))"
    then obtain b where "b = a \<and> y = g it \<or> b \<noteq> a \<and> h b = Some y"
      by (auto simp: ran_def split: if_splits)
    then show "y \<in> (\<lambda>x. if key x = key it then g x else x) ` ran h"
    proof
      assume "b = a \<and> y = g it"
      with assms(2) show ?thesis by (auto simp: ran_def intro!: image_eqI [of _ _ it])
    next
      assume "b \<noteq> a \<and> h b = Some y"
      with only show ?thesis by (auto simp: ran_def intro!: image_eqI [of _ _ y])
    qed
  next
    assume "y \<in> (\<lambda>x. if key x = key it then g x else x) ` ran h"
    then obtain b x where bx: "h b = Some x" "y = (if key x = key it then g x else x)"
      by (auto simp: ran_def)
    show "y \<in> ran (h(a \<mapsto> g it))"
    proof (cases "key x = key it")
      case True
      with only [OF bx(1)] bx show ?thesis by (auto simp: ran_def)
    next
      case False
      with assms(2) bx have "b \<noteq> a" by auto
      with False bx show ?thesis by (auto simp: ran_def)
    qed
  qed
qed

lemma mm_get1_mut_spec:
  assumes "mm_wf m"
  shows "\<exists>b m'. mm_get1_mut m k1 f = Inr (b, m') \<and> mm_wf m' \<and>
    mm_abs m' = (\<lambda>it. if key1 it = k1 then set_val f it else it) ` mm_abs m"
proof (cases "k1 \<in> key1 ` mm_abs m")
  case True
  then obtain a it where it: "heap m a = Some it" and k1: "k1 = key1 it"
    by (auto simp: mm_abs_def ran_def)
  let ?m' = "m\<lparr>heap := (heap m)(a \<mapsto> set_val f it)\<rparr>"
  have wf1: "keyed (heap m) key1 (map1 m)" using assms by (simp add: mm_wf_def)
  have "mm_get1_mut m k1 f = Inr (True, ?m')"
    using hm_find_present [OF wf1 it] it by (simp add: mm_get1_mut_def k1 deref_def)
  moreover have "mm_abs ?m' = (\<lambda>it. if key1 it = k1 then set_val f it else it) ` mm_abs m"
    using ran_update_item [OF wf1 it] by (simp add: mm_abs_def k1)
  ultimately show ?thesis
    using mm_heap_update_wf [OF assms it] by blast
next
  case False
  then have "(\<lambda>it. if key1 it = k1 then set_val f it else it) ` mm_abs m = mm_abs m"
    by (force simp: image_iff)
  with False assms show ?thesis
    by (auto simp: mm_get1_mut_def mm_wf_def mm_abs_def hm_find_absent)
qed

lemma mm_get_mut2_spec:
  assumes "mm_wf m"
  shows "\<exists>b m'. mm_get_mut2 m k2 f = Inr (b, m') \<and> mm_wf m' \<and>
    mm_abs m' = (\<lambda>it. if key2 it = k2 then set_val f it else it) ` mm_abs m"
proof (cases "k2 \<in> key2 ` mm_abs m")
  case True
  then obtain a it where it: "heap m a = Some it" and k2: "k2 = key2 it"
    by (auto simp: mm_abs_def ran_def)
  let ?m' = "m\<lparr>heap := (heap m)(a \<mapsto> set_val f it)\<rparr>"
  have wf2: "keyed (heap m) key2 (map2 m)" using assms by (simp add: mm_wf_def)
  have "mm_get_mut2 m k2 f = Inr (True, ?m')"
    using hm_find_present [OF wf2 it] it by (simp add: mm_get_mut2_def k2 deref_def)
  moreover have "mm_abs ?m' = (\<lambda>it. if key2 it = k2 then set_val f it else it) ` mm_abs m"
    using ran_update_item [OF wf2 it] by (simp add: mm_abs_def k2)
  ultimately show ?thesis
    using mm_heap_update_wf [OF assms it] by blast
next
  case False
  then have "(\<lambda>it. if key2 it = k2 then set_val f it else it) ` mm_abs m = mm_abs m"
    by (force simp: image_iff)
  with False assms show ?thesis
    by (auto simp: mm_get_mut2_def mm_wf_def mm_abs_def hm_find_absent)
qed

lemma free_all_live:
  "distinct (map snd es) \<Longrightarrow> snd ` set es \<subseteq> dom h \<Longrightarrow>
   free_all h es = Inr (h |` (- (snd ` set es)))"
proof (induction es arbitrary: h)
  case (Cons e es)
  have live: "h (snd e) \<noteq> None" using Cons.prems(2) by auto
  have "free_all (h(snd e := None)) es =
      Inr (h(snd e := None) |` (- (snd ` set es)))"
  proof (rule Cons.IH)
    show "distinct (map snd es)" using Cons.prems(1) by simp
    show "snd ` set es \<subseteq> dom (h(snd e := None))"
      using Cons.prems by (simp add: subset_Diff_insert)
  qed
  moreover have "h(snd e := None) |` (- (snd ` set es)) = h |` (- (snd ` set (e # es)))"
    by (auto simp: restrict_map_def fun_eq_iff)
  ultimately show ?case
    using live by (simp add: free_box_def)
qed (simp add: restrict_map_def)

lemma mm_drop_wf: "mm_wf m \<Longrightarrow> mm_drop m = Inr mm_new"
proof -
  assume "mm_wf m"
  then have k: "keyed (heap m) key2 (map2 m)" by (simp add: mm_wf_def)
  then have "free_all (heap m) (map2 m) = Inr (heap m |` (- dom (heap m)))"
    by (subst free_all_live) (auto simp: keyed_def)
  moreover have "heap m |` (- dom (heap m)) = Map.empty"
    by (auto simp: restrict_map_def fun_eq_iff)
  ultimately show ?thesis
    by (simp add: mm_drop_def mm_new_def)
qed

section \<open>The interface of a two-key map\<close>

text \<open>
  What a client of the map relies on. \<open>items\<close> is the set of items the map stands for;
  operations return \<open>Inl\<close> for undefined behaviour, which the laws exclude.
\<close>

locale two_key_map =
  fixes emp :: "'m"
    and ins :: "'k1 \<Rightarrow> 'k2 \<Rightarrow> 'v \<Rightarrow> 'm \<Rightarrow> 'u + (('k1 \<times> 'k2 \<times> 'v) + unit) \<times> 'm"
    and get1 :: "'m \<Rightarrow> 'k1 \<Rightarrow> 'u + 'v option"
    and get2 :: "'m \<Rightarrow> 'k2 \<Rightarrow> 'u + 'v option"
    and rem1 :: "'m \<Rightarrow> 'k1 \<Rightarrow> 'u + 'v option \<times> 'm"
    and rem2 :: "'m \<Rightarrow> 'k2 \<Rightarrow> 'u + 'v option \<times> 'm"
    and items :: "'m \<Rightarrow> ('k1 \<times> 'k2 \<times> 'v) set"
    and invar :: "'m \<Rightarrow> bool"
  assumes invar_emp: "invar emp"
    and items_emp: "items emp = {}"
    and unique1: "invar m \<Longrightarrow> (k1, k2, v) \<in> items m \<Longrightarrow> (k1, k2', v') \<in> items m \<Longrightarrow>
        k2 = k2' \<and> v = v'"
    and unique2: "invar m \<Longrightarrow> (k1, k2, v) \<in> items m \<Longrightarrow> (k1', k2, v') \<in> items m \<Longrightarrow>
        k1 = k1' \<and> v = v'"
    and get1_found: "invar m \<Longrightarrow> (k1, k2, v) \<in> items m \<Longrightarrow> get1 m k1 = Inr (Some v)"
    and get1_missing: "invar m \<Longrightarrow> (\<And>k2 v. (k1, k2, v) \<notin> items m) \<Longrightarrow> get1 m k1 = Inr None"
    and get2_found: "invar m \<Longrightarrow> (k1, k2, v) \<in> items m \<Longrightarrow> get2 m k2 = Inr (Some v)"
    and get2_missing: "invar m \<Longrightarrow> (\<And>k1 v. (k1, k2, v) \<notin> items m) \<Longrightarrow> get2 m k2 = Inr None"
    and ins_taken: "invar m \<Longrightarrow> (k1, k2', v') \<in> items m \<or> (k1', k2, v') \<in> items m \<Longrightarrow>
        ins k1 k2 v m = Inr (Inl (k1, k2, v), m)"
    and ins_fresh: "invar m \<Longrightarrow> (\<And>k2 v. (k1, k2, v) \<notin> items m) \<Longrightarrow> (\<And>k1 v. (k1, k2, v) \<notin> items m) \<Longrightarrow>
        \<exists>m'. ins k1 k2 v m = Inr (Inr (), m') \<and> invar m' \<and> items m' = insert (k1, k2, v) (items m)"
    and rem1_found: "invar m \<Longrightarrow> (k1, k2, v) \<in> items m \<Longrightarrow>
        \<exists>m'. rem1 m k1 = Inr (Some v, m') \<and> invar m' \<and> items m' = items m - {(k1, k2, v)}"
    and rem1_missing: "invar m \<Longrightarrow> (\<And>k2 v. (k1, k2, v) \<notin> items m) \<Longrightarrow> rem1 m k1 = Inr (None, m)"
    and rem2_found: "invar m \<Longrightarrow> (k1, k2, v) \<in> items m \<Longrightarrow>
        \<exists>m'. rem2 m k2 = Inr (Some v, m') \<and> invar m' \<and> items m' = items m - {(k1, k2, v)}"
    and rem2_missing: "invar m \<Longrightarrow> (\<And>k1 v. (k1, k2, v) \<notin> items m) \<Longrightarrow> rem2 m k2 = Inr (None, m)"
begin

lemma get1_iff:
  assumes "invar m"
  shows "get1 m k1 = Inr (Some v) \<longleftrightarrow> (\<exists>k2. (k1, k2, v) \<in> items m)"
proof
  assume get: "get1 m k1 = Inr (Some v)"
  then obtain k2 w where "(k1, k2, w) \<in> items m"
    using get1_missing [OF assms, of k1] by force
  moreover from get1_found [OF assms this] get have "w = v" by simp
  ultimately show "\<exists>k2. (k1, k2, v) \<in> items m" by blast
qed (blast intro: get1_found [OF assms])

lemma get2_iff:
  assumes "invar m"
  shows "get2 m k2 = Inr (Some v) \<longleftrightarrow> (\<exists>k1. (k1, k2, v) \<in> items m)"
proof
  assume get: "get2 m k2 = Inr (Some v)"
  then obtain k1 w where "(k1, k2, w) \<in> items m"
    using get2_missing [OF assms, of k2] by force
  moreover from get2_found [OF assms this] get have "w = v" by simp
  ultimately show "\<exists>k1. (k1, k2, v) \<in> items m" by blast
qed (blast intro: get2_found [OF assms])

lemma get1_total: "invar m \<Longrightarrow> \<exists>r. get1 m k1 = Inr r"
  using get1_found get1_missing by metis

lemma get2_total: "invar m \<Longrightarrow> \<exists>r. get2 m k2 = Inr r"
  using get2_found get2_missing by metis

lemma rem1_total:
  assumes "invar m"
  obtains r m' where "rem1 m k1 = Inr (r, m')" and "invar m'"
    and "items m' = {it \<in> items m. fst it \<noteq> k1}"
    and "r = None \<longleftrightarrow> k1 \<notin> fst ` items m"
proof (cases "\<exists>k2 v. (k1, k2, v) \<in> items m")
  case True
  then obtain k2 v where it: "(k1, k2, v) \<in> items m" by blast
  then obtain m' where m': "rem1 m k1 = Inr (Some v, m')" "invar m'"
      "items m' = items m - {(k1, k2, v)}"
    using rem1_found [OF assms] by blast
  have items': "items m' = {it \<in> items m. fst it \<noteq> k1}"
    by (rule set_eqI) (auto simp: m'(3) dest: unique1 [OF assms it])
  have "Some v = None \<longleftrightarrow> k1 \<notin> fst ` items m"
    using it by force
  then show thesis
    by (rule that [OF m'(1,2) items'])
next
  case False
  then have "items m = {it \<in> items m. fst it \<noteq> k1}" and none: "k1 \<notin> fst ` items m" by force+
  moreover have "rem1 m k1 = Inr (None, m)"
    using rem1_missing [OF assms] False by blast
  ultimately show thesis
    using assms by (intro that [of None m]) auto
qed

text \<open>
  Replacing the item of a first key, the server's way of installing a control channel: it
  cannot fail unless another first key holds the new second key.
\<close>

lemma replace:
  assumes inv: "invar m" and other: "\<And>k1' v'. (k1', k2, v') \<in> items m \<Longrightarrow> k1' = k1"
  obtains old m1 m2 where "rem1 m k1 = Inr (old, m1)" and "invar m1"
    and "ins k1 k2 v m1 = Inr (Inr (), m2)" and "invar m2"
    and "items m2 = insert (k1, k2, v) {it \<in> items m. fst it \<noteq> k1}"
proof -
  obtain old m1 where m1: "rem1 m k1 = Inr (old, m1)" "invar m1"
      "items m1 = {it \<in> items m. fst it \<noteq> k1}"
    by (rule rem1_total [OF inv])
  have "(k1, k2', v') \<notin> items m1" "(k1', k2, v') \<notin> items m1" for k1' k2' v'
    using m1(3) other by auto
  then obtain m2 where m2: "ins k1 k2 v m1 = Inr (Inr (), m2)" "invar m2"
      "items m2 = insert (k1, k2, v) (items m1)"
    using ins_fresh [OF m1(2)] by blast
  show thesis
    by (rule that [OF m1(1,2) m2(1,2)]) (simp add: m1(3) m2(3))
qed

end

interpretation mm: two_key_map mm_new mm_insert mm_get1 mm_get2 mm_remove1 mm_remove2 mm_abs mm_wf
proof
  fix m :: "('a, 'b, 'c) multi_map" and k1 k2 v k1' k2' v'
  assume wf: "mm_wf m"
  show "k2 = k2' \<and> v = v'" if "(k1, k2, v) \<in> mm_abs m" "(k1, k2', v') \<in> mm_abs m"
    using mm_abs_unique1 [OF wf that] by (simp add: key1_def)
  show "k1 = k1' \<and> v = v'" if "(k1, k2, v) \<in> mm_abs m" "(k1', k2, v') \<in> mm_abs m"
    using mm_abs_unique2 [OF wf that] by (simp add: key2_def)
  show "mm_get1 m k1 = Inr (Some v)" if "(k1, k2, v) \<in> mm_abs m"
    using mm_get1_present [OF wf that] by (simp add: key1_def val_of_def)
  show "mm_get2 m k2 = Inr (Some v)" if "(k1, k2, v) \<in> mm_abs m"
    using mm_get2_present [OF wf that] by (simp add: key2_def val_of_def)
  show "mm_get1 m k1 = Inr None" if "\<And>k2 v. (k1, k2, v) \<notin> mm_abs m"
    using wf that by (intro mm_get1_absent) (auto simp: key1_def)
  show "mm_get2 m k2 = Inr None" if "\<And>k1 v. (k1, k2, v) \<notin> mm_abs m"
    using wf that by (intro mm_get2_absent) (auto simp: key2_def)
  show "mm_insert k1 k2 v m = Inr (Inl (k1, k2, v), m)"
    if "(k1, k2', v') \<in> mm_abs m \<or> (k1', k2, v') \<in> mm_abs m"
    unfolding mm_insert_def using wf
    by (rule mm_insert_at_taken) (use that in \<open>force simp: key1_def key2_def\<close>)
  show "\<exists>m'. mm_insert k1 k2 v m = Inr (Inr (), m') \<and> mm_wf m' \<and>
      mm_abs m' = insert (k1, k2, v) (mm_abs m)"
    if "\<And>k2 v. (k1, k2, v) \<notin> mm_abs m" "\<And>k1 v. (k1, k2, v) \<notin> mm_abs m"
  proof (rule mm_insert_at_fresh [OF wf fresh_addr_free [OF wf]])
    show "k1 \<notin> key1 ` mm_abs m" "k2 \<notin> key2 ` mm_abs m"
      using that by (auto simp: key1_def key2_def)
  qed (auto simp: mm_insert_def)
  show "\<exists>m'. mm_remove1 m k1 = Inr (Some v, m') \<and> mm_wf m' \<and> mm_abs m' = mm_abs m - {(k1, k2, v)}"
    if "(k1, k2, v) \<in> mm_abs m"
    using mm_remove1_present [OF wf that] by (auto simp: key1_def val_of_def)
  show "\<exists>m'. mm_remove2 m k2 = Inr (Some v, m') \<and> mm_wf m' \<and> mm_abs m' = mm_abs m - {(k1, k2, v)}"
    if "(k1, k2, v) \<in> mm_abs m"
    using mm_remove2_present [OF wf that] by (auto simp: key2_def val_of_def)
  show "mm_remove1 m k1 = Inr (None, m)" if "\<And>k2 v. (k1, k2, v) \<notin> mm_abs m"
    using wf that by (intro mm_remove1_absent) (auto simp: key1_def)
  show "mm_remove2 m k2 = Inr (None, m)" if "\<And>k1 v. (k1, k2, v) \<notin> mm_abs m"
    using wf that by (intro mm_remove2_absent) (auto simp: key2_def)
qed (simp_all add: mm_new_wf)

section \<open>Correctness\<close>

lemma mm_remove2_spec:
  assumes "mm_wf m"
  shows "\<exists>r m'. mm_remove2 m k2 = Inr (r, m') \<and> mm_wf m' \<and> mm_abs m' = {it \<in> mm_abs m. key2 it \<noteq> k2}"
proof (cases "k2 \<in> key2 ` mm_abs m")
  case True
  then obtain it where it: "it \<in> mm_abs m" and k2: "k2 = key2 it" by blast
  obtain m' where "mm_remove2 m k2 = Inr (Some (val_of it), m')" "mm_wf m'" "mm_abs m' = mm_abs m - {it}"
    using mm_remove2_present [OF assms it] k2 by metis
  moreover have "mm_abs m - {it} = {x \<in> mm_abs m. key2 x \<noteq> k2}"
    by (rule set_eqI) (auto simp: k2 it dest: mm_abs_unique2 [OF assms _ it])
  ultimately show ?thesis by auto
next
  case False
  with assms show ?thesis by (auto simp: mm_remove2_absent)
qed

lemma mm_insert_spec:
  assumes "mm_wf m"
  shows "\<exists>r m'. mm_insert k1 k2 v m = Inr (r, m') \<and> mm_wf m' \<and>
    mm_abs m' = spec_step (Insert k1 k2 v) (mm_abs m)"
proof (cases "k1 \<in> key1 ` mm_abs m \<or> k2 \<in> key2 ` mm_abs m")
  case True
  with assms show ?thesis
    by (simp add: mm_insert_def mm_insert_at_taken)
next
  case False
  then obtain m' where "mm_insert k1 k2 v m = Inr (Inr (), m')" "mm_wf m'"
      "mm_abs m' = insert (k1, k2, v) (mm_abs m)"
    unfolding mm_insert_def
    using mm_insert_at_fresh [OF assms fresh_addr_free [OF assms]] by metis
  with False show ?thesis by auto
qed

lemma mm_step_refines:
  assumes wf: "mm_wf m"
  shows "\<exists>m'. mm_step x m = Inr m' \<and> mm_wf m' \<and> mm_abs m' = spec_step x (mm_abs m)"
proof (cases x)
  case (Insert k1 k2 v)
  obtain r m' where "mm_insert k1 k2 v m = Inr (r, m')" "mm_wf m'"
      "mm_abs m' = spec_step (Insert k1 k2 v) (mm_abs m)"
    using mm_insert_spec [OF wf] by blast
  with Insert show ?thesis by (simp del: spec_step.simps)
next
  case (Get1 k1)
  with mm.get1_total [OF wf, of k1] wf show ?thesis by auto
next
  case (Get2 k2)
  with mm.get2_total [OF wf, of k2] wf show ?thesis by auto
next
  case (Set1 k1 v)
  with mm_get1_mut_spec [OF wf, of k1 "\<lambda>_. v"] show ?thesis by auto
next
  case (Set2 k2 v)
  with mm_get_mut2_spec [OF wf, of k2 "\<lambda>_. v"] show ?thesis by auto
next
  case (Remove1 k1)
  obtain r m' where "mm_remove1 m k1 = Inr (r, m')" "mm_wf m'"
      "mm_abs m' = {it \<in> mm_abs m. fst it \<noteq> k1}"
    by (rule mm.rem1_total [OF wf])
  with Remove1 show ?thesis by (simp add: key1_def)
next
  case (Remove2 k2)
  with mm_remove2_spec [OF wf, of k2] show ?thesis by auto
qed

lemma mm_run_refines:
  "mm_wf m \<Longrightarrow> \<exists>m'. mm_run xs m = Inr m' \<and> mm_wf m' \<and> mm_abs m' = fold spec_step xs (mm_abs m)"
proof (induction xs arbitrary: m)
  case (Cons x xs)
  obtain m1 where m1: "mm_step x m = Inr m1" "mm_wf m1" "mm_abs m1 = spec_step x (mm_abs m)"
    using mm_step_refines [OF Cons.prems] by blast
  with Cons.IH [OF m1(2)] show ?case by simp
qed simp

text \<open>
  C5. Memory safety and refinement of the two-key map: whatever sequence of operations is run on
  a new map, no \<^verbatim>\<open>unsafe\<close> block dereferences a dangling pointer or releases a box twice, the
  result stands for the set of items that the same operations give on the specification, and
  dropping it then releases every box, once.
\<close>

theorem mm_memory_safe:
  "\<exists>m. mm_run ops mm_new = Inr m \<and> mm_abs m = fold spec_step ops {} \<and> mm_drop m = Inr mm_new"
  using mm_run_refines [OF mm_new_wf, of ops] mm_drop_wf by auto

text \<open>
  Insert and lookup: an accepted insert makes the value available under both of its keys and
  leaves every other key as it was.
\<close>

theorem mm_insert_get:
  assumes "mm_wf m" and "mm_insert k1 k2 v m = Inr (Inr (), m')"
  shows "mm_get1 m' k1 = Inr (Some v) \<and> mm_get2 m' k2 = Inr (Some v) \<and>
    (\<forall>x. x \<noteq> k1 \<longrightarrow> mm_get1 m' x = mm_get1 m x) \<and> (\<forall>y. y \<noteq> k2 \<longrightarrow> mm_get2 m' y = mm_get2 m y)"
proof -
  have "k1 \<notin> key1 ` mm_abs m" "k2 \<notin> key2 ` mm_abs m"
    using mm_insert_at_taken [OF assms(1), of k1 k2 "fresh_addr m" v] assms(2)
    by (auto simp: mm_insert_def)
  then have fresh: "(k1, b, w) \<notin> mm_abs m" "(a, k2, w) \<notin> mm_abs m" for a b w
    by (force simp: key1_def key2_def)+
  have wf': "mm_wf m'" and abs': "mm_abs m' = insert (k1, k2, v) (mm_abs m)"
    using mm.ins_fresh [OF assms(1) fresh, of v] assms(2) by auto
  have other1: "mm_get1 m' x = mm_get1 m x" if "x \<noteq> k1" for x
  proof (cases "\<exists>b w. (x, b, w) \<in> mm_abs m")
    case True
    then show ?thesis
      using mm.get1_found [OF wf'] mm.get1_found [OF assms(1)] abs' by (metis insertI2)
  next
    case False
    with that abs' show ?thesis
      using mm.get1_missing [OF wf', of x] mm.get1_missing [OF assms(1), of x] by auto
  qed
  have other2: "mm_get2 m' y = mm_get2 m y" if "y \<noteq> k2" for y
  proof (cases "\<exists>a w. (a, y, w) \<in> mm_abs m")
    case True
    then show ?thesis
      using mm.get2_found [OF wf'] mm.get2_found [OF assms(1)] abs' by (metis insertI2)
  next
    case False
    with that abs' show ?thesis
      using mm.get2_missing [OF wf', of y] mm.get2_missing [OF assms(1), of y] by auto
  qed
  have "(k1, k2, v) \<in> mm_abs m'"
    by (simp add: abs')
  then have "mm_get1 m' k1 = Inr (Some v)" "mm_get2 m' k2 = Inr (Some v)"
    by (rule mm.get1_found [OF wf'], rule mm.get2_found [OF wf'])
  with other1 other2 show ?thesis by blast
qed

theorem mm_insert_get_witness:
  "mm_get2 \<lparr>heap = [1 \<mapsto> (1::nat, 2::nat, 3::nat)], map1 = [(1, 1)], map2 = [(1, 1)]\<rparr> 2 = Inr (Some 3)"
proof -
  have "mm_insert (1::nat) (2::nat) (3::nat) mm_new =
      Inr (Inr (), \<lparr>heap = [1 \<mapsto> (1, 2, 3)], map1 = [(1, 1)], map2 = [(1, 1)]\<rparr>)"
    by (simp add: mm_insert_def mm_insert_at_def mm_new_def hm_contains_key_def hm_put_def
        fresh_addr_def deref_def)
  from mm_insert_get [OF mm_new_wf this] show ?thesis by blast
qed

text \<open>
  Removing by the one key or by the other is the same operation: both return the item's
  value, leave the same map, and afterwards neither key finds anything.
\<close>

theorem mm_remove_agree:
  assumes "mm_wf m" and "(k1, k2, v) \<in> mm_abs m"
  shows "mm_remove1 m k1 = mm_remove2 m k2 \<and>
    (\<exists>m'. mm_remove1 m k1 = Inr (Some v, m') \<and> mm_get1 m' k1 = Inr None \<and> mm_get2 m' k2 = Inr None)"
proof -
  obtain a where a: "heap m a = Some (k1, k2, v)"
    using assms(2) by (auto simp: mm_abs_def ran_def)
  have rem: "mm_remove1 m k1 = Inr (Some v, without a m)" "mm_remove2 m k2 = Inr (Some v, without a m)"
    using mm_remove1_at [OF assms(1) a] mm_remove2_at [OF assms(1) a]
    by (simp_all add: key1_def key2_def val_of_def)
  have wf': "mm_wf (without a m)"
    using assms(1) by (rule without_wf)
  have abs': "mm_abs (without a m) = mm_abs m - {(k1, k2, v)}"
    using assms(1) a by (rule without_abs)
  have "(k1, b, w) \<notin> mm_abs (without a m)" for b w
    unfolding abs' using mm.unique1 [OF assms, of b w] by blast
  moreover have "(b, k2, w) \<notin> mm_abs (without a m)" for b w
    unfolding abs' using mm.unique2 [OF assms, of b w] by blast
  ultimately have "mm_get1 (without a m) k1 = Inr None" "mm_get2 (without a m) k2 = Inr None"
    by (simp_all add: mm.get1_missing [OF wf'] mm.get2_missing [OF wf'])
  with rem show ?thesis by simp
qed

theorem mm_remove_agree_witness:
  "mm_remove1 \<lparr>heap = [1 \<mapsto> (1::nat, 2::nat, 3::nat)], map1 = [(1, 1)], map2 = [(1, 1)]\<rparr> 1 =
   mm_remove2 \<lparr>heap = [1 \<mapsto> (1, 2, 3)], map1 = [(1, 1)], map2 = [(1, 1)]\<rparr> 2"
proof -
  let ?m = "\<lparr>heap = [1 \<mapsto> (1::nat, 2::nat, 3::nat)], map1 = [(1, 1)], map2 = [(1, 1)]\<rparr>"
  have "mm_wf ?m" by (simp add: mm_wf_def keyed_def)
  moreover have "(1, 2, 3) \<in> mm_abs ?m" by (simp add: mm_abs_def)
  ultimately show ?thesis using mm_remove_agree [of ?m 1 2 3] by simp
qed

end
