(* ===== verification/Conn.thy ===== *)
theory Conn
  imports Prelude
begin

text \<open>
  Connections and the computations on them.

  The code reads and writes byte streams through \<^verbatim>\<open>AsyncRead\<close> and \<^verbatim>\<open>AsyncWrite\<close>. A connection
  is modelled by the bytes that its peer sends before it closes its side (\<open>rx\<close>), the bytes
  written so far (\<open>tx\<close>), and the number of further write and flush calls that will succeed
  before the connection breaks (\<open>wr_left\<close>), so that a failure can strike at every write.

  A fallible computation with state is a function from the state to the new state and a
  result; the state survives an error, as it does when \<^verbatim>\<open>?\<close> leaves a function. \<open>sbind\<close> is
  the sequencing of such computations.
\<close>

section \<open>Stateful computations that can fail\<close>

type_synonym ('s, 'e, 'a) sm = "'s \<Rightarrow> 's \<times> ('e + 'a)"

definition sret :: "'a \<Rightarrow> ('s, 'e, 'a) sm" where
  "sret x s = (s, Inr x)"

definition sfail :: "'e \<Rightarrow> ('s, 'e, 'a) sm" where
  "sfail e s = (s, Inl e)"

definition sbind :: "('s, 'e, 'a) sm \<Rightarrow> ('a \<Rightarrow> ('s, 'e, 'b) sm) \<Rightarrow> ('s, 'e, 'b) sm" where
  "sbind m f s = (case m s of (s', r) \<Rightarrow> (case r of Inl e \<Rightarrow> (s', Inl e) | Inr x \<Rightarrow> f x s'))"

definition slift :: "'e + 'a \<Rightarrow> ('s, 'e, 'a) sm" where
  "slift r s = (s, r)"

definition smap_err :: "('e \<Rightarrow> 'f) \<Rightarrow> ('s, 'e, 'a) sm \<Rightarrow> ('s, 'f, 'a) sm" where
  "smap_err f m s = (case m s of (s', r) \<Rightarrow> (s', map_err f r))"

fun smap :: "('a \<Rightarrow> ('s, 'e, unit) sm) \<Rightarrow> 'a list \<Rightarrow> ('s, 'e, unit) sm" where
  "smap f [] = sret ()"
| "smap f (x # xs) = sbind (f x) (\<lambda>_. smap f xs)"

lemmas sm_defs = sret_def sfail_def slift_def smap_err_def

lemma sbind_Inr_iff [result_iff]:
  "sbind m f s = (t, Inr y) \<longleftrightarrow> (\<exists>s' x. m s = (s', Inr x) \<and> f x s' = (t, Inr y))"
  by (auto simp: sbind_def split: prod.splits sum.splits)

lemma sbind_Inl_iff:
  "sbind m f s = (t, Inl e) \<longleftrightarrow> m s = (t, Inl e) \<or> (\<exists>s' x. m s = (s', Inr x) \<and> f x s' = (t, Inl e))"
  by (auto simp: sbind_def split: prod.splits sum.splits)

lemma sbind_run: "m s = (s', Inr x) \<Longrightarrow> sbind m f s = f x s'"
  by (simp add: sbind_def)

lemma sbind_fail: "m s = (s', Inl e) \<Longrightarrow> sbind m f s = (s', Inl e)"
  by (simp add: sbind_def)

section \<open>Connections\<close>

record conn =
  rx :: bytes
  tx :: bytes
  wr_left :: nat

datatype io_error = UnexpectedEof | WriteFailed

text \<open>\<^verbatim>\<open>read_exact\<close> on a buffer of \<open>n\<close> bytes, and \<^verbatim>\<open>read_u8\<close>.\<close>

definition read_exact :: "nat \<Rightarrow> (conn, io_error, bytes) sm" where
  "read_exact n c =
     (if length (rx c) < n then (c\<lparr>rx := []\<rparr>, Inl UnexpectedEof)
      else (c\<lparr>rx := drop n (rx c)\<rparr>, Inr (take n (rx c))))"

definition read_u8 :: "(conn, io_error, byte) sm" where
  "read_u8 = sbind (read_exact 1) (\<lambda>bs. sret (hd bs))"

definition write_all :: "bytes \<Rightarrow> (conn, io_error, unit) sm" where
  "write_all bs c =
     (if wr_left c = 0 then (c, Inl WriteFailed)
      else (c\<lparr>tx := tx c @ bs, wr_left := wr_left c - 1\<rparr>, Inr ()))"

definition flush :: "(conn, io_error, unit) sm" where
  "flush c = (if wr_left c = 0 then (c, Inl WriteFailed) else (c\<lparr>wr_left := wr_left c - 1\<rparr>, Inr ()))"

text \<open>\<^verbatim>\<open>helper::write_and_flush\<close>.\<close>

definition write_and_flush :: "bytes \<Rightarrow> (conn, io_error, unit) sm" where
  "write_and_flush data = sbind (write_all data) (\<lambda>_. flush)"

lemma read_exact_ok: "rx c = bs @ rest \<Longrightarrow> read_exact (length bs) c = (c\<lparr>rx := rest\<rparr>, Inr bs)"
  by (simp add: read_exact_def)

lemma read_exact_Inr_iff:
  "read_exact n c = (c', Inr bs) \<longleftrightarrow>
     n \<le> length (rx c) \<and> bs = take n (rx c) \<and> c' = c\<lparr>rx := drop n (rx c)\<rparr>"
  by (auto simp: read_exact_def)

lemma read_u8_ok: "rx c = b # rest \<Longrightarrow> read_u8 c = (c\<lparr>rx := rest\<rparr>, Inr b)"
  by (simp add: read_u8_def sbind_def read_exact_def sret_def)

lemma write_all_ok:
  "0 < wr_left c \<Longrightarrow> write_all bs c = (c\<lparr>tx := tx c @ bs, wr_left := wr_left c - 1\<rparr>, Inr ())"
  by (simp add: write_all_def)

lemma flush_ok: "0 < wr_left c \<Longrightarrow> flush c = (c\<lparr>wr_left := wr_left c - 1\<rparr>, Inr ())"
  by (simp add: flush_def)

text \<open>
  What writing can do to a connection, in every outcome: the bytes already received stay, and
  the bytes written are appended or not.
\<close>

lemma write_all_rx [simp]: "rx (fst (write_all bs c)) = rx c"
  by (simp add: write_all_def)

lemma flush_rx [simp]: "rx (fst (flush c)) = rx c"
  by (simp add: flush_def)

lemma flush_tx [simp]: "tx (fst (flush c)) = tx c"
  by (simp add: flush_def)

lemma write_all_tx: "tx (fst (write_all bs c)) = (if wr_left c = 0 then tx c else tx c @ bs)"
  by (simp add: write_all_def)

end
