(* ===== verification/Protocol.thy ===== *)
theory Protocol
  imports Conn
begin

text \<open>
  The wire protocol of \<^verbatim>\<open>src/protocol.rs\<close>: the messages of control and data channels, the
  functions that read them from a connection, and the framing of UDP packets.

  Two crates the file calls are parameters: \<open>bincode\<close>, the functions \<^verbatim>\<open>bincode::serialize\<close>
  and \<^verbatim>\<open>bincode::deserialize\<close> at each message type, and the function \<open>sha256\<close> that
  \<^verbatim>\<open>protocol::digest\<close> computes with the \<^verbatim>\<open>sha2\<close> crate. What the code relies on is
  \<open>bincode_ok\<close> (deserialising a serialised value gives it back; the size of a message does
  not depend on its content, because enums are a fixed-width tag and their fields) and
  \<open>sha_ok\<close> (a digest has 32 bytes). \<open>bincode_fixint\<close> is bincode's default layout and shows
  that \<open>bincode_ok\<close> can hold.
\<close>

section \<open>Messages\<close>

definition HASH_WIDTH_IN_BYTES :: nat where
  "HASH_WIDTH_IN_BYTES = 32"

type_synonym digest = bytes
type_synonym nonce = digest
type_synonym session_key = digest

definition CURRENT_PROTO_VERSION :: byte where
  "CURRENT_PROTO_VERSION = 1"

datatype hello =
    ControlChannelHello byte digest
  | DataChannelHello byte digest
  | VisitorHello byte digest

datatype auth = Auth digest

datatype ack = AckOk | ServiceNotExist | AuthFailed | SecretKeyMismatch | ServiceNotReady

fun ack_display :: "ack \<Rightarrow> string" where
  "ack_display AckOk = ''Ok''"
| "ack_display ServiceNotExist = ''Service not exist''"
| "ack_display AuthFailed = ''Incorrect token''"
| "ack_display SecretKeyMismatch = ''Secret key mismatch''"
| "ack_display ServiceNotReady = ''Service not ready''"

datatype control_channel_cmd = CreateDataChannel | HeartBeat

datatype data_channel_cmd =
  StartForwardTcp | StartForwardUdp | StartForwardHttp | StartForwardStcp

text \<open>\<^verbatim>\<open>std::net::SocketAddr\<close>: address, port, and for IPv6 the flow label and the scope.\<close>

datatype socket_addr = V4 "32 word" u16 | V6 "128 word" u16 u32 u32

record udp_header =
  hdr_from :: socket_addr
  hdr_len :: u16

record udp_traffic =
  t_from :: socket_addr
  t_data :: bytes

section \<open>The serialiser\<close>

record 'a codec =
  enc :: "'a \<Rightarrow> bytes"
  dec :: "bytes \<Rightarrow> 'a option"

record bincode =
  hello_codec :: "hello codec"
  auth_codec :: "auth codec"
  ack_codec :: "ack codec"
  c_cmd_codec :: "control_channel_cmd codec"
  d_cmd_codec :: "data_channel_cmd codec"
  udp_header_codec :: "udp_header codec"

definition codec_ok :: "'a codec \<Rightarrow> ('a \<Rightarrow> bool) \<Rightarrow> bool" where
  "codec_ok c P \<longleftrightarrow> (\<forall>x. P x \<longrightarrow> dec c (enc c x) = Some x)"

definition fixed_width :: "'a codec \<Rightarrow> ('a \<Rightarrow> bool) \<Rightarrow> nat \<Rightarrow> bool" where
  "fixed_width c P n \<longleftrightarrow> (\<forall>x. P x \<longrightarrow> length (enc c x) = n)"

fun hello_wf :: "hello \<Rightarrow> bool" where
  "hello_wf (ControlChannelHello v d) = (length d = HASH_WIDTH_IN_BYTES)"
| "hello_wf (DataChannelHello v d) = (length d = HASH_WIDTH_IN_BYTES)"
| "hello_wf (VisitorHello v d) = (length d = HASH_WIDTH_IN_BYTES)"

fun auth_wf :: "auth \<Rightarrow> bool" where
  "auth_wf (Auth d) = (length d = HASH_WIDTH_IN_BYTES)"

text \<open>
  \<^verbatim>\<open>serde\<close> serialises an IPv6 socket address without flow label and scope; the addresses that
  survive the trip have neither.
\<close>

fun plain_addr :: "socket_addr \<Rightarrow> bool" where
  "plain_addr (V4 ip p) = True"
| "plain_addr (V6 ip p flow scope) = (flow = 0 \<and> scope = 0)"

section \<open>Reading messages\<close>

datatype what = WHello | WAuth | WAck | WCmd | WUdpHeader | WUdpData

datatype proto_error =
    Io io_error
  | FailedToRead what
  | FailedToDeserialize what
  | VersionMismatch byte

definition digest :: "(bytes \<Rightarrow> bytes) \<Rightarrow> bytes \<Rightarrow> digest" where
  "digest sha256 data = sha256 data"

definition sha_ok :: "(bytes \<Rightarrow> bytes) \<Rightarrow> bool" where
  "sha_ok sha256 \<longleftrightarrow> (\<forall>data. length (sha256 data) = HASH_WIDTH_IN_BYTES)"

record packet_length =
  len_hello :: nat
  len_ack :: nat
  len_auth :: nat
  len_c_cmd :: nat
  len_d_cmd :: nat

definition packet_len :: "bincode \<Rightarrow> (bytes \<Rightarrow> bytes) \<Rightarrow> packet_length" where
  "packet_len B sha256 =
     (let d = digest sha256 (as_bytes ''default'') in
      \<lparr>len_hello = length (enc (hello_codec B) (ControlChannelHello CURRENT_PROTO_VERSION d)),
       len_ack = length (enc (ack_codec B) AckOk),
       len_auth = length (enc (auth_codec B) (Auth d)),
       len_c_cmd = length (enc (c_cmd_codec B) CreateDataChannel),
       len_d_cmd = length (enc (d_cmd_codec B) StartForwardTcp)\<rparr>)"

text \<open>The common shape of the readers: a buffer of known size, then \<^verbatim>\<open>bincode::deserialize\<close>.\<close>

definition read_packet :: "'a codec \<Rightarrow> nat \<Rightarrow> what \<Rightarrow> (conn, proto_error, 'a) sm" where
  "read_packet C n w =
     sbind (smap_err (\<lambda>_. FailedToRead w) (read_exact n)) (\<lambda>buf.
       slift (ok_or (dec C buf) (FailedToDeserialize w)))"

fun hello_version :: "hello \<Rightarrow> byte" where
  "hello_version (ControlChannelHello v _) = v"
| "hello_version (DataChannelHello v _) = v"
| "hello_version (VisitorHello v _) = v"

definition read_hello :: "bincode \<Rightarrow> (bytes \<Rightarrow> bytes) \<Rightarrow> (conn, proto_error, hello) sm" where
  "read_hello B sha256 =
     sbind (read_packet (hello_codec B) (len_hello (packet_len B sha256)) WHello) (\<lambda>h.
       case h of
         ControlChannelHello v _ \<Rightarrow>
           if v \<noteq> CURRENT_PROTO_VERSION then sfail (VersionMismatch v) else sret h
       | DataChannelHello v _ \<Rightarrow>
           if v \<noteq> CURRENT_PROTO_VERSION then sfail (VersionMismatch v) else sret h
       | VisitorHello v _ \<Rightarrow>
           if v \<noteq> CURRENT_PROTO_VERSION then sfail (VersionMismatch v) else sret h)"

definition read_auth :: "bincode \<Rightarrow> (bytes \<Rightarrow> bytes) \<Rightarrow> (conn, proto_error, auth) sm" where
  "read_auth B sha256 = read_packet (auth_codec B) (len_auth (packet_len B sha256)) WAuth"

definition read_ack :: "bincode \<Rightarrow> (bytes \<Rightarrow> bytes) \<Rightarrow> (conn, proto_error, ack) sm" where
  "read_ack B sha256 = read_packet (ack_codec B) (len_ack (packet_len B sha256)) WAck"

definition read_control_cmd :: "bincode \<Rightarrow> (bytes \<Rightarrow> bytes) \<Rightarrow>
    (conn, proto_error, control_channel_cmd) sm" where
  "read_control_cmd B sha256 = read_packet (c_cmd_codec B) (len_c_cmd (packet_len B sha256)) WCmd"

definition read_data_cmd :: "bincode \<Rightarrow> (bytes \<Rightarrow> bytes) \<Rightarrow>
    (conn, proto_error, data_channel_cmd) sm" where
  "read_data_cmd B sha256 = read_packet (d_cmd_codec B) (len_d_cmd (packet_len B sha256)) WCmd"

section \<open>UDP framing\<close>

text \<open>
  \<^verbatim>\<open>UdpTraffic::write\<close>: one byte with the length of the serialised header, the header, the
  data. Both lengths are casts: \<^verbatim>\<open>self.data.len() as u16\<close> and \<^verbatim>\<open>v.len() as u8\<close> keep the low
  bits.
\<close>

definition udp_write :: "bincode \<Rightarrow> udp_traffic \<Rightarrow> (conn, io_error, unit) sm" where
  "udp_write B t =
     (let hdr = \<lparr>hdr_from = t_from t, hdr_len = of_nat (length (t_data t))\<rparr>;
          v = enc (udp_header_codec B) hdr in
      sbind (write_all [of_nat (length v)]) (\<lambda>_.
      sbind (write_all v) (\<lambda>_.
      sbind (write_all (t_data t)) (\<lambda>_. sret ()))))"

definition udp_write_slice :: "bincode \<Rightarrow> socket_addr \<Rightarrow> bytes \<Rightarrow> (conn, io_error, unit) sm" where
  "udp_write_slice B frm dat =
     (let hdr = \<lparr>hdr_from = frm, hdr_len = of_nat (length dat)\<rparr>;
          v = enc (udp_header_codec B) hdr in
      sbind (write_all [of_nat (length v)]) (\<lambda>_.
      sbind (write_all v) (\<lambda>_.
      sbind (write_all dat) (\<lambda>_. sret ()))))"

definition udp_read :: "bincode \<Rightarrow> byte \<Rightarrow> (conn, proto_error, udp_traffic) sm" where
  "udp_read B hlen =
     sbind (smap_err (\<lambda>_. FailedToRead WUdpHeader) (read_exact (unat hlen))) (\<lambda>buf.
     sbind (slift (ok_or (dec (udp_header_codec B) buf) (FailedToDeserialize WUdpHeader))) (\<lambda>hdr.
     sbind (smap_err Io (read_exact (unat (hdr_len hdr)))) (\<lambda>dat.
       sret \<lparr>t_from = hdr_from hdr, t_data = dat\<rparr>)))"

text \<open>Both users read the length byte and then the packet.\<close>

definition udp_recv :: "bincode \<Rightarrow> (conn, proto_error, udp_traffic) sm" where
  "udp_recv B = sbind (smap_err Io read_u8) (\<lambda>hlen. udp_read B hlen)"

fun udp_recv_n :: "bincode \<Rightarrow> nat \<Rightarrow> (conn, proto_error, udp_traffic list) sm" where
  "udp_recv_n B 0 = sret []"
| "udp_recv_n B (Suc n) = sbind (udp_recv B) (\<lambda>t. sbind (udp_recv_n B n) (\<lambda>ts. sret (t # ts)))"

section \<open>What the code relies on of the serialiser\<close>

fun udp_header_wf :: "udp_header \<Rightarrow> bool" where
  "udp_header_wf h = plain_addr (hdr_from h)"

definition bincode_ok :: "bincode \<Rightarrow> bool" where
  "bincode_ok B \<longleftrightarrow>
     codec_ok (hello_codec B) hello_wf \<and> (\<exists>n. fixed_width (hello_codec B) hello_wf n) \<and>
     codec_ok (auth_codec B) auth_wf \<and> (\<exists>n. fixed_width (auth_codec B) auth_wf n) \<and>
     codec_ok (ack_codec B) (\<lambda>_. True) \<and> (\<exists>n. fixed_width (ack_codec B) (\<lambda>_. True) n) \<and>
     codec_ok (c_cmd_codec B) (\<lambda>_. True) \<and> (\<exists>n. fixed_width (c_cmd_codec B) (\<lambda>_. True) n) \<and>
     codec_ok (d_cmd_codec B) (\<lambda>_. True) \<and> (\<exists>n. fixed_width (d_cmd_codec B) (\<lambda>_. True) n) \<and>
     codec_ok (udp_header_codec B) udp_header_wf \<and>
     (\<forall>h. udp_header_wf h \<longrightarrow> length (enc (udp_header_codec B) h) < 256)"

text \<open>
  The default layout of bincode 1.3: an enum is its variant's index as a little-endian
  32-bit integer and then its fields, a byte array is its bytes, a 16-bit integer two
  little-endian bytes, an IP address its octets.
\<close>

definition dec_tagged :: "nat \<Rightarrow> (nat \<Rightarrow> bytes \<Rightarrow> 'a option) \<Rightarrow> bytes \<Rightarrow> 'a option" where
  "dec_tagged n f bs = (if length bs < 4 + n then None else f (nat_of_le (take 4 bs)) (drop 4 bs))"

fun enc_hello :: "hello \<Rightarrow> bytes" where
  "enc_hello (ControlChannelHello v d) = le_of_nat 4 0 @ v # d"
| "enc_hello (DataChannelHello v d) = le_of_nat 4 1 @ v # d"
| "enc_hello (VisitorHello v d) = le_of_nat 4 2 @ v # d"

definition dec_hello :: "bytes \<Rightarrow> hello option" where
  "dec_hello = dec_tagged 33 (\<lambda>t bs. let v = bs ! 0; d = take 32 (drop 1 bs) in
     if t = 0 then Some (ControlChannelHello v d) else if t = 1 then Some (DataChannelHello v d)
     else if t = 2 then Some (VisitorHello v d) else None)"

fun enc_auth :: "auth \<Rightarrow> bytes" where
  "enc_auth (Auth d) = d"

definition dec_auth :: "bytes \<Rightarrow> auth option" where
  "dec_auth bs = (if length bs < 32 then None else Some (Auth (take 32 bs)))"

definition enc_enum :: "'a list \<Rightarrow> 'a \<Rightarrow> bytes" where
  "enc_enum vs v = le_of_nat 4 (length (takeWhile (\<lambda>x. x \<noteq> v) vs))"

definition dec_enum :: "'a list \<Rightarrow> bytes \<Rightarrow> 'a option" where
  "dec_enum vs = dec_tagged 0 (\<lambda>t _. if t < length vs then Some (vs ! t) else None)"

fun enc_udp_header :: "udp_header \<Rightarrow> bytes" where
  "enc_udp_header h = (case hdr_from h of
       V4 ip p \<Rightarrow> le_of_nat 4 0 @ be_of_nat 4 (unat ip) @ le_of_nat 2 (unat p)
     | V6 ip p _ _ \<Rightarrow> le_of_nat 4 1 @ be_of_nat 16 (unat ip) @ le_of_nat 2 (unat p))
     @ le_of_nat 2 (unat (hdr_len h))"

definition dec_udp_header :: "bytes \<Rightarrow> udp_header option" where
  "dec_udp_header = dec_tagged 8 (\<lambda>t bs.
     if t = 0 then Some \<lparr>hdr_from = V4 (of_nat (nat_of_be (take 4 bs))) (of_nat (nat_of_le (take 2 (drop 4 bs)))),
       hdr_len = of_nat (nat_of_le (take 2 (drop 6 bs)))\<rparr>
     else if t = 1 \<and> 20 \<le> length bs then
       Some \<lparr>hdr_from = V6 (of_nat (nat_of_be (take 16 bs))) (of_nat (nat_of_le (take 2 (drop 16 bs)))) 0 0,
       hdr_len = of_nat (nat_of_le (take 2 (drop 18 bs)))\<rparr>
     else None)"

definition bincode_fixint :: bincode where
  "bincode_fixint = \<lparr>hello_codec = \<lparr>enc = enc_hello, dec = dec_hello\<rparr>,
     auth_codec = \<lparr>enc = enc_auth, dec = dec_auth\<rparr>,
     ack_codec = (let vs = [AckOk, ServiceNotExist, AuthFailed, SecretKeyMismatch, ServiceNotReady] in
       \<lparr>enc = enc_enum vs, dec = dec_enum vs\<rparr>),
     c_cmd_codec = (let vs = [CreateDataChannel, HeartBeat] in \<lparr>enc = enc_enum vs, dec = dec_enum vs\<rparr>),
     d_cmd_codec = (let vs = [StartForwardTcp, StartForwardUdp, StartForwardHttp, StartForwardStcp] in
       \<lparr>enc = enc_enum vs, dec = dec_enum vs\<rparr>),
     udp_header_codec = \<lparr>enc = enc_udp_header, dec = dec_udp_header\<rparr>\<rparr>"

lemma take_le4 [simp]: "take 4 (le_of_nat 4 t @ xs) = le_of_nat 4 t" "drop 4 (le_of_nat 4 t @ xs) = xs"
  using length_le_of_nat [of 4 t] by (metis append_eq_conv_conj)+

lemma dec_tagged_enc:
  "t < 256 ^ 4 \<Longrightarrow> n \<le> length xs \<Longrightarrow> dec_tagged n f (le_of_nat 4 t @ xs) = f t xs"
  by (simp add: dec_tagged_def nat_of_le_of_nat)

lemma dec_enc_hello: "hello_wf h \<Longrightarrow> dec_hello (enc_hello h) = Some h"
  by (cases h) (simp_all add: dec_hello_def dec_tagged_enc HASH_WIDTH_IN_BYTES_def)

lemma dec_enc_auth: "auth_wf a \<Longrightarrow> dec_auth (enc_auth a) = Some a"
  by (cases a) (simp add: dec_auth_def HASH_WIDTH_IN_BYTES_def)

lemma takeWhile_neq_nth:
  "v \<in> set vs \<Longrightarrow> length (takeWhile (\<lambda>x. x \<noteq> v) vs) < length vs \<and>
     vs ! length (takeWhile (\<lambda>x. x \<noteq> v) vs) = v"
  by (induction vs) auto

lemma dec_enc_enum:
  assumes "v \<in> set vs" and "length vs < 256 ^ 4"
  shows "dec_enum vs (enc_enum vs v) = Some v"
proof -
  let ?i = "length (takeWhile (\<lambda>x. x \<noteq> v) vs)"
  have "?i < length vs" and "vs ! ?i = v"
    using takeWhile_neq_nth [OF assms(1)] by simp_all
  then show ?thesis
    using assms(2) by (simp add: dec_enum_def enc_enum_def dec_tagged_enc [of _ 0 "[]", simplified])
qed

lemma dec_enc_udp_header: "udp_header_wf h \<Longrightarrow> dec_udp_header (enc_udp_header h) = Some h"
proof (cases "hdr_from h")
  case (V4 ip p)
  have "unat ip < 256 ^ 4" "unat p < 256 ^ 2" "unat (hdr_len h) < 256 ^ 2"
    using unsigned_less [of ip, where 'a = nat] unsigned_less [of p, where 'a = nat]
      unsigned_less [of "hdr_len h", where 'a = nat] by simp_all
  then have "dec_udp_header (enc_udp_header h) = Some \<lparr>hdr_from = hdr_from h, hdr_len = hdr_len h\<rparr>"
    by (simp add: V4 dec_udp_header_def dec_tagged_enc nat_of_be_of_nat nat_of_le_of_nat)
  then show ?thesis by simp
next
  case (V6 ip p fl sc)
  assume "udp_header_wf h"
  moreover have "unat ip < 256 ^ 16" "unat p < 256 ^ 2" "unat (hdr_len h) < 256 ^ 2"
    using unsigned_less [of ip, where 'a = nat] unsigned_less [of p, where 'a = nat]
      unsigned_less [of "hdr_len h", where 'a = nat] by simp_all
  ultimately have "dec_udp_header (enc_udp_header h) = Some \<lparr>hdr_from = hdr_from h, hdr_len = hdr_len h\<rparr>"
    by (simp add: V6 dec_udp_header_def dec_tagged_enc nat_of_be_of_nat nat_of_le_of_nat)
  then show ?thesis by simp
qed

lemma bincode_fixint_ok: "bincode_ok bincode_fixint"
proof -
  have hello: "length (enc_hello h) = 37" if "hello_wf h" for h
    using that by (cases h) (simp_all add: HASH_WIDTH_IN_BYTES_def)
  have auth: "length (enc_auth a) = 32" if "auth_wf a" for a
    using that by (cases a) (simp add: HASH_WIDTH_IN_BYTES_def)
  have hdr: "length (enc_udp_header h) < 256" for h
    by (cases "hdr_from h") simp_all
  have ack: "v \<in> set [AckOk, ServiceNotExist, AuthFailed, SecretKeyMismatch, ServiceNotReady]" for v
    by (cases v) simp_all
  have ccmd: "v \<in> set [CreateDataChannel, HeartBeat]" for v
    by (cases v) simp_all
  have dcmd: "v \<in> set [StartForwardTcp, StartForwardUdp, StartForwardHttp, StartForwardStcp]" for v
    by (cases v) simp_all
  show ?thesis
    using dec_enc_enum [OF ack] dec_enc_enum [OF ccmd] dec_enc_enum [OF dcmd] hello auth hdr
    by (auto simp: bincode_ok_def bincode_fixint_def codec_ok_def fixed_width_def dec_enc_hello
        dec_enc_auth dec_enc_udp_header enc_enum_def Let_def simp del: enc_udp_header.simps set_simps)
qed

section \<open>Reading back what was written\<close>

lemma read_packet_ok:
  assumes "rx c = enc C x @ rest" and "n = length (enc C x)" and "dec C (enc C x) = Some x"
  shows "read_packet C n w c = (c\<lparr>rx := rest\<rparr>, Inr x)"
  using assms by (simp add: read_packet_def sbind_def smap_err_def read_exact_ok slift_def)

lemma read_packet_Inr_iff:
  "read_packet C n w c = (c', Inr x) \<longleftrightarrow>
     n \<le> length (rx c) \<and> dec C (take n (rx c)) = Some x \<and> c' = c\<lparr>rx := drop n (rx c)\<rparr>"
  by (auto simp: read_packet_def sbind_def smap_err_def slift_def read_exact_def result_iff
      split: sum.splits prod.splits)

lemma read_packet_tx:
  "tx (fst (read_packet C n w c)) = tx c" "wr_left (fst (read_packet C n w c)) = wr_left c"
  by (auto simp: read_packet_def sbind_def smap_err_def slift_def read_exact_def
      split: sum.splits prod.splits)

lemma digest_length: "sha_ok sha256 \<Longrightarrow> length (digest sha256 x) = HASH_WIDTH_IN_BYTES"
  by (simp add: digest_def sha_ok_def)

lemma hello_len:
  assumes "bincode_ok B" and "sha_ok sha256" and "hello_wf h"
  shows "length (enc (hello_codec B) h) = len_hello (packet_len B sha256)"
    and "dec (hello_codec B) (enc (hello_codec B) h) = Some h"
  using assms by (auto simp: bincode_ok_def fixed_width_def codec_ok_def packet_len_def Let_def digest_length)

lemma auth_len:
  assumes "bincode_ok B" and "sha_ok sha256" and "auth_wf a"
  shows "length (enc (auth_codec B) a) = len_auth (packet_len B sha256)"
    and "dec (auth_codec B) (enc (auth_codec B) a) = Some a"
  using assms by (auto simp: bincode_ok_def fixed_width_def codec_ok_def packet_len_def Let_def digest_length)

lemma ack_len:
  assumes "bincode_ok B"
  shows "length (enc (ack_codec B) a) = len_ack (packet_len B sha256)"
    and "dec (ack_codec B) (enc (ack_codec B) a) = Some a"
  using assms by (auto simp: bincode_ok_def fixed_width_def codec_ok_def packet_len_def Let_def)

lemma c_cmd_len:
  assumes "bincode_ok B"
  shows "length (enc (c_cmd_codec B) a) = len_c_cmd (packet_len B sha256)"
    and "dec (c_cmd_codec B) (enc (c_cmd_codec B) a) = Some a"
  using assms by (auto simp: bincode_ok_def fixed_width_def codec_ok_def packet_len_def Let_def)

lemma d_cmd_len:
  assumes "bincode_ok B"
  shows "length (enc (d_cmd_codec B) a) = len_d_cmd (packet_len B sha256)"
    and "dec (d_cmd_codec B) (enc (d_cmd_codec B) a) = Some a"
  using assms by (auto simp: bincode_ok_def fixed_width_def codec_ok_def packet_len_def Let_def)

lemma read_auth_ok:
  assumes "bincode_ok B" and "sha_ok sha256" and "auth_wf a" and "rx c = enc (auth_codec B) a @ rest"
  shows "read_auth B sha256 c = (c\<lparr>rx := rest\<rparr>, Inr a)"
  unfolding read_auth_def
  by (rule read_packet_ok [OF assms(4) auth_len(1) [OF assms(1-3), symmetric] auth_len(2) [OF assms(1-3)]])

lemma read_ack_ok:
  assumes "bincode_ok B" and "rx c = enc (ack_codec B) a @ rest"
  shows "read_ack B sha256 c = (c\<lparr>rx := rest\<rparr>, Inr a)"
  unfolding read_ack_def
  by (rule read_packet_ok [OF assms(2) ack_len(1) [OF assms(1), symmetric] ack_len(2) [OF assms(1)]])

lemma read_control_cmd_ok:
  assumes "bincode_ok B" and "rx c = enc (c_cmd_codec B) a @ rest"
  shows "read_control_cmd B sha256 c = (c\<lparr>rx := rest\<rparr>, Inr a)"
  unfolding read_control_cmd_def
  by (rule read_packet_ok [OF assms(2) c_cmd_len(1) [OF assms(1), symmetric] c_cmd_len(2) [OF assms(1)]])

lemma read_data_cmd_ok:
  assumes "bincode_ok B" and "rx c = enc (d_cmd_codec B) a @ rest"
  shows "read_data_cmd B sha256 c = (c\<lparr>rx := rest\<rparr>, Inr a)"
  unfolding read_data_cmd_def
  by (rule read_packet_ok [OF assms(2) d_cmd_len(1) [OF assms(1), symmetric] d_cmd_len(2) [OF assms(1)]])

lemma read_hello_eq:
  "read_hello B sha256 =
     sbind (read_packet (hello_codec B) (len_hello (packet_len B sha256)) WHello) (\<lambda>h.
       if hello_version h \<noteq> CURRENT_PROTO_VERSION then sfail (VersionMismatch (hello_version h))
       else sret h)"
  unfolding read_hello_def by (rule arg_cong [where f = "sbind _"]) (auto simp: fun_eq_iff split: hello.splits)

lemma read_hello_tx:
  "tx (fst (read_hello B sha256 c)) = tx c" "wr_left (fst (read_hello B sha256 c)) = wr_left c"
  using read_packet_tx [of "hello_codec B" "len_hello (packet_len B sha256)" WHello c]
  by (auto simp: read_hello_eq sbind_def sm_defs split: sum.splits prod.splits)

text \<open>
  C29. A hello that is sent is read as it was sent when it carries the current protocol version,
  and refused with the version it carries otherwise; either way exactly its bytes are consumed.
\<close>

theorem read_hello_roundtrip:
  assumes "bincode_ok B" and "sha_ok sha256" and "hello_wf h"
    and "rx c = enc (hello_codec B) h @ rest"
  shows "read_hello B sha256 c = (c\<lparr>rx := rest\<rparr>,
    if hello_version h = CURRENT_PROTO_VERSION then Inr h else Inl (VersionMismatch (hello_version h)))"
  using read_packet_ok [OF assms(4) hello_len(1) [OF assms(1-3), symmetric] hello_len(2) [OF assms(1-3)]]
  by (simp add: read_hello_eq sbind_def sm_defs)

lemma sha_ok_const: "sha_ok (\<lambda>_. replicate 32 0)"
  by (simp add: sha_ok_def HASH_WIDTH_IN_BYTES_def)

theorem read_hello_roundtrip_witness:
  "read_hello bincode_fixint (\<lambda>_. replicate 32 0)
     \<lparr>rx = enc_hello (VisitorHello 0 (replicate 32 7)) @ [9], tx = [], wr_left = 0\<rparr> =
   (\<lparr>rx = [9], tx = [], wr_left = 0\<rparr>, Inl (VersionMismatch 0))"
  using read_hello_roundtrip [OF bincode_fixint_ok sha_ok_const,
      of "VisitorHello 0 (replicate 32 7)" "\<lparr>rx = _, tx = [], wr_left = 0\<rparr>" "[9]"]
  by (simp add: bincode_fixint_def HASH_WIDTH_IN_BYTES_def CURRENT_PROTO_VERSION_def)

section \<open>UDP packets over a stream\<close>

definition udp_frame :: "bincode \<Rightarrow> udp_traffic \<Rightarrow> bytes" where
  "udp_frame B t =
     (let v = enc (udp_header_codec B) \<lparr>hdr_from = t_from t, hdr_len = of_nat (length (t_data t))\<rparr> in
      of_nat (length v) # v @ t_data t)"

lemma udp_write_ok:
  "3 \<le> wr_left c \<Longrightarrow>
   udp_write B t c = (c\<lparr>tx := tx c @ udp_frame B t, wr_left := wr_left c - 3\<rparr>, Inr ())"
  by (simp add: udp_write_def udp_frame_def Let_def sbind_def write_all_def sret_def)

lemma udp_write_slice_eq: "udp_write_slice B frm dat = udp_write B \<lparr>t_from = frm, t_data = dat\<rparr>"
  by (simp add: udp_write_slice_def udp_write_def)

lemma udp_recv_frame:
  assumes B: "bincode_ok B" and addr: "plain_addr (t_from t)" and rx: "rx d = udp_frame B t @ rest"
  defines "n \<equiv> length (t_data t) mod 2 ^ 16"
  shows "udp_recv B d = (d\<lparr>rx := drop n (t_data t) @ rest\<rparr>,
    Inr \<lparr>t_from = t_from t, t_data = take n (t_data t)\<rparr>)"
proof -
  let ?h = "\<lparr>hdr_from = t_from t, hdr_len = of_nat (length (t_data t)) :: u16\<rparr>"
  let ?v = "enc (udp_header_codec B) ?h"
  have wf: "udp_header_wf ?h" using addr by simp
  have dec: "dec (udp_header_codec B) ?v = Some ?h"
    using B wf unfolding bincode_ok_def codec_ok_def by blast
  have "length ?v < 256" using B wf unfolding bincode_ok_def by blast
  then have len: "unat (of_nat (length ?v) :: byte) = length ?v"
    by (simp add: unat_of_nat_byte)
  have n: "unat (hdr_len ?h) = n"
    by (simp add: n_def unsigned_of_nat take_bit_eq_mod)
  have "read_u8 d = (d\<lparr>rx := ?v @ t_data t @ rest\<rparr>, Inr (of_nat (length ?v)))"
    using rx by (simp add: udp_frame_def Let_def read_u8_ok)
  moreover have "n \<le> length (t_data t)"
    by (simp add: n_def)
  ultimately show ?thesis
    using dec len n
    by (simp add: udp_recv_def udp_read_def sbind_def sm_defs read_exact_def)
qed

lemma smap_udp_write:
  "3 * length ts \<le> wr_left c \<Longrightarrow> smap (udp_write B) ts c =
     (c\<lparr>tx := tx c @ concat (map (udp_frame B) ts), wr_left := wr_left c - 3 * length ts\<rparr>, Inr ())"
  by (induction ts arbitrary: c) (simp_all add: sret_def sbind_run [OF udp_write_ok] algebra_simps)

lemma udp_recv_n_frames:
  assumes "bincode_ok B" and "\<forall>t \<in> set ts. plain_addr (t_from t) \<and> length (t_data t) < 2 ^ 16"
    and "rx d = concat (map (udp_frame B) ts) @ rest"
  shows "udp_recv_n B (length ts) d = (d\<lparr>rx := rest\<rparr>, Inr ts)"
  using assms(2,3)
proof (induction ts arbitrary: d)
  case Nil
  then show ?case by (simp add: sret_def)
next
  case (Cons t ts)
  let ?rest = "concat (map (udp_frame B) ts) @ rest"
  have "udp_recv B d = (d\<lparr>rx := ?rest\<rparr>, Inr t)"
    using udp_recv_frame [OF assms(1), of t d ?rest] Cons.prems by simp
  moreover have "udp_recv_n B (length ts) (d\<lparr>rx := ?rest\<rparr>) = (d\<lparr>rx := rest\<rparr>, Inr ts)"
    using Cons.IH [of "d\<lparr>rx := ?rest\<rparr>"] Cons.prems by simp
  ultimately show ?case by (simp add: sbind_def sret_def)
qed



text \<open>
  A longer packet is cut: its header announces its length modulo 65536, the reader returns
  that many of its bytes, and the rest of the packet stays in the stream, where the next length
  byte is expected.
\<close>

theorem udp_overlong_desync:
  assumes "bincode_ok B" and "plain_addr (t_from t)" and "tx c = []" and "3 \<le> wr_left c"
    and "rx d = tx (fst (udp_write B t c)) @ rest" and "length (t_data t) = 2 ^ 16 + k" and "k < 2 ^ 16"
  shows "udp_recv B d = (d\<lparr>rx := drop k (t_data t) @ rest\<rparr>,
    Inr \<lparr>t_from = t_from t, t_data = take k (t_data t)\<rparr>)"
proof -
  have "rx d = udp_frame B t @ rest"
    using assms(3-5) by (simp add: udp_write_ok)
  moreover have "length (t_data t) mod 2 ^ 16 = k"
    using assms(6,7) by simp
  ultimately show ?thesis
    using udp_recv_frame [OF assms(1,2)] by simp
qed

theorem udp_overlong_desync_witness:
  "let t = \<lparr>t_from = V4 1 80, t_data = replicate 65537 7\<rparr>;
       d = \<lparr>rx = tx (fst (udp_write bincode_fixint t \<lparr>rx = [], tx = [], wr_left = 3\<rparr>)) @ [], tx = [], wr_left = 0\<rparr>
   in snd (udp_recv bincode_fixint d) = Inr \<lparr>t_from = V4 1 80, t_data = take 1 (replicate 65537 7)\<rparr>"
  using udp_overlong_desync [OF bincode_fixint_ok, of "\<lparr>t_from = V4 1 80, t_data = replicate 65537 7\<rparr>"
      "\<lparr>rx = [], tx = [], wr_left = 3\<rparr>" "\<lparr>rx = _, tx = [], wr_left = 0\<rparr>" "[]" 1]
  by (simp add: Let_def del: take_replicate)

end
