(* ===== verification/Rust_Str.thy ===== *)
theory Rust_Str
  imports Prelude
begin

text \<open>
  The string functions of Rust's standard library that chagle uses, on UTF-8 encoded strings:
  ASCII case folding, trimming and splitting, prefixes and suffixes, decimal parsing and
  printing, UTF-8 validation.
\<close>

section \<open>Prefixes, suffixes, splitting\<close>

definition starts_with :: "string \<Rightarrow> string \<Rightarrow> bool" where
  "starts_with s p \<longleftrightarrow> take (length p) s = p"

definition strip_prefix :: "string \<Rightarrow> string \<Rightarrow> string option" where
  "strip_prefix s p = (if starts_with s p then Some (drop (length p) s) else None)"

definition strip_suffix :: "string \<Rightarrow> string \<Rightarrow> string option" where
  "strip_suffix s p =
     (if length p \<le> length s \<and> drop (length s - length p) s = p
      then Some (take (length s - length p) s) else None)"

text \<open>\<^verbatim>\<open>s.split(c).next()\<close> and \<^verbatim>\<open>s.rsplit(c).next()\<close>, which always yield a piece.\<close>

definition split_first :: "char \<Rightarrow> string \<Rightarrow> string" where
  "split_first c s = takeWhile (\<lambda>x. x \<noteq> c) s"

definition rsplit_first :: "char \<Rightarrow> string \<Rightarrow> string" where
  "rsplit_first c s = rev (takeWhile (\<lambda>x. x \<noteq> c) (rev s))"

lemma strip_suffix_append [simp]: "strip_suffix (s @ p) p = Some s"
  by (simp add: strip_suffix_def)

lemma strip_suffix_Some_iff: "strip_suffix s p = Some r \<longleftrightarrow> s = r @ p"
proof
  assume "strip_suffix s p = Some r"
  then have "length p \<le> length s" "drop (length s - length p) s = p" "r = take (length s - length p) s"
    by (auto simp: strip_suffix_def split: if_splits)
  then show "s = r @ p"
    by (metis append_take_drop_id)
qed simp

lemma starts_with_append [simp]: "starts_with (p @ s) p"
  by (simp add: starts_with_def)

lemma starts_with_iff: "starts_with s p \<longleftrightarrow> (\<exists>r. s = p @ r)"
  by (metis append_take_drop_id starts_with_append starts_with_def)

lemma strip_prefix_Some_iff: "strip_prefix s p = Some r \<longleftrightarrow> s = p @ r"
  by (auto simp: strip_prefix_def starts_with_def) (metis append_take_drop_id)

lemma starts_with_length: "starts_with s p \<Longrightarrow> length p \<le> length s"
  by (auto simp: starts_with_iff)

lemma split_first_append: "c \<notin> set a \<Longrightarrow> split_first c (a @ c # b) = a"
  unfolding split_first_def by (induction a) auto

lemma split_first_no_sep: "c \<notin> set a \<Longrightarrow> split_first c a = a"
  unfolding split_first_def by (induction a) auto

lemma rsplit_first_append: "c \<notin> set b \<Longrightarrow> rsplit_first c (a @ c # b) = b"
  using split_first_append [of c "rev b" "rev a"] by (simp add: rsplit_first_def split_first_def)

section \<open>Case folding\<close>

definition to_ascii_lowercase :: "char \<Rightarrow> char" where
  "to_ascii_lowercase c =
     (if 65 \<le> (of_char c :: nat) \<and> (of_char c :: nat) \<le> 90 then char_of ((of_char c :: nat) + 32) else c)"

definition eq_ignore_ascii_case :: "string \<Rightarrow> string \<Rightarrow> bool" where
  "eq_ignore_ascii_case a b \<longleftrightarrow> map to_ascii_lowercase a = map to_ascii_lowercase b"

lemma eq_ignore_ascii_case_refl [simp]: "eq_ignore_ascii_case a a"
  by (simp add: eq_ignore_ascii_case_def)

lemma eq_ignore_ascii_case_sym: "eq_ignore_ascii_case a b \<longleftrightarrow> eq_ignore_ascii_case b a"
  by (auto simp: eq_ignore_ascii_case_def)

lemma eq_ignore_ascii_case_trans:
  "eq_ignore_ascii_case a b \<Longrightarrow> eq_ignore_ascii_case b c \<Longrightarrow> eq_ignore_ascii_case a c"
  by (simp add: eq_ignore_ascii_case_def)

section \<open>White space\<close>

text \<open>The UTF-8 encodings of the characters with the Unicode property \<^verbatim>\<open>White_Space\<close>.\<close>

definition white_space :: "string list" where
  "white_space =
     [[CHR 0x09], [CHR 0x0A], [CHR 0x0B], [CHR 0x0C], [CHR 0x0D], [CHR 0x20],
      [CHR 0xC2, CHR 0x85], [CHR 0xC2, CHR 0xA0], [CHR 0xE1, CHR 0x9A, CHR 0x80],
      [CHR 0xE2, CHR 0x80, CHR 0x80], [CHR 0xE2, CHR 0x80, CHR 0x81], [CHR 0xE2, CHR 0x80, CHR 0x82],
      [CHR 0xE2, CHR 0x80, CHR 0x83], [CHR 0xE2, CHR 0x80, CHR 0x84], [CHR 0xE2, CHR 0x80, CHR 0x85],
      [CHR 0xE2, CHR 0x80, CHR 0x86], [CHR 0xE2, CHR 0x80, CHR 0x87], [CHR 0xE2, CHR 0x80, CHR 0x88],
      [CHR 0xE2, CHR 0x80, CHR 0x89], [CHR 0xE2, CHR 0x80, CHR 0x8A], [CHR 0xE2, CHR 0x80, CHR 0xA8],
      [CHR 0xE2, CHR 0x80, CHR 0xA9], [CHR 0xE2, CHR 0x80, CHR 0xAF], [CHR 0xE2, CHR 0x81, CHR 0x9F],
      [CHR 0xE3, CHR 0x80, CHR 0x80]]"

function strip_leading :: "string list \<Rightarrow> string \<Rightarrow> string" where
  "strip_leading ws s =
     (case find (\<lambda>w. w \<noteq> [] \<and> starts_with s w) ws of
        None \<Rightarrow> s
      | Some w \<Rightarrow> strip_leading ws (drop (length w) s))"
  by pat_completeness auto
termination
proof (relation "measure (\<lambda>(ws, s). length s)")
  fix ws :: "string list" and s w
  assume "find (\<lambda>w. w \<noteq> [] \<and> starts_with s w) ws = Some w"
  then have "w \<noteq> []" and "starts_with s w"
    by (auto simp: find_Some_iff)
  then show "((ws, drop (length w) s), ws, s) \<in> measure (\<lambda>(ws, s). length s)"
    by (cases s; cases w) (auto simp: starts_with_def)
qed simp

declare strip_leading.simps [simp del]

definition trim_start :: "string \<Rightarrow> string" where
  "trim_start s = strip_leading white_space s"

definition trim_end :: "string \<Rightarrow> string" where
  "trim_end s = rev (strip_leading (map rev white_space) (rev s))"

definition trim :: "string \<Rightarrow> string" where
  "trim s = trim_end (trim_start s)"

lemma strip_leading_id: "\<forall>w \<in> set ws. w = [] \<or> \<not> starts_with s w \<Longrightarrow> strip_leading ws s = s"
proof -
  assume "\<forall>w \<in> set ws. w = [] \<or> \<not> starts_with s w"
  then have "find (\<lambda>w. w \<noteq> [] \<and> starts_with s w) ws = None"
    by (auto simp: find_None_iff)
  then show ?thesis
    by (subst strip_leading.simps) simp
qed

lemma strip_leading_Nil: "strip_leading ws [] = []"
  by (rule strip_leading_id) (auto simp: starts_with_def)

text \<open>A string whose first and last bytes are printable ASCII is left alone.\<close>

definition graphic :: "char \<Rightarrow> bool" where
  "graphic c \<longleftrightarrow> 33 \<le> (of_char c :: nat) \<and> (of_char c :: nat) \<le> 126"

lemma white_space_ends:
  "w \<in> set white_space \<Longrightarrow> w \<noteq> [] \<and> \<not> graphic (hd w) \<and> \<not> graphic (last w)"
  by (auto simp: white_space_def graphic_def)

lemma starts_with_hd: "starts_with s w \<Longrightarrow> w \<noteq> [] \<Longrightarrow> s \<noteq> [] \<and> hd s = hd w"
  by (cases s; cases w) (auto simp: starts_with_def)

lemma trim_graphic:
  assumes "s \<noteq> []" and "graphic (hd s)" and "graphic (last s)"
  shows "trim s = s"
proof -
  have "strip_leading white_space s = s"
    using assms white_space_ends starts_with_hd by (intro strip_leading_id) metis
  moreover have "strip_leading (map rev white_space) (rev s) = rev s"
  proof (rule strip_leading_id, rule ballI)
    fix w
    assume "w \<in> set (map rev white_space)"
    then have "rev w \<in> set white_space" by auto
    then have "w \<noteq> []" and "\<not> graphic (hd w)"
      using white_space_ends [of "rev w"] by (auto simp: last_rev)
    then show "w = [] \<or> \<not> starts_with (rev s) w"
      using assms starts_with_hd [of "rev s" w] by (auto simp: hd_rev)
  qed
  ultimately show ?thesis
    by (simp add: trim_def trim_start_def trim_end_def)
qed

section \<open>Decimal numbers\<close>

definition is_ascii_digit :: "char \<Rightarrow> bool" where
  "is_ascii_digit c \<longleftrightarrow> 48 \<le> (of_char c :: nat) \<and> (of_char c :: nat) \<le> 57"

definition digit_val :: "char \<Rightarrow> nat" where
  "digit_val c = of_char c - 48"

definition digits_val :: "string \<Rightarrow> nat" where
  "digits_val s = foldl (\<lambda>n c. 10 * n + digit_val c) 0 s"

text \<open>
  \<^verbatim>\<open>str::parse\<close> at an unsigned type with largest value \<open>hi\<close>: an optional plus sign and at
  least one digit.
\<close>

definition parse_unsigned :: "nat \<Rightarrow> string \<Rightarrow> nat option" where
  "parse_unsigned hi s =
     (let ds = (case s of [] \<Rightarrow> [] | c # r \<Rightarrow> if c = CHR ''+'' then r else s) in
      if ds = [] \<or> \<not> list_all is_ascii_digit ds then None
      else if digits_val ds \<le> hi then Some (digits_val ds) else None)"

definition parse_u16 :: "string \<Rightarrow> u16 option" where
  "parse_u16 s = map_option of_nat (parse_unsigned 65535 s)"

fun show_nat :: "nat \<Rightarrow> string" where
  "show_nat n = (if n < 10 then [char_of (48 + n)] else show_nat (n div 10) @ [char_of (48 + n mod 10)])"

declare show_nat.simps [simp del]

lemma digit_char [simp]:
  "n < 10 \<Longrightarrow> is_ascii_digit (char_of (48 + n))" "n < 10 \<Longrightarrow> digit_val (char_of (48 + n)) = n"
  by (simp_all add: is_ascii_digit_def digit_val_def)

lemma show_nat_digits: "show_nat n \<noteq> [] \<and> list_all is_ascii_digit (show_nat n) \<and> digits_val (show_nat n) = n"
proof (induction n rule: show_nat.induct)
  case (1 n)
  show ?case
  proof (cases "n < 10")
    case True
    then show ?thesis
      by (subst (1 2 3) show_nat.simps) (simp add: digits_val_def)
  next
    case False
    then have "show_nat n = show_nat (n div 10) @ [char_of (48 + n mod 10)]"
      by (subst show_nat.simps) simp
    with "1.IH" False show ?thesis
      by (simp add: digits_val_def)
  qed
qed

lemma digit_not_plus: "is_ascii_digit c \<Longrightarrow> c \<noteq> CHR ''+''"
  by (auto simp: is_ascii_digit_def)

lemma digit_graphic: "is_ascii_digit c \<Longrightarrow> graphic c"
  by (simp add: is_ascii_digit_def graphic_def)

lemma parse_unsigned_digits:
  assumes "s \<noteq> []" and "list_all is_ascii_digit s"
  shows "parse_unsigned hi s = (if digits_val s \<le> hi then Some (digits_val s) else None)"
  using assms by (cases s) (auto simp: parse_unsigned_def digit_not_plus)

lemma parse_show_nat: "n \<le> hi \<Longrightarrow> parse_unsigned hi (show_nat n) = Some n"
  using show_nat_digits [of n] by (simp add: parse_unsigned_digits)

lemma parse_unsigned_bound: "parse_unsigned hi s = Some n \<Longrightarrow> n \<le> hi"
  by (auto simp: parse_unsigned_def Let_def split: if_splits)

lemma show_nat_no_colon: "CHR '':'' \<notin> set (show_nat n)"
  using show_nat_digits [of n] by (auto simp: list_all_iff is_ascii_digit_def)

section \<open>UTF-8\<close>

definition cont_byte :: "byte \<Rightarrow> bool" where
  "cont_byte b \<longleftrightarrow> 128 \<le> unat b \<and> unat b \<le> 191"

text \<open>\<^verbatim>\<open>String::from_utf8\<close> accepts exactly the well-formed sequences of the Unicode standard.\<close>

fun utf8_valid :: "bytes \<Rightarrow> bool" where
  "utf8_valid [] = True"
| "utf8_valid (b # bs) =
     (let n = unat b in
      if n \<le> 127 then utf8_valid bs
      else if 194 \<le> n \<and> n \<le> 223 then
        (case bs of c # r \<Rightarrow> cont_byte c \<and> utf8_valid r | _ \<Rightarrow> False)
      else if 224 \<le> n \<and> n \<le> 239 then
        (case bs of c # d # r \<Rightarrow> cont_byte c \<and> cont_byte d \<and> (n = 224 \<longrightarrow> 160 \<le> unat c) \<and>
           (n = 237 \<longrightarrow> unat c \<le> 159) \<and> utf8_valid r | _ \<Rightarrow> False)
      else if 240 \<le> n \<and> n \<le> 244 then
        (case bs of c # d # e # r \<Rightarrow> cont_byte c \<and> cont_byte d \<and> cont_byte e \<and>
           (n = 240 \<longrightarrow> 144 \<le> unat c) \<and> (n = 244 \<longrightarrow> unat c \<le> 143) \<and> utf8_valid r | _ \<Rightarrow> False)
      else False)"

definition string_from_utf8 :: "bytes \<Rightarrow> string option" where
  "string_from_utf8 bs = (if utf8_valid bs then Some (string_of_bytes bs) else None)"

text \<open>
  \<^verbatim>\<open>String::from_utf8_lossy\<close>: every maximal prefix of a sequence that turns out ill-formed becomes
  one replacement character. \<open>utf8_scan\<close> tells whether the next sequence is well-formed and how
  many bytes it takes.
\<close>

definition utf8_second :: "nat \<Rightarrow> byte \<Rightarrow> bool" where
  "utf8_second n c \<longleftrightarrow> cont_byte c \<and> (n = 224 \<longrightarrow> 160 \<le> unat c) \<and> (n = 237 \<longrightarrow> unat c \<le> 159) \<and>
     (n = 240 \<longrightarrow> 144 \<le> unat c) \<and> (n = 244 \<longrightarrow> unat c \<le> 143)"

fun utf8_scan :: "bytes \<Rightarrow> bool \<times> nat" where
  "utf8_scan [] = (True, 1)"
| "utf8_scan (b # bs) =
     (let n = unat b in
      if n \<le> 127 then (True, 1)
      else if 194 \<le> n \<and> n \<le> 223 then
        (case bs of c # _ \<Rightarrow> if utf8_second n c then (True, 2) else (False, 1) | _ \<Rightarrow> (False, 1))
      else if 224 \<le> n \<and> n \<le> 239 then
        (case bs of
           c # r \<Rightarrow> if utf8_second n c
             then (case r of d # _ \<Rightarrow> if cont_byte d then (True, 3) else (False, 2) | _ \<Rightarrow> (False, 2))
             else (False, 1)
         | _ \<Rightarrow> (False, 1))
      else if 240 \<le> n \<and> n \<le> 244 then
        (case bs of
           c # r \<Rightarrow> if utf8_second n c
             then (case r of
                 d # r' \<Rightarrow> if cont_byte d
                   then (case r' of e # _ \<Rightarrow> if cont_byte e then (True, 4) else (False, 3) | _ \<Rightarrow> (False, 3))
                   else (False, 2)
               | _ \<Rightarrow> (False, 2))
             else (False, 1)
         | _ \<Rightarrow> (False, 1))
      else (False, 1))"

lemma utf8_scan_pos [simp]: "0 < snd (utf8_scan bs)"
  by (cases bs) (auto simp: Let_def split: list.splits)

lemma utf8_scan_pos_eq: "(ok, n) = utf8_scan bs \<Longrightarrow> 0 < n"
  using utf8_scan_pos [of bs] by (metis snd_conv)

function utf8_lossy :: "bytes \<Rightarrow> bytes" where
  "utf8_lossy [] = []"
| "utf8_lossy (b # bs) =
     (case utf8_scan (b # bs) of
        (ok, n) \<Rightarrow> (if ok then take n (b # bs) else [0xEF, 0xBF, 0xBD]) @ utf8_lossy (drop n (b # bs)))"
  by pat_completeness auto
termination
  by (relation "measure length") (auto simp: drop_Cons' simp del: utf8_scan.simps dest: utf8_scan_pos_eq)

definition from_utf8_lossy :: "bytes \<Rightarrow> string" where
  "from_utf8_lossy bs = string_of_bytes (utf8_lossy bs)"

section \<open>Lines and words\<close>

text \<open>\<^verbatim>\<open>str::lines\<close>: split at newlines, a carriage return before one dropped, no last empty line.\<close>

definition strip_cr :: "string \<Rightarrow> string" where
  "strip_cr l = (case strip_suffix l [CHR 0x0D] of Some r \<Rightarrow> r | None \<Rightarrow> l)"

function lines :: "string \<Rightarrow> string list" where
  "lines s =
     (if s = [] then []
      else if CHR 0x0A \<in> set s
      then strip_cr (takeWhile (\<lambda>c. c \<noteq> CHR 0x0A) s) # lines (tl (dropWhile (\<lambda>c. c \<noteq> CHR 0x0A) s))
      else [s])"
  by pat_completeness auto
termination
proof (relation "measure length")
  fix s :: string
  assume "s \<noteq> []"
  have "length (dropWhile (\<lambda>c. c \<noteq> CHR 0x0A) s) \<le> length s"
    by (rule length_dropWhile_le)
  with \<open>s \<noteq> []\<close> show "(tl (dropWhile (\<lambda>c. c \<noteq> CHR 0x0A) s), s) \<in> measure length"
    by (cases s) (auto simp: less_Suc_eq_le)
qed simp

declare lines.simps [simp del]

text \<open>\<^verbatim>\<open>str::split_whitespace\<close>.\<close>

definition leading_space :: "string \<Rightarrow> nat" where
  "leading_space s = (case find (starts_with s) white_space of None \<Rightarrow> 0 | Some w \<Rightarrow> length w)"

function split_ws :: "string \<Rightarrow> string \<Rightarrow> string list" where
  "split_ws [] word = (if word = [] then [] else [word])"
| "split_ws (c # s) word =
     (if leading_space (c # s) = 0 then split_ws s (word @ [c])
      else (if word = [] then [] else [word]) @ split_ws (drop (leading_space (c # s)) (c # s)) [])"
  by pat_completeness auto
termination by (relation "measure (\<lambda>(s, _). length s)") (auto simp: drop_Cons')

definition split_whitespace :: "string \<Rightarrow> string list" where
  "split_whitespace s = split_ws s []"

end
