(* ===== verification/Config_Types.thy ===== *)
theory Config_Types
  imports Rust_Str
begin

text \<open>
  The configuration tree of \<^verbatim>\<open>config.rs\<close>: every struct as a record with the fields in the
  order of the source, every enum as a datatype, the serde defaults as definitions.

  A \<^verbatim>\<open>MaskedString\<close> is its string. \<^verbatim>\<open>Url\<close> is a type of the \<^verbatim>\<open>url\<close> crate, given by the
  results of the accessors that the program calls. Since two hash maps are equal whatever
  their iteration order, the derived \<^verbatim>\<open>PartialEq\<close> of a struct with map fields is written out
  (\<open>ss_eq\<close>, \<open>cs_eq\<close>, \<open>server_eq\<close>, \<open>client_eq\<close>, \<open>config_eq\<close>).
\<close>

section \<open>Enumerations and small structs\<close>

datatype transport_type = TTcp | TTls | TNoise | TWebsocket | TKcp | TQuic

datatype service_type = Tcp | Udp | Http | Https | Tcpmux | Stcp | Sudp | Xtcp

definition default_service_type :: service_type where
  "default_service_type = Tcp"

record port_range =
  pr_start :: u16
  pr_end :: u16

definition pr_contains :: "port_range \<Rightarrow> u16 \<Rightarrow> bool" where
  "pr_contains r port \<longleftrightarrow> port \<ge> pr_start r \<and> port \<le> pr_end r"

record http_header =
  hh_name :: string
  hh_value :: string

record health_check_config =
  hc_check_type :: string
  hc_path :: "string option"
  hc_interval_seconds :: u64
  hc_timeout_seconds :: u64
  hc_max_failed :: u32
  hc_http_headers :: "http_header list option"

definition default_health_check :: health_check_config where
  "default_health_check =
     \<lparr>hc_check_type = ''tcp'', hc_path = None, hc_interval_seconds = 10, hc_timeout_seconds = 3,
      hc_max_failed = 3, hc_http_headers = None\<rparr>"

record load_balancer_config =
  lb_group :: string
  lb_group_key :: "string option"

record web_server_config =
  web_addr :: string
  web_port :: u16
  web_user :: "string option"
  web_password :: "string option"
  web_tls_cert_file :: "string option"
  web_tls_key_file :: "string option"

definition default_web_addr :: string where
  "default_web_addr = ''127.0.0.1''"

record log_config =
  log_to :: "string option"
  log_level :: "string option"
  log_max_days :: "u64 option"
  log_disable_print_color :: bool

record kcp_config =
  kcp_mode :: string
  kcp_mtu :: u32
  kcp_sndwnd :: u32
  kcp_rcvwnd :: u32

definition default_kcp :: kcp_config where
  "default_kcp = \<lparr>kcp_mode = ''fast'', kcp_mtu = 1350, kcp_sndwnd = 1024, kcp_rcvwnd = 1024\<rparr>"

record quic_config =
  quic_keepalive_period :: u64
  quic_max_idle_timeout :: u64
  quic_max_incoming_streams :: u32

definition default_quic :: quic_config where
  "default_quic =
     \<lparr>quic_keepalive_period = 10, quic_max_idle_timeout = 30, quic_max_incoming_streams = 100\<rparr>"

record client_plugin_config =
  pl_plugin_type :: string
  pl_local_addr :: "string option"
  pl_host_header_rewrite :: "string option"
  pl_http_user :: "string option"
  pl_http_password :: "string option"
  pl_local_path :: "string option"
  pl_strip_prefix :: "string option"
  pl_enable_http2 :: bool
  pl_unix_path :: "string option"
  pl_crt_path :: "string option"
  pl_key_path :: "string option"

record oidc_client_config =
  oidc_client_id :: string
  oidc_client_secret :: string
  oidc_audience :: "string option"
  oidc_scope :: "string option"
  oidc_token_endpoint_url :: string

record oidc_server_config =
  oidcs_issuer :: string
  oidcs_audience :: string
  oidcs_skip_expiry_check :: bool
  oidcs_skip_issuer_check :: bool

record auth_config =
  auth_method :: string
  auth_token :: "string option"
  auth_token_file :: "string option"
  auth_oidc :: "oidc_client_config option"
  auth_oidc_server :: "oidc_server_config option"

definition default_auth_method :: string where
  "default_auth_method = ''token''"

record ssh_tunnel_gateway_config =
  ssh_bind_port :: u16
  ssh_private_key_file :: "string option"
  ssh_auto_gen_private_key_path :: "string option"
  ssh_authorized_keys_file :: "string option"

record server_plugin_config =
  sp_name :: string
  sp_addr :: string
  sp_path :: string
  sp_ops :: "string list"
  sp_tls_verify :: bool

section \<open>Transport\<close>

record tls_config =
  tls_hostname :: "string option"
  tls_trusted_root :: "string option"
  tls_pkcs12 :: "string option"
  tls_pkcs12_password :: "string option"
  tls_cert_file :: "string option"
  tls_key_file :: "string option"
  tls_force :: bool

record noise_config =
  noise_pattern :: string
  noise_local_private_key :: "string option"
  noise_remote_public_key :: "string option"

definition default_noise_pattern :: string where
  "default_noise_pattern = ''Noise_NK_25519_ChaChaPoly_BLAKE2s''"

record websocket_config =
  ws_tls :: bool

record url =
  url_scheme :: string
  url_host_str :: "string option"
  url_port :: "u16 option"
  url_username :: string
  url_password :: "string option"

record tcp_config =
  tcp_nodelay :: bool
  tcp_keepalive_secs :: u64
  tcp_keepalive_interval :: u64
  tcp_proxy :: "url option"

definition DEFAULT_NODELAY :: bool where "DEFAULT_NODELAY = True"
definition DEFAULT_KEEPALIVE_SECS :: u64 where "DEFAULT_KEEPALIVE_SECS = 20"
definition DEFAULT_KEEPALIVE_INTERVAL :: u64 where "DEFAULT_KEEPALIVE_INTERVAL = 8"

definition default_tcp :: tcp_config where
  "default_tcp =
     \<lparr>tcp_nodelay = DEFAULT_NODELAY, tcp_keepalive_secs = DEFAULT_KEEPALIVE_SECS,
      tcp_keepalive_interval = DEFAULT_KEEPALIVE_INTERVAL, tcp_proxy = None\<rparr>"

record transport_config =
  tr_transport_type :: transport_type
  tr_tcp :: tcp_config
  tr_tls :: "tls_config option"
  tr_noise :: "noise_config option"
  tr_websocket :: "websocket_config option"
  tr_kcp :: "kcp_config option"
  tr_quic :: "quic_config option"
  tr_tcp_mux :: bool
  tr_tcp_mux_keepalive_interval :: u64
  tr_pool_count :: "u64 option"
  tr_heartbeat_interval :: "u64 option"
  tr_heartbeat_timeout :: "u64 option"

text \<open>The derived \<^verbatim>\<open>Default\<close>, which sets \<^verbatim>\<open>tcp_mux\<close> to false where a parsed section has it true.\<close>

definition default_transport :: transport_config where
  "default_transport =
     \<lparr>tr_transport_type = TTcp, tr_tcp = default_tcp, tr_tls = None, tr_noise = None,
      tr_websocket = None, tr_kcp = None, tr_quic = None, tr_tcp_mux = False,
      tr_tcp_mux_keepalive_interval = 0, tr_pool_count = None, tr_heartbeat_interval = None,
      tr_heartbeat_timeout = None\<rparr>"

section \<open>Client services\<close>

type_synonym str_map = "(string, string) hmap"

record client_service_config =
  cs_service_type :: service_type
  cs_name :: string
  cs_local_addr :: string
  cs_prefer_ipv6 :: bool
  cs_token :: "string option"
  cs_nodelay :: "bool option"
  cs_retry_interval :: "u64 option"
  cs_enabled :: "bool option"
  cs_pool_count :: "u64 option"
  cs_bandwidth_limit :: "string option"
  cs_proxy_protocol_version :: "string option"
  cs_use_encryption :: bool
  cs_use_compression :: bool
  cs_metadatas :: "str_map option"
  cs_custom_domains :: "string list option"
  cs_subdomain :: "string option"
  cs_locations :: "string list option"
  cs_host_header_rewrite :: "string option"
  cs_http_user :: "string option"
  cs_http_password :: "string option"
  cs_request_headers :: "str_map option"
  cs_response_headers :: "str_map option"
  cs_route_by_http_user :: "string option"
  cs_secret_key :: "string option"
  cs_server_user :: "string option"
  cs_server_name :: "string option"
  cs_bind_addr :: "string option"
  cs_bind_port :: "32 word option"
  cs_allow_users :: "string list option"
  cs_keep_tunnel_open :: bool
  cs_max_retries_an_hour :: "u32 option"
  cs_min_retry_interval :: "u64 option"
  cs_fallback_to :: "string option"
  cs_fallback_timeout_ms :: "u64 option"
  cs_health_check :: "health_check_config option"
  cs_load_balancer :: "load_balancer_config option"
  cs_plugin :: "client_plugin_config option"

definition cs_with_name :: "string \<Rightarrow> client_service_config" where
  "cs_with_name n =
     \<lparr>cs_service_type = Tcp, cs_name = n, cs_local_addr = [], cs_prefer_ipv6 = False,
      cs_token = None, cs_nodelay = None, cs_retry_interval = None, cs_enabled = None,
      cs_pool_count = None, cs_bandwidth_limit = None, cs_proxy_protocol_version = None,
      cs_use_encryption = False, cs_use_compression = False, cs_metadatas = None,
      cs_custom_domains = None, cs_subdomain = None, cs_locations = None,
      cs_host_header_rewrite = None, cs_http_user = None, cs_http_password = None,
      cs_request_headers = None, cs_response_headers = None, cs_route_by_http_user = None,
      cs_secret_key = None, cs_server_user = None, cs_server_name = None, cs_bind_addr = None,
      cs_bind_port = None, cs_allow_users = None, cs_keep_tunnel_open = False,
      cs_max_retries_an_hour = None, cs_min_retry_interval = None, cs_fallback_to = None,
      cs_fallback_timeout_ms = None, cs_health_check = None, cs_load_balancer = None,
      cs_plugin = None\<rparr>"

definition cs_is_enabled :: "client_service_config \<Rightarrow> bool" where
  "cs_is_enabled s = case_option True id (cs_enabled s)"

definition cs_is_visitor :: "client_service_config \<Rightarrow> bool" where
  "cs_is_visitor s \<longleftrightarrow> cs_service_type s \<in> {Stcp, Sudp, Xtcp} \<and> cs_server_name s \<noteq> None"

section \<open>Server services\<close>

record server_service_config =
  ss_service_type :: service_type
  ss_name :: string
  ss_bind_addr :: string
  ss_token :: "string option"
  ss_nodelay :: "bool option"
  ss_enabled :: "bool option"
  ss_pool_count :: "u64 option"
  ss_bandwidth_limit :: "string option"
  ss_proxy_protocol_version :: "string option"
  ss_metadatas :: "str_map option"
  ss_custom_domains :: "string list option"
  ss_subdomain :: "string option"
  ss_locations :: "string list option"
  ss_host_header_rewrite :: "string option"
  ss_http_user :: "string option"
  ss_http_password :: "string option"
  ss_request_headers :: "str_map option"
  ss_response_headers :: "str_map option"
  ss_route_by_http_user :: "string option"
  ss_secret_key :: "string option"
  ss_allow_users :: "string list option"
  ss_health_check :: "health_check_config option"
  ss_load_balancer :: "load_balancer_config option"

definition ss_with_name :: "string \<Rightarrow> server_service_config" where
  "ss_with_name n =
     \<lparr>ss_service_type = Tcp, ss_name = n, ss_bind_addr = [], ss_token = None, ss_nodelay = None,
      ss_enabled = None, ss_pool_count = None, ss_bandwidth_limit = None,
      ss_proxy_protocol_version = None, ss_metadatas = None, ss_custom_domains = None,
      ss_subdomain = None, ss_locations = None, ss_host_header_rewrite = None,
      ss_http_user = None, ss_http_password = None, ss_request_headers = None,
      ss_response_headers = None, ss_route_by_http_user = None, ss_secret_key = None,
      ss_allow_users = None, ss_health_check = None, ss_load_balancer = None\<rparr>"

definition ss_is_enabled :: "server_service_config \<Rightarrow> bool" where
  "ss_is_enabled s = case_option True id (ss_enabled s)"

definition ss_pool_size :: "server_service_config \<Rightarrow> u64" where
  "ss_pool_size s =
     (case ss_pool_count s of
        Some count \<Rightarrow> count
      | None \<Rightarrow>
          (case ss_service_type s of
             Tcp \<Rightarrow> 8 | Http \<Rightarrow> 8 | Https \<Rightarrow> 8 | Tcpmux \<Rightarrow> 8 | Stcp \<Rightarrow> 8
           | Udp \<Rightarrow> 2 | Sudp \<Rightarrow> 2
           | Xtcp \<Rightarrow> 1))"

definition ss_needs_bind_addr :: "server_service_config \<Rightarrow> bool" where
  "ss_needs_bind_addr s \<longleftrightarrow> ss_service_type s \<in> {Tcp, Udp}"

section \<open>The whole configuration\<close>

record client_config =
  cc_remote_addr :: string
  cc_default_token :: "string option"
  cc_prefer_ipv6 :: "bool option"
  cc_services :: "(string, client_service_config) hmap"
  cc_transport :: transport_config
  cc_heartbeat_timeout :: u64
  cc_retry_interval :: u64
  cc_user :: "string option"
  cc_dns_server :: "string option"
  cc_log :: "log_config option"
  cc_web_server :: "web_server_config option"
  cc_start :: "string list option"
  cc_includes :: "string list option"
  cc_auth :: "auth_config option"

definition DEFAULT_HEARTBEAT_INTERVAL_SECS :: u64 where "DEFAULT_HEARTBEAT_INTERVAL_SECS = 30"
definition DEFAULT_HEARTBEAT_TIMEOUT_SECS :: u64 where "DEFAULT_HEARTBEAT_TIMEOUT_SECS = 40"
definition DEFAULT_CLIENT_RETRY_INTERVAL_SECS :: u64 where "DEFAULT_CLIENT_RETRY_INTERVAL_SECS = 1"

definition default_client_config :: client_config where
  "default_client_config =
     \<lparr>cc_remote_addr = [], cc_default_token = None, cc_prefer_ipv6 = None, cc_services = [],
      cc_transport = default_transport, cc_heartbeat_timeout = 0, cc_retry_interval = 0,
      cc_user = None, cc_dns_server = None, cc_log = None, cc_web_server = None,
      cc_start = None, cc_includes = None, cc_auth = None\<rparr>"

record server_config =
  sc_bind_addr :: string
  sc_default_token :: "string option"
  sc_services :: "(string, server_service_config) hmap"
  sc_transport :: transport_config
  sc_heartbeat_interval :: u64
  sc_allow_ports :: "port_range list option"
  sc_max_ports_per_client :: "u32 option"
  sc_detailed_errors_to_client :: bool
  sc_dns_server :: "string option"
  sc_log :: "log_config option"
  sc_vhost_http_port :: "u16 option"
  sc_vhost_https_port :: "u16 option"
  sc_subdomain_host :: "string option"
  sc_custom_404_page :: "string option"
  sc_tcpmux_http_connect_port :: "u16 option"
  sc_nat_hole_stun_server :: "string option"
  sc_web_server :: "web_server_config option"
  sc_enable_prometheus :: bool
  sc_http_plugins :: "server_plugin_config list option"
  sc_auth :: "auth_config option"
  sc_ssh_tunnel_gateway :: "ssh_tunnel_gateway_config option"

definition default_server_config :: server_config where
  "default_server_config =
     \<lparr>sc_bind_addr = [], sc_default_token = None, sc_services = [],
      sc_transport = default_transport, sc_heartbeat_interval = 0, sc_allow_ports = None,
      sc_max_ports_per_client = None, sc_detailed_errors_to_client = False,
      sc_dns_server = None, sc_log = None, sc_vhost_http_port = None,
      sc_vhost_https_port = None, sc_subdomain_host = None, sc_custom_404_page = None,
      sc_tcpmux_http_connect_port = None, sc_nat_hole_stun_server = None,
      sc_web_server = None, sc_enable_prometheus = False, sc_http_plugins = None,
      sc_auth = None, sc_ssh_tunnel_gateway = None\<rparr>"

record config =
  cfg_server :: "server_config option"
  cfg_client :: "client_config option"

section \<open>Equality\<close>

fun opt_eq :: "('a \<Rightarrow> 'a \<Rightarrow> bool) \<Rightarrow> 'a option \<Rightarrow> 'a option \<Rightarrow> bool" where
  "opt_eq eq None None = True"
| "opt_eq eq (Some x) (Some y) = eq x y"
| "opt_eq eq _ _ = False"

definition ss_eq :: "server_service_config \<Rightarrow> server_service_config \<Rightarrow> bool" where
  "ss_eq a b \<longleftrightarrow>
     opt_eq (hm_eq (=)) (ss_metadatas a) (ss_metadatas b) \<and>
     opt_eq (hm_eq (=)) (ss_request_headers a) (ss_request_headers b) \<and>
     opt_eq (hm_eq (=)) (ss_response_headers a) (ss_response_headers b) \<and>
     a\<lparr>ss_metadatas := None, ss_request_headers := None, ss_response_headers := None\<rparr> =
     b\<lparr>ss_metadatas := None, ss_request_headers := None, ss_response_headers := None\<rparr>"

definition cs_eq :: "client_service_config \<Rightarrow> client_service_config \<Rightarrow> bool" where
  "cs_eq a b \<longleftrightarrow>
     opt_eq (hm_eq (=)) (cs_metadatas a) (cs_metadatas b) \<and>
     opt_eq (hm_eq (=)) (cs_request_headers a) (cs_request_headers b) \<and>
     opt_eq (hm_eq (=)) (cs_response_headers a) (cs_response_headers b) \<and>
     a\<lparr>cs_metadatas := None, cs_request_headers := None, cs_response_headers := None\<rparr> =
     b\<lparr>cs_metadatas := None, cs_request_headers := None, cs_response_headers := None\<rparr>"

definition server_eq :: "server_config \<Rightarrow> server_config \<Rightarrow> bool" where
  "server_eq a b \<longleftrightarrow>
     hm_eq ss_eq (sc_services a) (sc_services b) \<and>
     a\<lparr>sc_services := []\<rparr> = b\<lparr>sc_services := []\<rparr>"

definition client_eq :: "client_config \<Rightarrow> client_config \<Rightarrow> bool" where
  "client_eq a b \<longleftrightarrow>
     hm_eq cs_eq (cc_services a) (cc_services b) \<and>
     a\<lparr>cc_services := []\<rparr> = b\<lparr>cc_services := []\<rparr>"

definition config_eq :: "config \<Rightarrow> config \<Rightarrow> bool" where
  "config_eq a b \<longleftrightarrow>
     opt_eq server_eq (cfg_server a) (cfg_server b) \<and> opt_eq client_eq (cfg_client a) (cfg_client b)"

lemma opt_eq_None [simp]: "opt_eq eq None y \<longleftrightarrow> y = None"
  by (cases y) auto

lemma opt_eq_None2 [simp]: "opt_eq eq x None \<longleftrightarrow> x = None"
  by (cases x) auto

lemma opt_eq_refl: "(\<And>v. eq v v) \<Longrightarrow> opt_eq eq x x"
  by (cases x) auto

text \<open>Equal services agree in every field that is not a map.\<close>

lemma ss_eq_fields:
  assumes "ss_eq a b"
  shows "ss_name a = ss_name b" "ss_service_type a = ss_service_type b" "ss_token a = ss_token b" "ss_enabled a = ss_enabled b"
proof -
  have eq: "a\<lparr>ss_metadatas := None, ss_request_headers := None, ss_response_headers := None\<rparr> =
      b\<lparr>ss_metadatas := None, ss_request_headers := None, ss_response_headers := None\<rparr>"
    using assms by (simp only: ss_eq_def)
  show "ss_name a = ss_name b" using arg_cong [OF eq, of ss_name] by simp
  show "ss_service_type a = ss_service_type b" using arg_cong [OF eq, of ss_service_type] by simp
  show "ss_token a = ss_token b" using arg_cong [OF eq, of ss_token] by simp
  show "ss_enabled a = ss_enabled b" using arg_cong [OF eq, of ss_enabled] by simp
qed

lemma cs_eq_fields:
  assumes "cs_eq a b"
  shows "cs_name a = cs_name b" "cs_service_type a = cs_service_type b" "cs_token a = cs_token b" "cs_enabled a = cs_enabled b"
proof -
  have eq: "a\<lparr>cs_metadatas := None, cs_request_headers := None, cs_response_headers := None\<rparr> =
      b\<lparr>cs_metadatas := None, cs_request_headers := None, cs_response_headers := None\<rparr>"
    using assms by (simp only: cs_eq_def)
  show "cs_name a = cs_name b" using arg_cong [OF eq, of cs_name] by simp
  show "cs_service_type a = cs_service_type b" using arg_cong [OF eq, of cs_service_type] by simp
  show "cs_token a = cs_token b" using arg_cong [OF eq, of cs_token] by simp
  show "cs_enabled a = cs_enabled b" using arg_cong [OF eq, of cs_enabled] by simp
qed

end
