(* ===== verification/Float64.thy ===== *)
theory Float64
  imports Rust_Str Complex_Main "HOL-Library.Log_Nat"
begin

text \<open>
  The part of IEEE 754 double precision that the bandwidth code uses.

  A value is a NaN, a signed infinity or a finite rational; the two zeros are identified, since
  no operation of the program tells them apart. Every operation is the exact one followed by
  \<open>f64_round\<close>, the rounding to the nearest of the 53-bit significands (ties to even), with
  gradual underflow and overflow to infinity. The locale \<open>rounding\<close> states what the clients
  rely on, monotonicity and exactness on representable values, and is interpreted on it.
\<close>

section \<open>Rounding\<close>

definition round_half_even :: "rat \<Rightarrow> int" where
  "round_half_even q =
     (let f = \<lfloor>q\<rfloor>; d = q - of_int f in
      if d < 1 / 2 then f else if 1 / 2 < d then f + 1 else if even f then f else f + 1)"

lemma round_half_even_int [simp]: "round_half_even (of_int n) = n"
  by (simp add: round_half_even_def)

lemma round_half_even_bounds: "\<lfloor>q\<rfloor> \<le> round_half_even q \<and> round_half_even q \<le> \<lfloor>q\<rfloor> + 1"
  by (simp add: round_half_even_def Let_def)

lemma round_half_even_mono: "q \<le> r \<Longrightarrow> round_half_even q \<le> round_half_even r"
proof (cases "\<lfloor>q\<rfloor> < \<lfloor>r\<rfloor>")
  case True
  then show ?thesis
    using round_half_even_bounds [of q] round_half_even_bounds [of r] by linarith
next
  case False
  assume "q \<le> r"
  with False have "\<lfloor>q\<rfloor> = \<lfloor>r\<rfloor>"
    using floor_mono [of q r] by linarith
  with \<open>q \<le> r\<close> show ?thesis
    by (auto simp: round_half_even_def Let_def)
qed

text \<open>\<open>pow2 e\<close> is two to an integer power, \<open>ilog2 q\<close> the integer part of the binary logarithm.\<close>

definition pow2 :: "int \<Rightarrow> rat" where
  "pow2 e = (if 0 \<le> e then 2 ^ nat e else 1 / 2 ^ nat (- e))"

definition ilog2 :: "rat \<Rightarrow> int" where
  "ilog2 q =
     (case quotient_of q of (n, d) \<Rightarrow>
        let k = bitlen n - bitlen d in if pow2 k \<le> q then k else k - 1)"

lemma pow2_pos [simp]: "0 < pow2 e"
  by (simp add: pow2_def)

lemma pow2_nonneg [simp]: "0 \<le> pow2 e"
  by (simp add: pow2_def)

lemma pow2_nonzero [simp]: "pow2 e \<noteq> 0"
  by (simp add: pow2_def)

lemma pow2_eq: "pow2 e = 2 powi e"
  by (simp add: pow2_def power_int_def field_simps)

lemma pow2_add: "pow2 (a + b) = pow2 a * pow2 b"
  by (simp add: pow2_eq power_int_add)

lemma pow2_mono: "a \<le> b \<Longrightarrow> pow2 a \<le> pow2 b"
  by (simp add: pow2_eq power_int_increasing)

lemma pow2_nat: "0 \<le> e \<Longrightarrow> pow2 e = of_int (2 ^ nat e)"
  by (simp add: pow2_def)

lemma ilog2_bounds:
  assumes "0 < q"
  shows "pow2 (ilog2 q) \<le> q \<and> q < pow2 (ilog2 q + 1)"
proof -
  obtain n d where nd: "quotient_of q = (n, d)" by force
  then have d: "0 < d" and q: "q = of_int n / of_int d"
    by (simp_all add: quotient_of_denom_pos quotient_of_div)
  with assms have n: "0 < n"
    by (simp add: zero_less_divide_iff)
  let ?k = "bitlen n - bitlen d"
  have bl: "0 < bitlen n" "0 < bitlen d"
    using n d bitlen_nonneg [of n] bitlen_nonneg [of d] bitlen_eq_zero_iff [of n] bitlen_eq_zero_iff [of d]
    by linarith+
  have bn: "2 ^ nat (bitlen n - 1) \<le> n" "n < 2 ^ nat (bitlen n)"
    using bitlen_bounds [OF n] by auto
  have bd: "2 ^ nat (bitlen d - 1) \<le> d" "d < 2 ^ nat (bitlen d)"
    using bitlen_bounds [OF d] by auto
  have rn: "pow2 (bitlen n - 1) \<le> of_int n" "of_int n < pow2 (bitlen n)"
    using bn bl by (simp_all only: pow2_nat of_int_le_iff of_int_less_iff)
  have rd: "pow2 (bitlen d - 1) \<le> of_int d" "of_int d < pow2 (bitlen d)"
    using bd bl by (simp_all only: pow2_nat of_int_le_iff of_int_less_iff)
  have "pow2 (?k - 1) * of_int d \<le> pow2 (?k - 1) * pow2 (bitlen d)"
    using rd by (intro mult_left_mono) auto
  also have "\<dots> = pow2 (bitlen n - 1)"
    by (simp flip: pow2_add)
  finally have lo: "pow2 (?k - 1) \<le> q"
    using rn d by (simp add: q pos_le_divide_eq)
  have "of_int n < pow2 (bitlen n)" by (rule rn)
  also have "\<dots> = pow2 (?k + 1) * pow2 (bitlen d - 1)"
    by (simp flip: pow2_add)
  also have "\<dots> \<le> pow2 (?k + 1) * of_int d"
    using rd by (intro mult_left_mono) auto
  finally have hi: "q < pow2 (?k + 1)"
    using d by (simp add: q pos_divide_less_eq)
  show ?thesis
    using lo hi by (auto simp: ilog2_def nd Let_def)
qed

lemma ilog2_mono:
  assumes "0 < q" and "q \<le> r"
  shows "ilog2 q \<le> ilog2 r"
proof (rule ccontr)
  assume "\<not> ilog2 q \<le> ilog2 r"
  then have "pow2 (ilog2 r + 1) \<le> pow2 (ilog2 q)"
    by (intro pow2_mono) simp
  with ilog2_bounds [of q] ilog2_bounds [of r] assms show False by simp
qed

text \<open>The exponent of the last place of the significand, and the rounding of a magnitude.\<close>

definition f64_ulp :: "rat \<Rightarrow> int" where
  "f64_ulp q = max (- 1074) (ilog2 q - 52)"

definition f64_round_mag :: "rat \<Rightarrow> rat" where
  "f64_round_mag q = (if q = 0 then 0 else of_int (round_half_even (q / pow2 (f64_ulp q))) * pow2 (f64_ulp q))"

lemma round_grid_mono:
  "q \<le> r \<Longrightarrow> of_int (round_half_even (q / pow2 e)) * pow2 e \<le> of_int (round_half_even (r / pow2 e)) * pow2 e"
  by (intro mult_right_mono) (auto intro!: round_half_even_mono divide_right_mono)

lemma round_grid_exact:
  assumes "e \<le> k"
  shows "of_int (round_half_even (of_int n * pow2 k / pow2 e)) * pow2 e = of_int n * pow2 k"
proof -
  have k: "pow2 k = pow2 (k - e) * pow2 e"
    by (simp flip: pow2_add)
  then have "of_int n * pow2 k / pow2 e = of_int (n * 2 ^ nat (k - e))"
    using assms by (simp add: pow2_nat)
  then have "round_half_even (of_int n * pow2 k / pow2 e) = n * 2 ^ nat (k - e)"
    by (simp only: round_half_even_int)
  then show ?thesis
    using assms by (simp add: k pow2_nat)
qed

lemma f64_round_mag_nonneg:
  assumes "0 \<le> q"
  shows "0 \<le> f64_round_mag q"
proof -
  have "0 \<le> round_half_even (q / pow2 (f64_ulp q))"
    using round_half_even_mono [of 0 "q / pow2 (f64_ulp q)"] round_half_even_int [of 0] assms
    by (simp add: less_imp_le)
  then show ?thesis
    by (simp add: f64_round_mag_def less_imp_le)
qed

lemma f64_ulp_mono: "0 < q \<Longrightarrow> q \<le> r \<Longrightarrow> f64_ulp q \<le> f64_ulp r"
  using ilog2_mono [of q r] by (auto simp: f64_ulp_def)

lemma f64_round_mag_mono:
  assumes "0 \<le> q" and "q \<le> r"
  shows "f64_round_mag q \<le> f64_round_mag r"
proof (cases "q = 0")
  case True
  then show ?thesis
    using assms f64_round_mag_nonneg [of r] by (simp add: f64_round_mag_def)
next
  case False
  with assms have pos: "0 < q" "0 < r" by auto
  let ?a = "f64_ulp q" and ?b = "f64_ulp r"
  have le: "?a \<le> ?b"
    using pos assms by (intro f64_ulp_mono)
  show ?thesis
  proof (cases "?a = ?b")
    case True
    then show ?thesis
      using pos round_grid_mono [OF assms(2), of ?b] by (simp add: f64_round_mag_def)
  next
    case False
    let ?m = "?b + 52"
    have b: "?b = ilog2 r - 52" and m: "ilog2 q + 1 \<le> ?m" "?a \<le> ?m" "?b \<le> ?m"
      using le False by (auto simp: f64_ulp_def)
    have "pow2 ?m \<le> r"
      using ilog2_bounds [of r] pos b by simp
    moreover have "q \<le> pow2 ?m"
      using ilog2_bounds [of q] pos pow2_mono [OF m(1)] by simp
    ultimately have "f64_round_mag q \<le> pow2 ?m" "pow2 ?m \<le> f64_round_mag r"
      using pos round_grid_mono [of q "pow2 ?m" ?a] round_grid_mono [of "pow2 ?m" r ?b]
        round_grid_exact [OF m(2), of 1] round_grid_exact [OF m(3), of 1]
      unfolding f64_round_mag_def by (simp_all only: of_int_1 mult_1 less_imp_neq [symmetric] if_False)
    then show ?thesis by simp
  qed
qed

text \<open>Integers of at most 53 bits, scaled by a power of two in range, are representable.\<close>

lemma f64_ulp_le:
  assumes "0 < q" and "q < pow2 (k + 53)" and "- 1074 \<le> k"
  shows "f64_ulp q \<le> k"
proof -
  have "\<not> k + 53 \<le> ilog2 q"
    using pow2_mono [of "k + 53" "ilog2 q"] ilog2_bounds [of q] assms by linarith
  then show ?thesis
    using assms by (simp add: f64_ulp_def)
qed

lemma f64_round_mag_exact:
  assumes "0 \<le> n" and "n < 2 ^ 53" and "- 1074 \<le> k"
  shows "f64_round_mag (of_int n * pow2 k) = of_int n * pow2 k"
proof (cases "n = 0")
  case False
  have "of_int n * pow2 k < of_int (2 ^ 53) * pow2 k"
    using assms by (intro mult_strict_right_mono pow2_pos) (simp only: of_int_less_iff)
  also have "\<dots> = pow2 (k + 53)"
    by (simp add: pow2_add) (simp add: pow2_def)
  finally have "f64_ulp (of_int n * pow2 k) \<le> k"
    using assms False by (intro f64_ulp_le) auto
  then show ?thesis
    using False by (simp add: f64_round_mag_def round_grid_exact)
qed (simp add: f64_round_mag_def)

lemma f64_round_mag_idem:
  assumes "0 \<le> q"
  shows "f64_round_mag (f64_round_mag q) = f64_round_mag q"
proof (cases "q = 0")
  case False
  with assms have q: "0 < q" by simp
  let ?e = "f64_ulp q" and ?n = "round_half_even (q / pow2 (f64_ulp q))"
  have e: "- 1074 \<le> ?e" by (simp add: f64_ulp_def)
  have "pow2 (ilog2 q + 1) \<le> pow2 (?e + 53)"
    by (intro pow2_mono) (simp add: f64_ulp_def)
  then have "q < pow2 (?e + 53)"
    using ilog2_bounds [OF q] by simp
  then have "q / pow2 ?e \<le> of_int (2 ^ 53)"
    by (simp add: pos_divide_le_eq pow2_add) (simp add: pow2_def)
  then have hi: "?n \<le> 2 ^ 53"
    using round_half_even_mono round_half_even_int by metis
  have lo: "0 \<le> ?n"
    using round_half_even_mono [of 0 "q / pow2 ?e"] round_half_even_int [of 0] q by simp
  have q': "f64_round_mag q = of_int ?n * pow2 ?e"
    using q by (simp add: f64_round_mag_def)
  show ?thesis
  proof (cases "?n = 2 ^ 53")
    case True
    then have "f64_round_mag q = of_int 1 * pow2 (?e + 53)"
      by (simp add: q' pow2_add) (simp add: pow2_def)
    moreover have "f64_round_mag (of_int 1 * pow2 (?e + 53)) = of_int 1 * pow2 (?e + 53)"
      using e by (intro f64_round_mag_exact) auto
    ultimately show ?thesis by metis
  next
    case False
    with lo hi e show ?thesis
      by (simp only: q') (rule f64_round_mag_exact, auto)
  qed
qed (simp add: f64_round_mag_def)

section \<open>The contract of a rounding\<close>

locale rounding =
  fixes rnd :: "rat \<Rightarrow> rat"
  assumes rnd_zero: "rnd 0 = 0"
    and rnd_mono: "0 \<le> q \<Longrightarrow> q \<le> r \<Longrightarrow> rnd q \<le> rnd r"
    and rnd_idem: "0 \<le> q \<Longrightarrow> rnd (rnd q) = rnd q"
begin

lemma rnd_nonneg: "0 \<le> q \<Longrightarrow> 0 \<le> rnd q"
  using rnd_mono [of 0 q] by (simp add: rnd_zero)

text \<open>Rounding crosses no representable value.\<close>

lemma rnd_below: "0 \<le> q \<Longrightarrow> 0 \<le> r \<Longrightarrow> rnd r = r \<Longrightarrow> q \<le> r \<Longrightarrow> rnd q \<le> r"
  using rnd_mono [of q r] by simp

lemma rnd_above: "0 \<le> r \<Longrightarrow> rnd r = r \<Longrightarrow> r \<le> q \<Longrightarrow> r \<le> rnd q"
  using rnd_mono [of r q] by simp

text \<open>A level that is raised by a rounded amount and capped stays representable and does not fall.\<close>

lemma rnd_refill:
  assumes "0 \<le> t" "rnd t = t" "t \<le> m" "rnd m = m" "0 \<le> x"
  shows "t \<le> min (rnd (t + x)) m \<and> rnd (min (rnd (t + x)) m) = min (rnd (t + x)) m"
  using assms rnd_above [of t "t + x"] by (auto simp: min_def rnd_idem)

text \<open>An integer part of a level can be taken out of it, although both conversions round.\<close>

lemma rnd_spend:
  assumes "0 \<le> t" "rnd t = t" "int n \<le> \<lfloor>t\<rfloor>"
  shows "rnd (of_nat n) \<le> t \<and> 0 \<le> rnd (t - rnd (of_nat n)) \<and> rnd (t - rnd (of_nat n)) \<le> t"
proof -
  have "of_nat n \<le> t"
    using assms(3) by (simp add: le_floor_iff)
  then have "rnd (of_nat n) \<le> t"
    using assms by (intro rnd_below) auto
  moreover from this have "0 \<le> rnd (t - rnd (of_nat n))" "rnd (t - rnd (of_nat n)) \<le> t"
    using assms rnd_nonneg [of "of_nat n"] by (auto intro!: rnd_nonneg rnd_below)
  ultimately show ?thesis by blast
qed

end

lemma f64_round_mag_zero: "f64_round_mag 0 = 0"
  by (simp add: f64_round_mag_def)

interpretation mag: rounding f64_round_mag
  by unfold_locales (simp_all add: f64_round_mag_zero f64_round_mag_mono f64_round_mag_idem)

section \<open>Values and operations\<close>

text \<open>\<open>Infinity True\<close> is the negative infinity.\<close>

datatype f64 = NaN | Infinity bool | Fin rat

definition f64_max :: rat where
  "f64_max = 2 ^ 1024"

definition f64_round :: "rat \<Rightarrow> f64" where
  "f64_round q =
     (let m = f64_round_mag \<bar>q\<bar> in
      if f64_max \<le> m then Infinity (q < 0) else Fin (if q < 0 then - m else m))"

fun f64_mul :: "f64 \<Rightarrow> f64 \<Rightarrow> f64" where
  "f64_mul (Fin a) (Fin b) = f64_round (a * b)"
| "f64_mul (Infinity s) (Fin b) = (if b = 0 then NaN else Infinity (s \<noteq> (b < 0)))"
| "f64_mul (Fin a) (Infinity s) = (if a = 0 then NaN else Infinity (s \<noteq> (a < 0)))"
| "f64_mul (Infinity s) (Infinity t) = Infinity (s \<noteq> t)"
| "f64_mul _ _ = NaN"

fun f64_add :: "f64 \<Rightarrow> f64 \<Rightarrow> f64" where
  "f64_add (Fin a) (Fin b) = f64_round (a + b)"
| "f64_add (Infinity s) (Fin b) = Infinity s"
| "f64_add (Fin a) (Infinity s) = Infinity s"
| "f64_add (Infinity s) (Infinity t) = (if s = t then Infinity s else NaN)"
| "f64_add _ _ = NaN"

fun f64_neg :: "f64 \<Rightarrow> f64" where
  "f64_neg NaN = NaN"
| "f64_neg (Infinity s) = Infinity (\<not> s)"
| "f64_neg (Fin q) = Fin (- q)"

definition f64_sub :: "f64 \<Rightarrow> f64 \<Rightarrow> f64" where
  "f64_sub a b = f64_add a (f64_neg b)"

fun f64_div :: "f64 \<Rightarrow> f64 \<Rightarrow> f64" where
  "f64_div (Fin a) (Fin b) =
     (if b = 0 then (if a = 0 then NaN else Infinity (a < 0)) else f64_round (a / b))"
| "f64_div (Infinity s) (Fin b) = Infinity (s \<noteq> (b < 0))"
| "f64_div (Fin a) (Infinity s) = Fin 0"
| "f64_div _ _ = NaN"

text \<open>\<^verbatim>\<open><=\<close>, false when a NaN is compared, and \<^verbatim>\<open>f64::min\<close>, which prefers the number to a NaN.\<close>

fun f64_le :: "f64 \<Rightarrow> f64 \<Rightarrow> bool" where
  "f64_le (Fin a) (Fin b) = (a \<le> b)"
| "f64_le (Infinity s) (Fin b) = s"
| "f64_le (Fin a) (Infinity s) = (\<not> s)"
| "f64_le (Infinity s) (Infinity t) = (s \<or> \<not> t)"
| "f64_le _ _ = False"

definition f64_min :: "f64 \<Rightarrow> f64 \<Rightarrow> f64" where
  "f64_min a b = (if a = NaN then b else if b = NaN then a else if f64_le a b then a else b)"

definition f64_of_nat :: "nat \<Rightarrow> f64" where
  "f64_of_nat n = f64_round (of_nat n)"

text \<open>\<^verbatim>\<open>x as u64\<close>: truncation towards zero that saturates at the ends of the range.\<close>

fun f64_as_u64 :: "f64 \<Rightarrow> nat" where
  "f64_as_u64 NaN = 0"
| "f64_as_u64 (Infinity s) = (if s then 0 else 2 ^ 64 - 1)"
| "f64_as_u64 (Fin q) = min (2 ^ 64 - 1) (nat \<lfloor>q\<rfloor>)"

lemma f64_round_nonneg:
  "0 \<le> q \<Longrightarrow> f64_round_mag q < f64_max \<Longrightarrow> f64_round q = Fin (f64_round_mag q)"
  by (simp add: f64_round_def Let_def)

lemma pow2_numeral_exact:
  assumes "0 \<le> k" "k < 1024"
  shows "f64_round_mag (pow2 k) = pow2 k" and "pow2 k < f64_max"
proof -
  show "f64_round_mag (pow2 k) = pow2 k"
    using assms f64_round_mag_exact [of 1 k] by simp
  have "pow2 k = 2 ^ nat k" using assms by (simp add: pow2_def)
  also have "\<dots> < (2 :: rat) ^ 1024" using assms by (intro power_strict_increasing) auto
  finally show "pow2 k < f64_max" by (simp only: f64_max_def)
qed

lemma f64_round_small:
  assumes "0 \<le> q" and "q \<le> pow2 k" and "0 \<le> k" and "k < 1024"
  shows "f64_round q = Fin (f64_round_mag q)" and "f64_round_mag q \<le> pow2 k"
proof -
  show le: "f64_round_mag q \<le> pow2 k"
    using assms pow2_numeral_exact [of k] by (intro mag.rnd_below) auto
  show "f64_round q = Fin (f64_round_mag q)"
    using assms le pow2_numeral_exact [of k] by (intro f64_round_nonneg) auto
qed

lemma f64_round_int:
  assumes "n < 2 ^ 53"
  shows "f64_round (of_nat n) = Fin (of_nat n)"
proof -
  have "f64_round_mag (of_nat n) = of_nat n"
    using assms f64_round_mag_exact [of "int n" 0] by (simp add: pow2_def)
  moreover have "of_nat n \<le> pow2 53"
    using assms of_nat_less_iff [of n "2 ^ 53", where 'a = rat] by (simp add: pow2_def)
  ultimately show ?thesis
    using f64_round_small [of "of_nat n" 53] by simp
qed

section \<open>Parsing\<close>

text \<open>
  \<^verbatim>\<open>f64::from_str\<close>: an optional sign, then a decimal number with an optional fraction and an
  optional exponent, or a name of infinity or NaN in any case; the value is rounded once.
\<close>

definition parse_exponent :: "string \<Rightarrow> int option" where
  "parse_exponent s =
     (let (neg, ds) = (case s of
          [] \<Rightarrow> (False, [])
        | c # r \<Rightarrow> if c = CHR ''-'' then (True, r) else if c = CHR ''+'' then (False, r) else (False, s)) in
      if ds = [] \<or> \<not> list_all is_ascii_digit ds then None
      else Some (if neg then - int (digits_val ds) else int (digits_val ds)))"

definition pow10 :: "int \<Rightarrow> rat" where
  "pow10 e = (if 0 \<le> e then 10 ^ nat e else 1 / 10 ^ nat (- e))"

definition parse_decimal :: "string \<Rightarrow> rat option" where
  "parse_decimal s =
     (let ip = takeWhile is_ascii_digit s;
          r1 = dropWhile is_ascii_digit s;
          (fp, r2) = (case r1 of
              [] \<Rightarrow> ([], [])
            | c # r \<Rightarrow> if c = CHR ''.'' then (takeWhile is_ascii_digit r, dropWhile is_ascii_digit r)
                      else ([], r1));
          ex = (case r2 of
              [] \<Rightarrow> Some 0
            | c # r \<Rightarrow> if c = CHR ''e'' \<or> c = CHR ''E'' then parse_exponent r else None) in
      if ip = [] \<and> fp = [] then None
      else map_option (\<lambda>e. of_nat (digits_val (ip @ fp)) * pow10 (e - int (length fp))) ex)"

definition parse_special :: "string \<Rightarrow> f64 option" where
  "parse_special s =
     (if eq_ignore_ascii_case s ''nan'' then Some NaN
      else if eq_ignore_ascii_case s ''inf'' \<or> eq_ignore_ascii_case s ''infinity'' then Some (Infinity False)
      else None)"

definition parse_f64 :: "string \<Rightarrow> f64 option" where
  "parse_f64 s =
     (let (neg, r) = (case s of
          [] \<Rightarrow> (False, [])
        | c # r \<Rightarrow> if c = CHR ''-'' then (True, r) else if c = CHR ''+'' then (False, r) else (False, s)) in
      if r = [] then None
      else map_option (\<lambda>x. if neg then f64_neg x else x)
        (case parse_decimal r of
           Some q \<Rightarrow> Some (f64_round q)
         | None \<Rightarrow> parse_special r))"

lemma digit_not_sign: "is_ascii_digit c \<Longrightarrow> c \<noteq> CHR ''+'' \<and> c \<noteq> CHR ''-''"
  by (auto simp: is_ascii_digit_def)

lemma parse_decimal_digits:
  assumes "s \<noteq> []" and "list_all is_ascii_digit s"
  shows "parse_decimal s = Some (of_nat (digits_val s))"
proof -
  have span: "takeWhile is_ascii_digit s = s" "dropWhile is_ascii_digit s = []"
    using assms by (simp_all add: list_all_iff)
  show ?thesis
    unfolding parse_decimal_def span using assms(1) by (simp add: pow10_def)
qed

lemma parse_f64_show_nat: "parse_f64 (show_nat n) = Some (f64_of_nat n)"
proof -
  have s: "show_nat n \<noteq> []" "list_all is_ascii_digit (show_nat n)" "digits_val (show_nat n) = n"
    using show_nat_digits [of n] by auto
  then obtain c r where "show_nat n = c # r" "is_ascii_digit c"
    by (cases "show_nat n") auto
  then show ?thesis
    using s parse_decimal_digits [of "show_nat n"] digit_not_sign [of c]
    by (simp add: parse_f64_def f64_of_nat_def)
qed

end
