(* ===== verification/Config.thy ===== *)
theory Config
  imports Config_Types Float64
begin

text \<open>
  Loading a configuration (\<^verbatim>\<open>config.rs\<close>): parsing with the format of the file extension,
  validation of the server and client sections with the completion of names, tokens and
  intervals, validation of the transport, and the bandwidth limit strings.

  The toml, yaml and json parsers of the serde crates are parameters. Validation updates the
  services in place, in the iteration order of the map, and stops at the first error; a
  configuration that fails is never used, so a failure carries only the error.
\<close>

section \<open>Errors\<close>

datatype bandwidth_error = InvalidUnit | InvalidNumber string

datatype config_error =
    ParseFailed
  | ReadFailed
  | NoInstance
  | TokenNotSet string
  | BindAddrRequired string
  | DomainsRequired string service_type
  | SecretKeyRequired string service_type
  | PortNotAllowed string u16
  | HealthCheckType string string
  | HealthCheckPath string
  | InvalidBandwidth string string bandwidth_error
  | ProxyProtocolVersion string string
  | LocalAddrRequired string
  | UnknownProxyScheme string
  | MissingTls
  | MissingPkcs12
  | QuicMissingTls
  | QuicMissingPkcs12

section \<open>Bandwidth limits\<close>

definition bandwidth_unit :: "string \<Rightarrow> (string \<times> nat) option" where
  "bandwidth_unit s =
     (case strip_suffix s ''MB'' of
        Some n \<Rightarrow> Some (n, 1024 * 1024)
      | None \<Rightarrow> (case strip_suffix s ''KB'' of
          Some n \<Rightarrow> Some (n, 1024)
        | None \<Rightarrow> (case strip_suffix s ''B'' of
            Some n \<Rightarrow> Some (n, 1)
          | None \<Rightarrow> None)))"

definition parse_bandwidth_limit :: "string \<Rightarrow> bandwidth_error + u64" where
  "parse_bandwidth_limit s =
     (let s = trim s in
      if s = [] then Inr 0
      else rbind (ok_or (bandwidth_unit s) InvalidUnit) (\<lambda>(num_str, unit).
        rbind (ok_or (parse_f64 (trim num_str)) (InvalidNumber num_str)) (\<lambda>num.
          Inr (of_nat (f64_as_u64 (f64_mul num (f64_of_nat unit)))))))"

section \<open>Transport\<close>

definition validate_transport_config :: "transport_config \<Rightarrow> bool \<Rightarrow> config_error + unit" where
  "validate_transport_config config is_server =
     rbind (case tcp_proxy (tr_tcp config) of
         None \<Rightarrow> Inr ()
       | Some u \<Rightarrow> require (url_scheme u = ''socks5'' \<or> url_scheme u = ''http'') (UnknownProxyScheme (url_scheme u)))
     (\<lambda>_. case tr_transport_type config of
         TTls \<Rightarrow> rbind (ok_or (tr_tls config) MissingTls) (\<lambda>tls.
           if is_server
           then require (tls_pkcs12 tls \<noteq> None \<and> tls_pkcs12_password tls \<noteq> None) MissingPkcs12
           else Inr ())
       | TQuic \<Rightarrow>
           if is_server
           then rbind (ok_or (tr_tls config) QuicMissingTls) (\<lambda>tls.
             require (tls_pkcs12 tls \<noteq> None \<and> tls_pkcs12_password tls \<noteq> None) QuicMissingPkcs12)
           else Inr ()
       | TTcp \<Rightarrow> Inr ()
       | TNoise \<Rightarrow> Inr ()
       | TWebsocket \<Rightarrow> Inr ()
       | TKcp \<Rightarrow> Inr ())"

section \<open>Services\<close>

text \<open>The body of a loop over \<^verbatim>\<open>&mut services\<close> that may bail.\<close>

fun hm_try_map :: "('k \<Rightarrow> 'v \<Rightarrow> 'e + 'w) \<Rightarrow> ('k, 'v) hmap \<Rightarrow> 'e + ('k, 'w) hmap" where
  "hm_try_map f [] = Inr []"
| "hm_try_map f ((k, v) # m) =
     rbind (f k v) (\<lambda>w. rbind (hm_try_map f m) (\<lambda>m'. Inr ((k, w) # m')))"

text \<open>A token is that of the service, else that of the auth section, else the default.\<close>

definition resolve_token :: "auth_config option \<Rightarrow> string option \<Rightarrow> string option \<Rightarrow> string option" where
  "resolve_token auth dflt own =
     (case own of
        Some t \<Rightarrow> Some t
      | None \<Rightarrow>
          (let t = (case auth of Some a \<Rightarrow> auth_token a | None \<Rightarrow> None) in
           if t = None then dflt else t))"

definition check_bandwidth :: "string \<Rightarrow> string option \<Rightarrow> config_error + unit" where
  "check_bandwidth name bw =
     (case bw of
        None \<Rightarrow> Inr ()
      | Some b \<Rightarrow> map_err (InvalidBandwidth name b) (rbind (parse_bandwidth_limit b) (\<lambda>_. Inr ())))"

definition check_ports :: "port_range list option \<Rightarrow> string \<Rightarrow> server_service_config \<Rightarrow> config_error + unit" where
  "check_ports allow_ports name s =
     (case allow_ports of
        None \<Rightarrow> Inr ()
      | Some ranges \<Rightarrow>
          if ss_needs_bind_addr s \<and> ss_bind_addr s \<noteq> [] then
            (case parse_u16 (rsplit_first CHR '':'' (ss_bind_addr s)) of
               Some port \<Rightarrow> require (\<not> (port > 0 \<and> \<not> (\<exists>r \<in> set ranges. pr_contains r port)))
                 (PortNotAllowed name port)
             | None \<Rightarrow> Inr ())
          else Inr ())"

definition check_health :: "string \<Rightarrow> health_check_config option \<Rightarrow> config_error + unit" where
  "check_health name hc =
     (case hc of
        None \<Rightarrow> Inr ()
      | Some h \<Rightarrow>
          rbind (require (\<not> (hc_check_type h \<noteq> ''tcp'' \<and> hc_check_type h \<noteq> ''http''))
            (HealthCheckType name (hc_check_type h))) (\<lambda>_.
          require (\<not> (hc_check_type h = ''http'' \<and> hc_path h = None)) (HealthCheckPath name)))"

definition check_proxy_protocol :: "string \<Rightarrow> string option \<Rightarrow> config_error + unit" where
  "check_proxy_protocol name ppv =
     (case ppv of
        None \<Rightarrow> Inr ()
      | Some v \<Rightarrow> require (\<not> (v \<noteq> ''v1'' \<and> v \<noteq> ''v2'')) (ProxyProtocolVersion name v))"

definition validate_server_service ::
  "server_config \<Rightarrow> string \<Rightarrow> server_service_config \<Rightarrow> config_error + server_service_config" where
  "validate_server_service server name s =
     (let s = s\<lparr>ss_name := name\<rparr> in
      if \<not> ss_is_enabled s then Inr s
      else
        rbind (ok_or (resolve_token (sc_auth server) (sc_default_token server) (ss_token s))
          (TokenNotSet name)) (\<lambda>t.
        let s = s\<lparr>ss_token := Some t\<rparr> in
        rbind (require (\<not> (ss_needs_bind_addr s \<and> ss_bind_addr s = [])) (BindAddrRequired name)) (\<lambda>_.
        rbind (require (\<not> (ss_service_type s \<in> {Http, Https} \<and> ss_custom_domains s = None \<and> ss_subdomain s = None))
          (DomainsRequired name (ss_service_type s))) (\<lambda>_.
        rbind (require (\<not> (ss_service_type s \<in> {Stcp, Sudp, Xtcp} \<and> ss_secret_key s = None))
          (SecretKeyRequired name (ss_service_type s))) (\<lambda>_.
        rbind (check_ports (sc_allow_ports server) name s) (\<lambda>_.
        rbind (check_health name (ss_health_check s)) (\<lambda>_.
        rbind (check_bandwidth name (ss_bandwidth_limit s)) (\<lambda>_.
        rbind (check_proxy_protocol name (ss_proxy_protocol_version s)) (\<lambda>_.
        Inr s)))))))))"

definition validate_server_config :: "server_config \<Rightarrow> config_error + server_config" where
  "validate_server_config server =
     rbind (hm_try_map (validate_server_service server) (sc_services server)) (\<lambda>services.
     rbind (validate_transport_config (sc_transport server) True) (\<lambda>_.
     Inr (server\<lparr>sc_services := services\<rparr>)))"

definition client_service_name :: "client_config \<Rightarrow> string \<Rightarrow> string" where
  "client_service_name client name =
     (case cc_user client of None \<Rightarrow> name | Some user \<Rightarrow> user @ ''.'' @ name)"

text \<open>The token, the retry interval and the address preference, as the loop body sets them.\<close>

definition fill_client_service :: "client_config \<Rightarrow> string \<Rightarrow> client_service_config \<Rightarrow> client_service_config" where
  "fill_client_service client t s =
     (let s = s\<lparr>cs_token := Some t\<rparr>;
          s = (if cs_retry_interval s = None
               then s\<lparr>cs_retry_interval := Some (cc_retry_interval client)\<rparr> else s) in
      case cc_prefer_ipv6 client of
        Some p \<Rightarrow> if \<not> cs_prefer_ipv6 s then s\<lparr>cs_prefer_ipv6 := p\<rparr> else s
      | None \<Rightarrow> s)"

definition validate_client_service ::
  "client_config \<Rightarrow> string \<Rightarrow> client_service_config \<Rightarrow> config_error + client_service_config" where
  "validate_client_service client name s =
     (let s = s\<lparr>cs_name := client_service_name client name\<rparr> in
      if \<not> cs_is_enabled s then Inr s
      else if (case cc_start client of Some start \<Rightarrow> name \<notin> set start | None \<Rightarrow> False) then Inr s
      else
        rbind (ok_or (resolve_token (cc_auth client) (cc_default_token client) (cs_token s))
          (TokenNotSet name)) (\<lambda>t.
        let s = fill_client_service client t s in
        rbind (require (cs_is_visitor s \<or>
            \<not> (cs_service_type s \<notin> {Http, Https} \<and> cs_local_addr s = [] \<and> cs_plugin s = None))
          (LocalAddrRequired name)) (\<lambda>_.
        rbind (check_bandwidth name (cs_bandwidth_limit s)) (\<lambda>_.
        Inr s))))"

definition validate_client_config :: "client_config \<Rightarrow> config_error + client_config" where
  "validate_client_config client =
     rbind (hm_try_map (validate_client_service client) (cc_services client)) (\<lambda>services.
     rbind (validate_transport_config (cc_transport client) False) (\<lambda>_.
     Inr (client\<lparr>cc_services := services\<rparr>)))"

section \<open>Loading\<close>

type_synonym parser = "string \<Rightarrow> config option"

fun opt_try :: "('a \<Rightarrow> 'e + 'b) \<Rightarrow> 'a option \<Rightarrow> 'e + 'b option" where
  "opt_try f None = Inr None"
| "opt_try f (Some x) = rbind (f x) (\<lambda>y. Inr (Some y))"

definition load_with :: "parser \<Rightarrow> string \<Rightarrow> config_error + config" where
  "load_with parse s =
     rbind (ok_or (parse s) ParseFailed) (\<lambda>config.
     rbind (opt_try validate_server_config (cfg_server config)) (\<lambda>server.
     rbind (opt_try validate_client_config (cfg_client config)) (\<lambda>client.
     let config = \<lparr>cfg_server = server, cfg_client = client\<rparr> in
     if cfg_server config = None \<and> cfg_client config = None then Inl NoInstance else Inr config)))"

definition from_str :: "parser \<Rightarrow> string \<Rightarrow> config_error + config" where
  "from_str toml s = load_with toml s"

definition from_yaml :: "parser \<Rightarrow> string \<Rightarrow> config_error + config" where
  "from_yaml yaml s = load_with yaml s"

definition from_json :: "parser \<Rightarrow> string \<Rightarrow> config_error + config" where
  "from_json json s = load_with json s"

text \<open>\<open>ext\<close> is the extension of the path, if it has one that is valid UTF-8; \<open>contents\<close> what the file holds, if it can be read.\<close>

definition from_file ::
  "parser \<Rightarrow> parser \<Rightarrow> parser \<Rightarrow> string option \<Rightarrow> string option \<Rightarrow> config_error + config" where
  "from_file toml yaml json ext contents =
     rbind (ok_or contents ReadFailed) (\<lambda>s.
     let ext = (case ext of Some e \<Rightarrow> e | None \<Rightarrow> ''toml'') in
     if ext = ''yaml'' \<or> ext = ''yml'' then from_yaml yaml s
     else if ext = ''json'' then from_json json s
     else from_str toml s)"

section \<open>Loops over the services\<close>

lemma hm_try_map_keys: "hm_try_map f m = Inr m' \<Longrightarrow> map fst m' = map fst m"
  by (induction m arbitrary: m') (auto simp: result_iff)

lemma hm_try_map_get:
  assumes "hm_try_map f m = Inr m'"
  shows "hm_get m' k = (case hm_get m k of None \<Rightarrow> None | Some v \<Rightarrow> (case f k v of Inr w \<Rightarrow> Some w | Inl e \<Rightarrow> None))"
  using assms by (induction m arbitrary: m') (auto simp: result_iff hm_get_def)

lemma hm_try_map_in_set:
  assumes "hm_try_map f m = Inr m'" and "(k, w) \<in> set m'"
  shows "\<exists>v. (k, v) \<in> set m \<and> f k v = Inr w"
  using assms by (induction m arbitrary: m') (auto simp: result_iff, blast+)

lemma hm_try_map_is_ok: "is_ok (hm_try_map f m) \<longleftrightarrow> (\<forall>(k, v) \<in> set m. is_ok (f k v))"
  by (induction m) (auto simp: is_ok_iff result_iff)

lemma hm_try_map_fixpoint:
  assumes "\<And>k v. (k, v) \<in> set m \<Longrightarrow> f k v = Inr v"
  shows "hm_try_map f m = Inr m"
  using assms by (induction m) auto

section \<open>What the checks mean\<close>

text \<open>
  The requirements on a service that the server will run, stated without the control flow of
  the validation.
\<close>

definition bandwidth_ok :: "string option \<Rightarrow> bool" where
  "bandwidth_ok bw \<longleftrightarrow> (\<forall>b. bw = Some b \<longrightarrow> is_ok (parse_bandwidth_limit b))"

definition ports_ok :: "port_range list option \<Rightarrow> server_service_config \<Rightarrow> bool" where
  "ports_ok allow s \<longleftrightarrow>
     (\<forall>ranges port. allow = Some ranges \<and> ss_needs_bind_addr s \<and>
        parse_u16 (rsplit_first CHR '':'' (ss_bind_addr s)) = Some port \<and> port \<noteq> 0 \<longrightarrow>
        (\<exists>r \<in> set ranges. pr_start r \<le> port \<and> port \<le> pr_end r))"

definition health_ok :: "health_check_config option \<Rightarrow> bool" where
  "health_ok hc \<longleftrightarrow>
     (\<forall>h. hc = Some h \<longrightarrow> hc_check_type h = ''tcp'' \<or> hc_check_type h = ''http'' \<and> hc_path h \<noteq> None)"

definition servable :: "port_range list option \<Rightarrow> server_service_config \<Rightarrow> bool" where
  "servable allow s \<longleftrightarrow>
     (ss_service_type s \<in> {Tcp, Udp} \<longrightarrow> ss_bind_addr s \<noteq> []) \<and>
     (ss_service_type s \<in> {Http, Https} \<longrightarrow> ss_custom_domains s \<noteq> None \<or> ss_subdomain s \<noteq> None) \<and>
     (ss_service_type s \<in> {Stcp, Sudp, Xtcp} \<longrightarrow> ss_secret_key s \<noteq> None) \<and>
     ports_ok allow s \<and> health_ok (ss_health_check s) \<and> bandwidth_ok (ss_bandwidth_limit s) \<and>
     (\<forall>v. ss_proxy_protocol_version s = Some v \<longrightarrow> v = ''v1'' \<or> v = ''v2'')"

definition transport_ok :: "transport_config \<Rightarrow> bool \<Rightarrow> bool" where
  "transport_ok t is_server \<longleftrightarrow>
     (\<forall>u. tcp_proxy (tr_tcp t) = Some u \<longrightarrow> url_scheme u = ''socks5'' \<or> url_scheme u = ''http'') \<and>
     (tr_transport_type t = TTls \<or> tr_transport_type t = TQuic \<and> is_server \<longrightarrow>
        (\<exists>tls. tr_tls t = Some tls \<and>
           (is_server \<longrightarrow> tls_pkcs12 tls \<noteq> None \<and> tls_pkcs12_password tls \<noteq> None)))"

lemma check_bandwidth_ok [result_iff]: "check_bandwidth name bw = Inr u \<longleftrightarrow> bandwidth_ok bw"
  by (cases bw) (auto simp: check_bandwidth_def bandwidth_ok_def result_iff is_ok_iff)

lemma parse_u16_empty: "parse_u16 (rsplit_first c []) = None"
  by (simp add: rsplit_first_def parse_u16_def parse_unsigned_def)

lemma check_ports_ok [result_iff]: "check_ports allow name s = Inr u \<longleftrightarrow> ports_ok allow s"
proof (cases "ss_bind_addr s = []")
  case True
  then show ?thesis
    by (cases allow) (simp_all add: check_ports_def ports_ok_def parse_u16_empty)
next
  case False
  then show ?thesis
    by (cases allow; cases "parse_u16 (rsplit_first CHR '':'' (ss_bind_addr s))")
      (auto simp: check_ports_def ports_ok_def pr_contains_def result_iff word_gt_0)
qed

lemma check_health_ok [result_iff]: "check_health name hc = Inr u \<longleftrightarrow> health_ok hc"
  by (cases hc) (auto simp: check_health_def health_ok_def result_iff)

lemma check_proxy_protocol_ok [result_iff]:
  "check_proxy_protocol name ppv = Inr u \<longleftrightarrow> (\<forall>v. ppv = Some v \<longrightarrow> v = ''v1'' \<or> v = ''v2'')"
  by (cases ppv) (auto simp: check_proxy_protocol_def result_iff)

lemma validate_transport_config_iff [result_iff]:
  "validate_transport_config t b = Inr u \<longleftrightarrow> transport_ok t b"
  by (cases "tcp_proxy (tr_tcp t)"; cases "tr_transport_type t"; cases b)
    (auto simp: validate_transport_config_def transport_ok_def result_iff)

lemma ss_update_enabled [simp]:
  "ss_is_enabled (s\<lparr>ss_name := n\<rparr>) = ss_is_enabled s" "ss_is_enabled (s\<lparr>ss_token := t\<rparr>) = ss_is_enabled s"
  by (simp_all add: ss_is_enabled_def)

lemma ports_ok_update [simp]:
  "ports_ok allow (s\<lparr>ss_name := n\<rparr>) = ports_ok allow s" "ports_ok allow (s\<lparr>ss_token := t\<rparr>) = ports_ok allow s"
  by (simp_all add: ports_ok_def ss_needs_bind_addr_def)

lemma servable_update [simp]:
  "servable allow (s\<lparr>ss_name := n\<rparr>) = servable allow s" "servable allow (s\<lparr>ss_token := t\<rparr>) = servable allow s"
  by (simp_all add: servable_def)

lemma validate_server_service_iff [result_iff]:
  "validate_server_service c name s = Inr s' \<longleftrightarrow>
     (if ss_is_enabled s
      then servable (sc_allow_ports c) s \<and>
        (\<exists>t. resolve_token (sc_auth c) (sc_default_token c) (ss_token s) = Some t \<and>
          s' = s\<lparr>ss_name := name, ss_token := Some t\<rparr>)
      else s' = s\<lparr>ss_name := name\<rparr>)"
  by (auto simp: validate_server_service_def servable_def result_iff Let_def ss_needs_bind_addr_def)

lemma resolve_token_some [simp]: "resolve_token auth dflt (Some t) = Some t"
  by (simp add: resolve_token_def)

lemma validate_server_config_iff:
  "validate_server_config c = Inr c' \<longleftrightarrow>
     (\<exists>m. hm_try_map (validate_server_service c) (sc_services c) = Inr m \<and>
        transport_ok (sc_transport c) True \<and> c' = c\<lparr>sc_services := m\<rparr>)"
  by (auto simp: validate_server_config_def result_iff)

text \<open>A service that the client starts: enabled, and named by the start list if there is one.\<close>

definition client_selected :: "client_config \<Rightarrow> string \<Rightarrow> client_service_config \<Rightarrow> bool" where
  "client_selected c name s \<longleftrightarrow>
     cs_is_enabled s \<and> (\<forall>start. cc_start c = Some start \<longrightarrow> name \<in> set start)"

definition startable :: "client_service_config \<Rightarrow> bool" where
  "startable s \<longleftrightarrow>
     (\<not> cs_is_visitor s \<and> cs_service_type s \<notin> {Http, Https} \<longrightarrow> cs_local_addr s \<noteq> [] \<or> cs_plugin s \<noteq> None) \<and>
     bandwidth_ok (cs_bandwidth_limit s)"

text \<open>The service with its name, token, retry interval and address preference filled in.\<close>

definition complete_client_service ::
  "client_config \<Rightarrow> string \<Rightarrow> string \<Rightarrow> client_service_config \<Rightarrow> client_service_config" where
  "complete_client_service c name t s =
     s\<lparr>cs_name := client_service_name c name, cs_token := Some t,
       cs_retry_interval := Some (case cs_retry_interval s of Some r \<Rightarrow> r | None \<Rightarrow> cc_retry_interval c),
       cs_prefer_ipv6 := cs_prefer_ipv6 s \<or> cc_prefer_ipv6 c = Some True\<rparr>"

lemma fill_client_service_eq:
  "fill_client_service c t (s\<lparr>cs_name := client_service_name c name\<rparr>) = complete_client_service c name t s"
  by (cases "cs_retry_interval s"; cases "cc_prefer_ipv6 c"; cases "cs_prefer_ipv6 s")
    (simp_all add: fill_client_service_def complete_client_service_def)

lemma complete_client_service_sel [simp]:
  "cs_is_enabled (complete_client_service c name t s) = cs_is_enabled s"
  "cs_is_visitor (complete_client_service c name t s) = cs_is_visitor s"
  "cs_service_type (complete_client_service c name t s) = cs_service_type s"
  "cs_local_addr (complete_client_service c name t s) = cs_local_addr s"
  "cs_plugin (complete_client_service c name t s) = cs_plugin s"
  "cs_bandwidth_limit (complete_client_service c name t s) = cs_bandwidth_limit s"
  "cs_token (complete_client_service c name t s) = Some t"
  "cs_name (complete_client_service c name t s) = client_service_name c name"
  "cs_retry_interval (complete_client_service c name t s) =
     Some (case cs_retry_interval s of Some r \<Rightarrow> r | None \<Rightarrow> cc_retry_interval c)"
  by (simp_all add: complete_client_service_def cs_is_enabled_def cs_is_visitor_def)

lemma validate_client_service_iff [result_iff]:
  "validate_client_service c name s = Inr s' \<longleftrightarrow>
     (if client_selected c name s
      then startable s \<and>
        (\<exists>t. resolve_token (cc_auth c) (cc_default_token c) (cs_token s) = Some t \<and>
          s' = complete_client_service c name t s)
      else s' = s\<lparr>cs_name := client_service_name c name\<rparr>)"
  by (cases "cc_start c")
    (auto simp: validate_client_service_def startable_def client_selected_def cs_is_enabled_def
      fill_client_service_eq Let_def result_iff)

lemma validate_client_config_iff:
  "validate_client_config c = Inr c' \<longleftrightarrow>
     (\<exists>m. hm_try_map (validate_client_service c) (cc_services c) = Inr m \<and>
        transport_ok (cc_transport c) False \<and> c' = c\<lparr>cc_services := m\<rparr>)"
  by (auto simp: validate_client_config_def result_iff)

section \<open>Properties\<close>

lemma validate_server_service_again:
  assumes "validate_server_service c k v = Inr s"
  shows "validate_server_service (c\<lparr>sc_services := m\<rparr>) k s = Inr s"
  using assms by (auto simp: result_iff split: if_splits)

lemma validate_client_service_again:
  assumes "validate_client_service c k v = Inr s"
  shows "validate_client_service (c\<lparr>cc_services := m\<rparr>) k s = Inr s"
proof (cases "client_selected c k v")
  case True
  with assms obtain t where "startable v" and s: "s = complete_client_service c k t v"
    by (auto simp: result_iff)
  moreover have "complete_client_service (c\<lparr>cc_services := m\<rparr>) k t s = s"
    by (simp add: s) (simp add: complete_client_service_def client_service_name_def)
  ultimately show ?thesis
    using True by (simp add: result_iff client_selected_def startable_def)
next
  case False
  with assms have "s = v\<lparr>cs_name := client_service_name c k\<rparr>"
    by (simp add: result_iff)
  with False show ?thesis
    by (auto simp: result_iff client_selected_def cs_is_enabled_def client_service_name_def)
qed

lemma validate_server_again:
  assumes "validate_server_config c = Inr c'"
  shows "validate_server_config c' = Inr c'"
proof -
  obtain m where m: "hm_try_map (validate_server_service c) (sc_services c) = Inr m"
    and t: "transport_ok (sc_transport c) True" and c': "c' = c\<lparr>sc_services := m\<rparr>"
    using assms by (auto simp: validate_server_config_iff)
  have "hm_try_map (validate_server_service c') m = Inr m"
    unfolding c' by (rule hm_try_map_fixpoint) (use hm_try_map_in_set [OF m] validate_server_service_again in blast)
  with t show ?thesis by (simp add: validate_server_config_iff c')
qed

lemma validate_client_again:
  assumes "validate_client_config c = Inr c'"
  shows "validate_client_config c' = Inr c'"
proof -
  obtain m where m: "hm_try_map (validate_client_service c) (cc_services c) = Inr m"
    and t: "transport_ok (cc_transport c) False" and c': "c' = c\<lparr>cc_services := m\<rparr>"
    using assms by (auto simp: validate_client_config_iff)
  have "hm_try_map (validate_client_service c') m = Inr m"
    unfolding c' by (rule hm_try_map_fixpoint) (use hm_try_map_in_set [OF m] validate_client_service_again in blast)
  with t show ?thesis by (simp add: validate_client_config_iff c')
qed


definition example_server :: server_config where
  "example_server = default_server_config\<lparr>sc_bind_addr := ''0.0.0.0:2333'', sc_default_token := Some ''t'',
     sc_allow_ports := Some [\<lparr>pr_start = 5000, pr_end = 6000\<rparr>],
     sc_services := [(''ssh'', (ss_with_name [])\<lparr>ss_bind_addr := ''0.0.0.0:5202''\<rparr>)]\<rparr>"

definition example_server_checked :: server_config where
  "example_server_checked = example_server\<lparr>sc_services :=
     [(''ssh'', (ss_with_name ''ssh'')\<lparr>ss_bind_addr := ''0.0.0.0:5202'', ss_token := Some ''t''\<rparr>)]\<rparr>"

lemmas example_defs = example_server_def example_server_checked_def default_server_config_def
  default_client_config_def default_transport_def default_tcp_def ss_with_name_def cs_with_name_def
  transport_ok_def servable_def ports_ok_def ss_needs_bind_addr_def ss_is_enabled_def health_ok_def
  bandwidth_ok_def resolve_token_def rsplit_first_def parse_u16_def parse_unsigned_def
  is_ascii_digit_def digits_val_def digit_val_def

lemma example_server_valid: "validate_server_config example_server = Inr example_server_checked"
  by (simp add: validate_server_config_iff result_iff example_defs)


text \<open>
  C19. Validation of a server rejects nothing else: it succeeds exactly when the transport is
  complete and every enabled service meets its requirements and finds a token, its own, that of
  the auth section or the default one. Disabled services are not examined.
\<close>

theorem validate_server_accepts:
  "is_ok (validate_server_config c) \<longleftrightarrow>
     transport_ok (sc_transport c) True \<and>
     (\<forall>(k, s) \<in> set (sc_services c). ss_is_enabled s \<longrightarrow>
        servable (sc_allow_ports c) s \<and>
        (ss_token s \<noteq> None \<or> sc_default_token c \<noteq> None \<or>
         (\<exists>a. sc_auth c = Some a \<and> auth_token a \<noteq> None)))"
proof -
  have tok: "(\<exists>t. resolve_token (sc_auth c) (sc_default_token c) own = Some t) \<longleftrightarrow>
      own \<noteq> None \<or> sc_default_token c \<noteq> None \<or> (\<exists>a. sc_auth c = Some a \<and> auth_token a \<noteq> None)" for own
    by (auto simp: resolve_token_def Let_def split: option.splits)
  have "is_ok (validate_server_config c) \<longleftrightarrow> transport_ok (sc_transport c) True \<and>
      is_ok (hm_try_map (validate_server_service c) (sc_services c))"
    by (auto simp: is_ok_iff validate_server_config_iff)
  moreover have "is_ok (validate_server_service c k s) \<longleftrightarrow>
      (ss_is_enabled s \<longrightarrow> servable (sc_allow_ports c) s \<and>
        (\<exists>t. resolve_token (sc_auth c) (sc_default_token c) (ss_token s) = Some t))" for k s
    by (auto simp: is_ok_iff result_iff)
  ultimately show ?thesis
    by (simp only: hm_try_map_is_ok tok)
qed

theorem validate_server_accepts_witness:
  "is_ok (validate_server_config example_server) \<and> transport_ok (sc_transport example_server) True \<and>
   \<not> is_ok (validate_server_config (example_server\<lparr>sc_allow_ports := Some []\<rparr>))"
  using validate_server_accepts [of example_server]
    validate_server_accepts [of "example_server\<lparr>sc_allow_ports := Some []\<rparr>"]
  by (simp add: example_server_valid) (simp add: example_defs)


definition example_client :: client_config where
  "example_client = default_client_config\<lparr>cc_user := Some ''ann'', cc_default_token := Some ''t'',
     cc_retry_interval := 1,
     cc_services := [(''ssh'', (cs_with_name [])\<lparr>cs_local_addr := ''127.0.0.1:22''\<rparr>)]\<rparr>"

definition example_client_checked :: client_config where
  "example_client_checked = example_client\<lparr>cc_services :=
     [(''ssh'', (cs_with_name ''ann.ssh'')\<lparr>cs_local_addr := ''127.0.0.1:22'', cs_token := Some ''t'',
       cs_retry_interval := Some 1\<rparr>)]\<rparr>"

lemmas example_client_defs = example_client_def example_client_checked_def client_selected_def
  startable_def cs_is_enabled_def cs_is_visitor_def complete_client_service_def client_service_name_def

lemma example_client_valid: "validate_client_config example_client = Inr example_client_checked"
  by (simp add: validate_client_config_iff result_iff example_defs example_client_defs)


subsection \<open>Loading\<close>

lemma opt_try_Some: "opt_try f x = Inr (Some b) \<longleftrightarrow> (\<exists>a. x = Some a \<and> f a = Inr b)"
  by (cases x) (auto simp: result_iff)

lemma opt_try_None: "opt_try f x = Inr y \<Longrightarrow> y = None \<longleftrightarrow> x = None"
  by (cases x) (auto simp: result_iff)

lemma opt_try_again:
  assumes "\<And>a b. f a = Inr b \<Longrightarrow> f b = Inr b" and "opt_try f x = Inr y"
  shows "opt_try f y = Inr y"
  using assms by (cases y) (auto simp: opt_try_Some)

lemma load_with_Inr:
  assumes "load_with parse s = Inr cfg"
  obtains raw where "parse s = Some raw" "cfg_server cfg \<noteq> None \<or> cfg_client cfg \<noteq> None"
    "opt_try validate_server_config (cfg_server raw) = Inr (cfg_server cfg)"
    "opt_try validate_client_config (cfg_client raw) = Inr (cfg_client cfg)"
  using assms unfolding load_with_def rbind_Inr_iff ok_or_Inr_iff Let_def by (auto split: if_splits)

text \<open>
  C20. Whatever the file format, loading yields a configuration with at least one section, and
  both sections are fixed points of validation, so reloading an unchanged file changes nothing.
\<close>

theorem from_file_validated:
  assumes "from_file toml yaml json ext contents = Inr cfg"
  shows "(cfg_server cfg \<noteq> None \<or> cfg_client cfg \<noteq> None) \<and>
    opt_try validate_server_config (cfg_server cfg) = Inr (cfg_server cfg) \<and>
    opt_try validate_client_config (cfg_client cfg) = Inr (cfg_client cfg)"
proof -
  obtain parse s where "load_with parse s = Inr cfg"
    using assms unfolding from_file_def rbind_Inr_iff ok_or_Inr_iff Let_def from_str_def from_yaml_def from_json_def
    by (auto split: if_splits)
  then obtain raw where "parse s = Some raw" "cfg_server cfg \<noteq> None \<or> cfg_client cfg \<noteq> None"
    "opt_try validate_server_config (cfg_server raw) = Inr (cfg_server cfg)"
    "opt_try validate_client_config (cfg_client raw) = Inr (cfg_client cfg)"
    by (rule load_with_Inr)
  then show ?thesis
    using opt_try_again validate_server_again validate_client_again by metis
qed

definition example_config :: config where
  "example_config = \<lparr>cfg_server = Some example_server, cfg_client = Some example_client\<rparr>"

definition example_config_checked :: config where
  "example_config_checked = \<lparr>cfg_server = Some example_server_checked, cfg_client = Some example_client_checked\<rparr>"

lemma example_config_loads:
  "from_file (\<lambda>_. Some example_config) (\<lambda>_. None) (\<lambda>_. None) None (Some ''text'') = Inr example_config_checked"
  by (simp add: from_file_def from_str_def load_with_def example_config_def example_config_checked_def
      example_server_valid example_client_valid)

theorem from_file_validated_witness:
  "from_file (\<lambda>_. Some example_config) (\<lambda>_. None) (\<lambda>_. None) None (Some ''text'') = Inr example_config_checked \<and>
   opt_try validate_server_config (cfg_server example_config_checked) = Inr (cfg_server example_config_checked)"
  by (rule conjI [OF example_config_loads conjunct1 [OF conjunct2 [OF from_file_validated [OF example_config_loads]]]])

subsection \<open>Bandwidth limits\<close>

lemma strip_suffix_None: "last s \<noteq> last p \<Longrightarrow> p \<noteq> [] \<Longrightarrow> s \<noteq> [] \<Longrightarrow> strip_suffix s p = None"
  by (metis last_appendR not_None_eq strip_suffix_Some_iff)

lemma strip_suffix_snoc: "strip_suffix (s @ [c]) (p @ [c]) = strip_suffix s p"
  by (rule option.expand) (auto simp: strip_suffix_def)

lemma bandwidth_unit_suffix:
  assumes "num \<noteq> []" and "last num \<noteq> CHR ''M''" and "last num \<noteq> CHR ''K''"
  shows "bandwidth_unit (num @ ''MB'') = Some (num, 1024 * 1024)"
    and "bandwidth_unit (num @ ''KB'') = Some (num, 1024)"
    and "bandwidth_unit (num @ ''B'') = Some (num, 1)"
proof -
  have "strip_suffix (num @ ''KB'') ''MB'' = None" 
    using strip_suffix_snoc [of "num @ ''K''" "CHR ''B''" "''M''"] strip_suffix_None [of "num @ ''K''" "''M''"] by simp
  moreover have "strip_suffix (num @ ''B'') ''MB'' = None" "strip_suffix (num @ ''B'') ''KB'' = None"
    using strip_suffix_snoc [of num "CHR ''B''" "''M''"] strip_suffix_snoc [of num "CHR ''B''" "''K''"]
      strip_suffix_None [of num "''M''"] strip_suffix_None [of num "''K''"] assms by simp_all
  ultimately show "bandwidth_unit (num @ ''KB'') = Some (num, 1024)" "bandwidth_unit (num @ ''B'') = Some (num, 1)"
    by (simp_all add: bandwidth_unit_def)
  show "bandwidth_unit (num @ ''MB'') = Some (num, 1024 * 1024)"
    by (simp add: bandwidth_unit_def)
qed

lemma show_nat_ends: "hd (show_nat n) \<in> set (show_nat n)" "last (show_nat n) \<in> set (show_nat n)"
  using show_nat_digits [of n] by auto

lemma show_nat_graphic: "c \<in> set (show_nat n) \<Longrightarrow> graphic c \<and> c \<noteq> CHR ''M'' \<and> c \<noteq> CHR ''K''"
  using show_nat_digits [of n] by (auto simp: list_all_iff graphic_def is_ascii_digit_def)

lemma trim_show_nat [simp]: "trim (show_nat n) = show_nat n"
  using show_nat_digits [of n] show_nat_graphic [OF show_nat_ends(1)] show_nat_graphic [OF show_nat_ends(2)]
  by (intro trim_graphic) auto

lemma trim_show_nat_append:
  assumes "p \<noteq> []" and "graphic (last p)"
  shows "trim (show_nat n @ p) = show_nat n @ p"
  using assms show_nat_digits [of n] show_nat_graphic [OF show_nat_ends(1)]
  by (intro trim_graphic) (auto simp: hd_append)

lemma parse_bandwidth_unit:
  assumes "bandwidth_unit (show_nat n @ suffix) = Some (show_nat n, u)"
    and "suffix \<noteq> []" and "graphic (last suffix)" and "u < 2 ^ 53" and "n < 2 ^ 53" and "n * u < 2 ^ 53"
  shows "parse_bandwidth_limit (show_nat n @ suffix) = Inr (of_nat (n * u))"
proof -
  have "f64_mul (f64_of_nat n) (f64_of_nat u) = Fin (of_nat (n * u))"
    using assms f64_round_int [of n] f64_round_int [of u] f64_round_int [of "n * u"]
    by (simp add: f64_of_nat_def)
  then have "f64_as_u64 (f64_mul (f64_of_nat n) (f64_of_nat u)) = n * u"
    using assms(6) by (simp only: f64_as_u64.simps floor_of_nat nat_int) simp
  moreover have "show_nat n @ suffix \<noteq> []"
    using assms(2) by simp
  ultimately show ?thesis
    using assms by (simp add: parse_bandwidth_limit_def trim_show_nat_append parse_f64_show_nat)
qed



text \<open>
  The number is not required to be a finite positive one: a negative limit and a NaN are
  accepted and mean zero, which is the value of an absent limit, and an infinite one saturates.
\<close>

theorem parse_bandwidth_nonsense:
  "parse_bandwidth_limit ''-5MB'' = Inr 0 \<and> parse_bandwidth_limit ''nanKB'' = Inr 0 \<and>
   parse_bandwidth_limit [] = Inr 0 \<and> parse_bandwidth_limit ''infB'' = Inr (2 ^ 64 - 1)"
proof -
  have unit: "bandwidth_unit ''-5MB'' = Some (''-5'', 1048576)" "bandwidth_unit ''nanKB'' = Some (''nan'', 1024)"
    "bandwidth_unit ''infB'' = Some (''inf'', 1)"
    by (simp_all add: bandwidth_unit_def strip_suffix_def)
  have trim: "trim ''-5MB'' = ''-5MB''" "trim ''nanKB'' = ''nanKB''" "trim ''infB'' = ''infB''"
    "trim ''-5'' = ''-5''" "trim ''nan'' = ''nan''" "trim ''inf'' = ''inf''"
    by (intro trim_graphic; simp add: graphic_def)+
  have empty: "trim [] = []"
    by (simp add: trim_def trim_start_def trim_end_def strip_leading_Nil)
  have num: "parse_f64 ''-5'' = Some (Fin (- 5))" "parse_f64 ''nan'' = Some NaN" "parse_f64 ''inf'' = Some (Infinity False)"
    using f64_round_int [of 5]
    by (simp_all add: parse_f64_def parse_decimal_def parse_special_def eq_ignore_ascii_case_def
        is_ascii_digit_def digits_val_def digit_val_def pow10_def to_ascii_lowercase_def)
  have neg: "f64_mul (Fin (- 5)) (f64_of_nat 1048576) = Fin (- 5242880)"
    using f64_round_int [of 1048576] f64_round_int [of 5242880]
    by (simp add: f64_of_nat_def f64_round_def Let_def split: if_splits)
  have one: "f64_of_nat (Suc 0) = Fin 1" "f64_mul NaN (f64_of_nat 1024) = NaN"
    using f64_round_int [of 1] by (simp_all add: f64_of_nat_def)
  show ?thesis
    by (simp add: parse_bandwidth_limit_def unit trim empty num neg one)
qed

end
