(* ===== verification/Config_Watcher.thy ===== *)
theory Config_Watcher
  imports Config
begin

text \<open>
  The configuration watcher (\<^verbatim>\<open>config_watcher.rs\<close>): the events that lead from one
  configuration to the next, and the loop that reloads the file and sends them.

  The trait \<^verbatim>\<open>InstanceConfig\<close> is a record of its functions, with the equality of its services;
  \<open>server_instance\<close> and \<open>client_instance\<close> are its two implementations. The locale
  \<open>service_diff\<close> states what a receiver of the events has to do with them, and derives that
  it then ends up with the services of the new configuration.
\<close>

section \<open>Events\<close>

datatype client_service_change = CAdd client_service_config | CDelete string

datatype server_service_change = SAdd server_service_config | SDelete string

datatype config_change =
    General config
  | ServerChange server_service_change
  | ClientChange client_service_change

record ('c, 's) instance_config =
  equal_without_service :: "'c \<Rightarrow> 'c \<Rightarrow> bool"
  service_delete_change :: "string \<Rightarrow> config_change"
  service_add_change :: "'s \<Rightarrow> config_change"
  get_services :: "'c \<Rightarrow> (string, 's) hmap"
  service_eq :: "'s \<Rightarrow> 's \<Rightarrow> bool"

definition server_instance :: "(server_config, server_service_config) instance_config" where
  "server_instance =
     \<lparr>equal_without_service = (\<lambda>l r. server_eq (l\<lparr>sc_services := []\<rparr>) (r\<lparr>sc_services := []\<rparr>)),
      service_delete_change = (\<lambda>s. ServerChange (SDelete s)),
      service_add_change = (\<lambda>cfg. ServerChange (SAdd cfg)),
      get_services = sc_services,
      service_eq = ss_eq\<rparr>"

definition client_instance :: "(client_config, client_service_config) instance_config" where
  "client_instance =
     \<lparr>equal_without_service = (\<lambda>l r. client_eq (l\<lparr>cc_services := []\<rparr>) (r\<lparr>cc_services := []\<rparr>)),
      service_delete_change = (\<lambda>s. ClientChange (CDelete s)),
      service_add_change = (\<lambda>cfg. ClientChange (CAdd cfg)),
      get_services = cc_services,
      service_eq = cs_eq\<rparr>"

definition calculate_instance_config_events ::
  "('c, 's) instance_config \<Rightarrow> 'c \<Rightarrow> 'c \<Rightarrow> config_change list option" where
  "calculate_instance_config_events T old new =
     (if \<not> equal_without_service T old new then None
      else
        let old = get_services T old; new = get_services T new;
            deletions = map (\<lambda>(name, _). service_delete_change T name)
              (filter (\<lambda>(name, _). hm_get new name = None) old);
            addition = map (\<lambda>(_, c). service_add_change T c)
              (filter (\<lambda>(name, c). \<not> opt_eq (service_eq T) (hm_get old name) (Some c)) new)
        in Some (deletions @ addition))"

definition section_events ::
  "('c, 's) instance_config \<Rightarrow> ('c \<Rightarrow> 'c \<Rightarrow> bool) \<Rightarrow> 'c option \<Rightarrow> 'c option \<Rightarrow> config_change list option" where
  "section_events T eq old new =
     (if \<not> opt_eq eq old new then calculate_instance_config_events T (the old) (the new) else Some [])"

definition calculate_events :: "config \<Rightarrow> config \<Rightarrow> config_change list option" where
  "calculate_events old new =
     (if config_eq old new then None
      else if (cfg_server old \<noteq> None) \<noteq> (cfg_server new \<noteq> None) \<or>
              (cfg_client old \<noteq> None) \<noteq> (cfg_client new \<noteq> None)
      then Some [General new]
      else
        case section_events server_instance server_eq (cfg_server old) (cfg_server new) of
          None \<Rightarrow> Some [General new]
        | Some v \<Rightarrow>
            (case section_events client_instance client_eq (cfg_client old) (cfg_client new) of
               None \<Rightarrow> Some [General new]
             | Some w \<Rightarrow> Some (v @ w)))"

section \<open>The watcher loop\<close>

text \<open>
  The inputs of the loop: a modification of the file, with what loading it then gives, the end
  of the notifications, and the shutdown signal. \<open>rx_open\<close> says whether the receiver of the
  events still exists, since sending to a closed channel ends the watcher with an error.
\<close>

datatype watcher_input = FileChanged "config_error + config" | WatchEnded | Shutdown

record watcher =
  w_old :: config
  w_sent :: "config_change list"
  w_running :: bool

definition watcher_new :: "config \<Rightarrow> watcher" where
  "watcher_new origin_cfg = \<lparr>w_old = origin_cfg, w_sent = [General origin_cfg], w_running = True\<rparr>"

definition watcher_step :: "bool \<Rightarrow> watcher_input \<Rightarrow> watcher \<Rightarrow> watcher" where
  "watcher_step rx_open i w =
     (if \<not> w_running w then w
      else case i of
        FileChanged (Inl e) \<Rightarrow> w
      | FileChanged (Inr new) \<Rightarrow>
          (let events = (case calculate_events (w_old w) new of None \<Rightarrow> [] | Some es \<Rightarrow> es) in
           if rx_open \<or> events = [] then w\<lparr>w_sent := w_sent w @ events, w_old := new\<rparr>
           else w\<lparr>w_running := False\<rparr>)
      | WatchEnded \<Rightarrow> w\<lparr>w_running := False\<rparr>
      | Shutdown \<Rightarrow> w\<lparr>w_running := False\<rparr>)"

definition watcher_run :: "watcher_input list \<Rightarrow> watcher \<Rightarrow> watcher" where
  "watcher_run is w = fold (watcher_step True) is w"

section \<open>What a receiver makes of the events\<close>

text \<open>
  A table of services by name, and the two changes of it: this is all that an instance has to
  keep for the events to be right.
\<close>

fun server_table_apply ::
  "config_change \<Rightarrow> (string \<rightharpoonup> server_service_config) \<Rightarrow> (string \<rightharpoonup> server_service_config)" where
  "server_table_apply (ServerChange (SAdd s)) t = t(ss_name s \<mapsto> s)"
| "server_table_apply (ServerChange (SDelete k)) t = t(k := None)"
| "server_table_apply _ t = t"

fun client_table_apply ::
  "config_change \<Rightarrow> (string \<rightharpoonup> client_service_config) \<Rightarrow> (string \<rightharpoonup> client_service_config)" where
  "client_table_apply (ClientChange (CAdd s)) t = t(cs_name s \<mapsto> s)"
| "client_table_apply (ClientChange (CDelete k)) t = t(k := None)"
| "client_table_apply _ t = t"

text \<open>Up to the iteration order of the maps inside a service, which no receiver sees.\<close>

definition same_table :: "('s \<Rightarrow> 's \<Rightarrow> bool) \<Rightarrow> ('k \<rightharpoonup> 's) \<Rightarrow> ('k \<rightharpoonup> 's) \<Rightarrow> bool" where
  "same_table eq t u \<longleftrightarrow> (\<forall>k. rel_option (\<lambda>a b. a = b \<or> eq a b) (t k) (u k))"

locale service_diff =
  fixes T :: "('c, 's) instance_config"
    and key :: "'s \<Rightarrow> string"
    and app :: "config_change \<Rightarrow> (string \<rightharpoonup> 's) \<Rightarrow> (string \<rightharpoonup> 's)"
  assumes app_delete: "app (service_delete_change T k) t = t(k := None)"
    and app_add: "app (service_add_change T s) t = t(key s \<mapsto> s)"
    and eq_trans: "service_eq T a b \<Longrightarrow> service_eq T b c \<Longrightarrow> service_eq T a c"
begin

lemma app_deletions:
  "fold app (map (\<lambda>(name, _). service_delete_change T name) (xs :: (string \<times> 's) list)) t k =
     (if k \<in> fst ` set xs then None else t k)"
  by (induction xs arbitrary: t) (auto simp: app_delete)

lemma app_additions:
  assumes "distinct (map fst xs)" and "\<forall>(k, s) \<in> set xs. key s = k"
  shows "fold app (map (\<lambda>(_, c). service_add_change T c) xs) t k =
     (case map_of xs k of Some s \<Rightarrow> Some s | None \<Rightarrow> t k)"
  using assms
proof (induction xs arbitrary: t)
  case (Cons x xs)
  obtain k' s where x: "x = (k', s)" by force
  have "map_of xs k' = None"
    using Cons.prems by (auto simp: x map_of_eq_None_iff)
  then show ?case
    using Cons.prems by (auto simp: x app_add Cons.IH split: option.splits)
qed simp

lemma map_of_filter_in:
  "distinct (map fst xs) \<Longrightarrow> map_of (filter P xs) k =
     (case map_of xs k of Some v \<Rightarrow> if P (k, v) then Some v else None | None \<Rightarrow> None)"
  by (induction xs) (auto simp: map_of_eq_None_iff split: option.splits)

lemma diff_applied:
  assumes wf: "hm_wf (get_services T old)" "hm_wf (get_services T new)"
    and keys: "\<forall>(k, s) \<in> set (get_services T new). key s = k"
    and events: "calculate_instance_config_events T old new = Some es"
    and t: "same_table (service_eq T) t (hm_get (get_services T old))"
  shows "same_table (service_eq T) (fold app es t) (hm_get (get_services T new))"
proof -
  let ?o = "get_services T old" and ?n = "get_services T new"
  let ?add = "filter (\<lambda>(name, c). \<not> opt_eq (service_eq T) (hm_get ?o name) (Some c)) ?n"
  let ?del = "filter (\<lambda>(name, _). hm_get ?n name = None) ?o"
  have es: "es = map (\<lambda>(name, _). service_delete_change T name) ?del @ map (\<lambda>(_, c). service_add_change T c) ?add"
    using events by (auto simp: calculate_instance_config_events_def Let_def split: if_splits)
  have "distinct (map fst ?add)"
    using wf(2) by (simp add: hm_wf_def distinct_map_filter)
  moreover have "\<forall>(k, s) \<in> set ?add. key s = k"
    using keys by auto
  ultimately have fold_es: "fold app es t k =
      (case map_of ?add k of Some s \<Rightarrow> Some s | None \<Rightarrow> if k \<in> fst ` set ?del then None else t k)" for k
    by (simp add: es app_additions app_deletions split: option.split)
  have add: "map_of ?add k = (case hm_get ?n k of
      Some c \<Rightarrow> if opt_eq (service_eq T) (hm_get ?o k) (Some c) then None else Some c | None \<Rightarrow> None)" for k
    using wf(2) by (simp add: hm_wf_def hm_get_def map_of_filter_in split: option.splits)
  have del: "k \<in> fst ` set ?del \<longleftrightarrow> hm_get ?o k \<noteq> None \<and> hm_get ?n k = None" for k
    by (force simp: hm_get_None_iff)
  have "rel_option (\<lambda>a b. a = b \<or> service_eq T a b) (fold app es t k) (hm_get ?n k)" for k
  proof -
    have "rel_option (\<lambda>a b. a = b \<or> service_eq T a b) (t k) (hm_get ?o k)"
      using t by (simp add: same_table_def)
    then show ?thesis
      unfolding fold_es add del
      by (cases "hm_get ?n k"; cases "hm_get ?o k"; cases "t k") (auto dest: eq_trans)
  qed
  then show ?thesis
    by (simp add: same_table_def)
qed

end

text \<open>A section of the configuration, whose equality compares the services as maps.\<close>

locale instance_section = service_diff T key app
  for T :: "('c, 's) instance_config" and key app +
  fixes sec_eq :: "'c \<Rightarrow> 'c \<Rightarrow> bool"
  assumes sec_eq_services: "sec_eq a b \<Longrightarrow> hm_eq (service_eq T) (get_services T a) (get_services T b)"
begin

lemma section_applied:
  assumes wf: "hm_wf (get_services T old)" "hm_wf (get_services T new)"
    and keys: "\<forall>(k, s) \<in> set (get_services T new). key s = k"
    and events: "section_events T sec_eq (Some old) (Some new) = Some es"
    and t: "same_table (service_eq T) t (hm_get (get_services T old))"
  shows "same_table (service_eq T) (fold app es t) (hm_get (get_services T new))"
proof (cases "sec_eq old new")
  case False
  with assms show ?thesis
    by (intro diff_applied) (auto simp: section_events_def)
next
  case True
  let ?o = "get_services T old" and ?n = "get_services T new"
  have eq: "hm_eq (service_eq T) ?o ?n"
    using True by (rule sec_eq_services)
  have "rel_option (\<lambda>a b. a = b \<or> service_eq T a b) (t k) (hm_get ?n k)" for k
  proof -
    have tk: "rel_option (\<lambda>a b. a = b \<or> service_eq T a b) (t k) (hm_get ?o k)"
      using t by (simp add: same_table_def)
    show ?thesis
    proof (cases "hm_get ?o k")
      case None
      moreover have "hm_get ?n k = None"
        using None hm_eq_keys [OF wf eq] by (simp add: hm_get_None_iff)
      ultimately show ?thesis using tk by simp
    next
      case (Some s)
      then obtain s' where "hm_get ?n k = Some s'" "service_eq T s s'"
        using eq hm_get_in_set [OF Some] by (auto simp: hm_eq_def split: option.splits)
      then show ?thesis
        using tk Some by (cases "t k") (auto dest: eq_trans)
    qed
  qed
  then show ?thesis
    using events True by (simp add: same_table_def section_events_def)
qed

end

lemma hm_eq_trans:
  assumes "hm_eq (=) a b" and "hm_eq (=) b c"
  shows "hm_eq (=) a c"
proof -
  have "hm_get c k = Some v" if "(k, v) \<in> set a" for k v
  proof -
    have "hm_get b k = Some v"
      using that assms(1) by (auto simp: hm_eq_def split: option.splits)
    from hm_get_in_set [OF this] show ?thesis
      using assms(2) by (auto simp: hm_eq_def split: option.splits)
  qed
  then show ?thesis
    using assms by (auto simp: hm_eq_def)
qed

lemma opt_eq_trans:
  "(\<And>x y z. eq x y \<Longrightarrow> eq y z \<Longrightarrow> eq x z) \<Longrightarrow> opt_eq eq a b \<Longrightarrow> opt_eq eq b c \<Longrightarrow> opt_eq eq a c"
  by (cases a; cases b; cases c) auto

lemma ss_eq_trans: "ss_eq a b \<Longrightarrow> ss_eq b c \<Longrightarrow> ss_eq a c"
  unfolding ss_eq_def by (metis (no_types, lifting) opt_eq_trans hm_eq_trans)

lemma cs_eq_trans: "cs_eq a b \<Longrightarrow> cs_eq b c \<Longrightarrow> cs_eq a c"
  unfolding cs_eq_def by (metis (no_types, lifting) opt_eq_trans hm_eq_trans)

interpretation srv: instance_section server_instance ss_name server_table_apply server_eq
  by unfold_locales (auto simp: server_instance_def server_eq_def dest: ss_eq_trans)

interpretation cli: instance_section client_instance cs_name client_table_apply client_eq
  by unfold_locales (auto simp: client_instance_def client_eq_def dest: cs_eq_trans)

section \<open>Properties\<close>

definition server_table :: "config \<Rightarrow> (string \<rightharpoonup> server_service_config)" where
  "server_table cfg = (case cfg_server cfg of None \<Rightarrow> Map.empty | Some c \<Rightarrow> hm_get (sc_services c))"

definition client_table :: "config \<Rightarrow> (string \<rightharpoonup> client_service_config)" where
  "client_table cfg = (case cfg_client cfg of None \<Rightarrow> Map.empty | Some c \<Rightarrow> hm_get (cc_services c))"

text \<open>A receiver restarts from the configuration of a general change and applies the others.\<close>

fun server_receive :: "config_change \<Rightarrow> (string \<rightharpoonup> server_service_config) \<Rightarrow> (string \<rightharpoonup> server_service_config)" where
  "server_receive (General g) t = server_table g"
| "server_receive e t = server_table_apply e t"

fun client_receive :: "config_change \<Rightarrow> (string \<rightharpoonup> client_service_config) \<Rightarrow> (string \<rightharpoonup> client_service_config)" where
  "client_receive (General g) t = client_table g"
| "client_receive e t = client_table_apply e t"

text \<open>A loaded configuration: the maps have no duplicate keys and services carry their keys as names.\<close>

definition server_keyed :: "config \<Rightarrow> bool" where
  "server_keyed cfg \<longleftrightarrow> (\<forall>c. cfg_server cfg = Some c \<longrightarrow>
     hm_wf (sc_services c) \<and> (\<forall>(k, s) \<in> set (sc_services c). ss_name s = k))"

definition client_keyed :: "config \<Rightarrow> bool" where
  "client_keyed cfg \<longleftrightarrow> (\<forall>c. cfg_client cfg = Some c \<longrightarrow>
     hm_wf (cc_services c) \<and> (\<forall>(k, s) \<in> set (cc_services c). cs_name s = k))"

lemma calculate_events_cases:
  assumes "calculate_events old new = Some es"
  obtains (general) "es = [General new]"
  | (changes) v w where "es = v @ w"
      "section_events server_instance server_eq (cfg_server old) (cfg_server new) = Some v"
      "section_events client_instance client_eq (cfg_client old) (cfg_client new) = Some w"
      "cfg_server old = None \<longleftrightarrow> cfg_server new = None" "cfg_client old = None \<longleftrightarrow> cfg_client new = None"
  using assms by (auto simp: calculate_events_def split: if_splits option.splits)

lemma section_events_form:
  assumes "section_events T eq old new = Some es" and "e \<in> set es"
  obtains k where "e = service_delete_change T k" | s where "e = service_add_change T s"
  using assms
  by (auto simp: section_events_def calculate_instance_config_events_def Let_def split: if_splits)

lemma section_events_None: "section_events T eq None None = Some []"
  by (simp add: section_events_def)

lemma server_events_form:
  assumes "section_events server_instance eq old new = Some es" and "e \<in> set es"
  shows "\<exists>ch. e = ServerChange ch"
  using section_events_form [OF assms] by (auto simp: server_instance_def)

lemma client_events_form:
  assumes "section_events client_instance eq old new = Some es" and "e \<in> set es"
  shows "\<exists>ch. e = ClientChange ch"
  using section_events_form [OF assms] by (auto simp: client_instance_def)

lemma fold_ignored: "(\<And>e t. e \<in> set es \<Longrightarrow> f e t = t) \<Longrightarrow> fold f es t = t"
  by (induction es) auto

lemma same_table_refl [simp]: "same_table eq t t"
  by (simp add: same_table_def option.rel_refl)

lemma server_receive_change: "server_receive (ServerChange ch) = server_table_apply (ServerChange ch)"
  by (rule ext) simp

lemma server_section:
  assumes "section_events server_instance server_eq (cfg_server old) (cfg_server new) = Some es"
    and "cfg_server old = None \<longleftrightarrow> cfg_server new = None"
    and "server_keyed old" and "server_keyed new" and "same_table ss_eq t (server_table old)"
  shows "same_table ss_eq (fold server_table_apply es t) (server_table new)"
proof (cases "cfg_server old")
  case None
  then show ?thesis
    using assms by (simp add: section_events_None server_table_def)
next
  case (Some o')
  then obtain n' where n': "cfg_server new = Some n'"
    using assms(2) by auto
  have [simp]: "service_eq server_instance = ss_eq" "get_services server_instance = sc_services"
    by (simp_all add: server_instance_def)
  show ?thesis
    using srv.section_applied [of o' n' es t] assms Some n'
    by (simp add: server_keyed_def server_table_def)
qed

lemma server_receive_events:
  assumes "calculate_events old new = Some es" and "server_keyed old" and "server_keyed new"
    and "same_table ss_eq t (server_table old)"
  shows "same_table ss_eq (fold server_receive es t) (server_table new)"
  using assms(1)
proof (cases rule: calculate_events_cases)
  case general
  then show ?thesis by simp
next
  case (changes v w)
  have "fold server_receive w u = u" for u
    using client_events_form [OF changes(3)] by (intro fold_ignored) fastforce
  moreover have "fold server_receive v t = fold server_table_apply v t"
    using server_events_form [OF changes(2)] server_receive_change by (intro fold_cong) auto
  ultimately show ?thesis
    using server_section [OF changes(2) changes(4) assms(2-4)] changes(1) by simp
qed

lemma client_receive_change: "client_receive (ClientChange ch) = client_table_apply (ClientChange ch)"
  by (rule ext) simp

lemma client_section:
  assumes "section_events client_instance client_eq (cfg_client old) (cfg_client new) = Some es"
    and "cfg_client old = None \<longleftrightarrow> cfg_client new = None"
    and "client_keyed old" and "client_keyed new" and "same_table cs_eq t (client_table old)"
  shows "same_table cs_eq (fold client_table_apply es t) (client_table new)"
proof (cases "cfg_client old")
  case None
  then show ?thesis
    using assms by (simp add: section_events_None client_table_def)
next
  case (Some o')
  then obtain n' where n': "cfg_client new = Some n'"
    using assms(2) by auto
  have [simp]: "service_eq client_instance = cs_eq" "get_services client_instance = cc_services"
    by (simp_all add: client_instance_def)
  show ?thesis
    using cli.section_applied [of o' n' es t] assms Some n'
    by (simp add: client_keyed_def client_table_def)
qed

lemma client_receive_events:
  assumes "calculate_events old new = Some es" and "client_keyed old" and "client_keyed new"
    and "same_table cs_eq t (client_table old)"
  shows "same_table cs_eq (fold client_receive es t) (client_table new)"
  using assms(1)
proof (cases rule: calculate_events_cases)
  case general
  then show ?thesis by simp
next
  case (changes v w)
  have "fold client_receive v u = u" for u
    using server_events_form [OF changes(2)] by (intro fold_ignored) fastforce
  moreover have "fold client_receive w t = fold client_table_apply w t"
    using client_events_form [OF changes(3)] client_receive_change by (intro fold_cong) auto
  ultimately show ?thesis
    using client_section [OF changes(3) changes(5) assms(2-4)] changes(1) by simp
qed

lemma calculate_events_None_iff: "calculate_events old new = None \<longleftrightarrow> config_eq old new"
  by (auto simp: calculate_events_def split: option.splits)

text \<open>Configurations that are equal give equal tables, so sending nothing is right.\<close>

lemma server_receive_none:
  assumes "config_eq old new" and "server_keyed old" and "server_keyed new"
    and "same_table ss_eq t (server_table old)"
  shows "same_table ss_eq t (server_table new)"
  using server_section [of old new "[]" t] assms
  by (cases "cfg_server old"; cases "cfg_server new") (auto simp: config_eq_def section_events_def)

lemma client_receive_none:
  assumes "config_eq old new" and "client_keyed old" and "client_keyed new"
    and "same_table cs_eq t (client_table old)"
  shows "same_table cs_eq t (client_table new)"
  using client_section [of old new "[]" t] assms
  by (cases "cfg_client old"; cases "cfg_client new") (auto simp: config_eq_def section_events_def)

lemma server_receive_step:
  assumes "server_keyed old" and "server_keyed new" and "same_table ss_eq t (server_table old)"
  shows "same_table ss_eq (fold server_receive (case calculate_events old new of None \<Rightarrow> [] | Some es \<Rightarrow> es) t)
    (server_table new)"
  using assms server_receive_none [of old new t] server_receive_events [of old new _ t]
  by (auto simp: calculate_events_None_iff split: option.splits)

lemma client_receive_step:
  assumes "client_keyed old" and "client_keyed new" and "same_table cs_eq t (client_table old)"
  shows "same_table cs_eq (fold client_receive (case calculate_events old new of None \<Rightarrow> [] | Some es \<Rightarrow> es) t)
    (client_table new)"
  using assms client_receive_none [of old new t] client_receive_events [of old new _ t]
  by (auto simp: calculate_events_None_iff split: option.splits)

text \<open>The invariant of the loop: replaying what was sent gives the tables of the last configuration.\<close>

definition watcher_inv :: "watcher \<Rightarrow> bool" where
  "watcher_inv w \<longleftrightarrow>
     server_keyed (w_old w) \<and> client_keyed (w_old w) \<and>
     same_table ss_eq (fold server_receive (w_sent w) Map.empty) (server_table (w_old w)) \<and>
     same_table cs_eq (fold client_receive (w_sent w) Map.empty) (client_table (w_old w))"

lemma watcher_new_inv: "server_keyed c \<Longrightarrow> client_keyed c \<Longrightarrow> watcher_inv (watcher_new c)"
  by (simp add: watcher_inv_def watcher_new_def)

lemma watcher_step_inv [wf_intros]:
  assumes "watcher_inv w" and "\<And>c. i = FileChanged (Inr c) \<Longrightarrow> server_keyed c \<and> client_keyed c"
  shows "watcher_inv (watcher_step rx_open i w)"
proof (cases "\<exists>c. i = FileChanged (Inr c)")
  case False
  with assms(1) show ?thesis
    by (auto simp: watcher_step_def watcher_inv_def split: watcher_input.splits sum.splits)
next
  case True
  then obtain c where i: "i = FileChanged (Inr c)" by blast
  with assms have "server_keyed c" "client_keyed c" by auto
  with assms(1) i show ?thesis
    by (auto simp: watcher_step_def watcher_inv_def Let_def server_receive_step client_receive_step)
qed

lemma watcher_run_inv:
  assumes "watcher_inv w" and "\<And>c. FileChanged (Inr c) \<in> set is \<Longrightarrow> server_keyed c \<and> client_keyed c"
  shows "watcher_inv (watcher_run is w)"
  using assms unfolding watcher_run_def
proof (induction "is" arbitrary: w)
  case (Cons i "is")
  have "watcher_inv (watcher_step True i w)"
    using Cons.prems by (intro watcher_step_inv) auto
  with Cons.IH Cons.prems(2) show ?case by simp
qed simp

text \<open>The configurations that could be loaded, in order; the watcher ends up with the last one.\<close>

fun valid_loads :: "(config_error + config) list \<Rightarrow> config list" where
  "valid_loads [] = []"
| "valid_loads (Inl e # rs) = valid_loads rs"
| "valid_loads (Inr c # rs) = c # valid_loads rs"

lemma watcher_old_last:
  "w_running w \<Longrightarrow> w_old (watcher_run (map FileChanged rs) w) = last (w_old w # valid_loads rs)"
  unfolding watcher_run_def
proof (induction rs arbitrary: w)
  case (Cons r rs)
  show ?case
  proof (cases r)
    case (Inl e)
    with Cons show ?thesis by (simp add: watcher_step_def)
  next
    case (Inr c)
    let ?w = "watcher_step True (FileChanged r) w"
    have "w_old ?w = c" "w_running ?w"
      using Inr Cons.prems by (simp_all add: watcher_step_def Let_def)
    then show ?thesis
      using Cons.IH [of ?w] Inr by simp
  qed
qed simp


lemma validate_server_keyed:
  assumes "validate_server_config c = Inr c'" and "hm_wf (sc_services c)"
  shows "hm_wf (sc_services c') \<and> (\<forall>(k, s) \<in> set (sc_services c'). ss_name s = k)"
proof -
  obtain m where m: "hm_try_map (validate_server_service c) (sc_services c) = Inr m"
    and c': "c' = c\<lparr>sc_services := m\<rparr>"
    using assms(1) by (auto simp: validate_server_config_iff)
  show ?thesis
    using hm_try_map_keys [OF m] hm_try_map_in_set [OF m] assms(2)
    by (fastforce simp: c' hm_wf_def result_iff split: if_splits)
qed

lemma example_config_keyed: "server_keyed example_config_checked"
  using validate_server_keyed [OF example_server_valid]
  by (simp add: server_keyed_def example_config_checked_def example_server_def hm_wf_def)

definition example_reload :: config where
  "example_reload = example_config_checked\<lparr>cfg_client := None\<rparr>"

lemma example_reload_keyed: "server_keyed example_reload \<and> client_keyed example_reload"
  using example_config_keyed by (simp add: example_reload_def server_keyed_def client_keyed_def)


lemma server_events_no_general: "section_events server_instance eq old new = Some es \<Longrightarrow> General g \<notin> set es"
  using server_events_form by fastforce

lemma client_events_no_general: "section_events client_instance eq old new = Some es \<Longrightarrow> General g \<notin> set es"
  using client_events_form by fastforce

text \<open>
  A general change, which restarts the instance, is sent alone and exactly when a section
  appears or disappears or differs in anything but its services; a change of services only is
  never answered with a restart.
\<close>

theorem events_general_iff:
  "(\<exists>es g. calculate_events old new = Some es \<and> General g \<in> set es) \<longleftrightarrow>
     (cfg_server old = None) \<noteq> (cfg_server new = None) \<or> (cfg_client old = None) \<noteq> (cfg_client new = None) \<or>
     (\<exists>a b. cfg_server old = Some a \<and> cfg_server new = Some b \<and> a\<lparr>sc_services := []\<rparr> \<noteq> b\<lparr>sc_services := []\<rparr>) \<or>
     (\<exists>a b. cfg_client old = Some a \<and> cfg_client new = Some b \<and> a\<lparr>cc_services := []\<rparr> \<noteq> b\<lparr>cc_services := []\<rparr>)"
proof -
  have srv: "section_events server_instance server_eq (Some a) (Some b) = None \<longleftrightarrow> a\<lparr>sc_services := []\<rparr> \<noteq> b\<lparr>sc_services := []\<rparr>" for a b
    by (auto simp: section_events_def calculate_instance_config_events_def server_instance_def server_eq_def hm_eq_def Let_def)
  have cli: "section_events client_instance client_eq (Some a) (Some b) = None \<longleftrightarrow> a\<lparr>cc_services := []\<rparr> \<noteq> b\<lparr>cc_services := []\<rparr>" for a b
    by (auto simp: section_events_def calculate_instance_config_events_def client_instance_def client_eq_def hm_eq_def Let_def)
  have eq: "config_eq old new \<Longrightarrow> section_events server_instance server_eq (cfg_server old) (cfg_server new) = Some [] \<and>
      section_events client_instance client_eq (cfg_client old) (cfg_client new) = Some []"
    by (simp add: config_eq_def section_events_def)
  let ?S = "section_events server_instance server_eq (cfg_server old) (cfg_server new)"
    and ?C = "section_events client_instance client_eq (cfg_client old) (cfg_client new)"
  show ?thesis
  proof (cases "(cfg_server old = None) \<noteq> (cfg_server new = None) \<or> (cfg_client old = None) \<noteq> (cfg_client new = None)")
    case True
    then have "calculate_events old new = Some [General new]"
      by (auto simp: calculate_events_def config_eq_def)
    with True show ?thesis by auto
  next
    case False
    have "(\<exists>es g. calculate_events old new = Some es \<and> General g \<in> set es) \<longleftrightarrow> ?S = None \<or> ?C = None"
      using False eq server_events_no_general client_events_no_general
      by (cases ?S; cases ?C) (auto simp: calculate_events_def)
    moreover have "?S = None \<longleftrightarrow> (\<exists>a b. cfg_server old = Some a \<and> cfg_server new = Some b \<and> a\<lparr>sc_services := []\<rparr> \<noteq> b\<lparr>sc_services := []\<rparr>)"
      using False by (cases "cfg_server old"; cases "cfg_server new") (auto simp: srv section_events_None)
    moreover have "?C = None \<longleftrightarrow> (\<exists>a b. cfg_client old = Some a \<and> cfg_client new = Some b \<and> a\<lparr>cc_services := []\<rparr> \<noteq> b\<lparr>cc_services := []\<rparr>)"
      using False by (cases "cfg_client old"; cases "cfg_client new") (auto simp: cli section_events_None)
    ultimately show ?thesis using False by argo
  qed
qed

theorem events_general_iff_witness:
  "\<exists>es g. calculate_events example_reload example_config_checked = Some es \<and> General g \<in> set es"
  unfolding events_general_iff [of example_reload example_config_checked]
  by (simp add: example_reload_def example_config_checked_def)

end
