(* ===== verification/Base64.thy ===== *)
theory Base64
  imports Rust_Str
begin

unbundle bit_operations_syntax

text \<open>
  The two hand-written halves of base64: the encoder of the dashboard
  (\<^verbatim>\<open>dashboard.rs\<close>, \<^verbatim>\<open>simple_base64_encode\<close>) and the decoder of the HTTP proxy
  (\<^verbatim>\<open>http_proxy.rs\<close>, \<^verbatim>\<open>base64_decode_bytes\<close>), both on 32-bit accumulators, and that the second
  undoes the first.
\<close>

section \<open>Definitions\<close>

definition b64_chars :: string where
  "b64_chars = ''ABCDEFGHIJKLMNOPQRSTUVWXYZabcdefghijklmnopqrstuvwxyz0123456789+/''"

fun position :: "('a \<Rightarrow> bool) \<Rightarrow> 'a list \<Rightarrow> nat option" where
  "position P [] = None"
| "position P (x # xs) = (if P x then Some 0 else map_option Suc (position P xs))"

fun base64_decode_loop :: "string \<Rightarrow> u32 \<Rightarrow> nat \<Rightarrow> bytes \<Rightarrow> bytes option" where
  "base64_decode_loop [] buf bits output = Some output"
| "base64_decode_loop (b # input) buf bits output =
     (if b = CHR ''='' then Some output
      else case position (\<lambda>c. c = b) b64_chars of
        None \<Rightarrow> None
      | Some v \<Rightarrow>
          (let buf = push_bit 6 buf OR of_nat v; bits = bits + 6 in
           if bits \<ge> 8 then
             base64_decode_loop input (buf AND (push_bit (bits - 8) 1 - 1)) (bits - 8)
               (output @ [ucast (drop_bit (bits - 8) buf)])
           else base64_decode_loop input buf bits output))"

definition base64_decode_bytes :: "string \<Rightarrow> bytes option" where
  "base64_decode_bytes input = base64_decode_loop input 0 0 []"

definition byte_at :: "bytes \<Rightarrow> nat \<Rightarrow> u32" where
  "byte_at input i = (if i < length input then ucast (input ! i) else 0)"

definition b64_char :: "u32 \<Rightarrow> char" where
  "b64_char v = b64_chars ! unat v"

function base64_encode_loop :: "bytes \<Rightarrow> nat \<Rightarrow> string \<Rightarrow> string" where
  "base64_encode_loop input i output =
     (if i < length input then
        let b0 = byte_at input i; b1 = byte_at input (i + 1); b2 = byte_at input (i + 2);
            triple = push_bit 16 b0 OR push_bit 8 b1 OR b2
        in base64_encode_loop input (i + 3) (output @
             [b64_char (drop_bit 18 triple AND 0x3F), b64_char (drop_bit 12 triple AND 0x3F),
              if i + 1 < length input then b64_char (drop_bit 6 triple AND 0x3F) else CHR ''='',
              if i + 2 < length input then b64_char (triple AND 0x3F) else CHR ''=''])
      else output)"
  by pat_completeness auto
termination by (relation "measure (\<lambda>(input, i, _). length input - i)") auto

declare base64_encode_loop.simps [simp del]

definition simple_base64_encode :: "bytes \<Rightarrow> string" where
  "simple_base64_encode input = base64_encode_loop input 0 []"

section \<open>The alphabet\<close>

lemma position_nth: "distinct xs \<Longrightarrow> i < length xs \<Longrightarrow> position (\<lambda>c. c = xs ! i) xs = Some i"
proof (induction xs arbitrary: i)
  case (Cons x xs)
  then show ?case by (cases i) auto
qed simp

lemma length_b64_chars [simp]: "length b64_chars = 64"
  by (simp add: b64_chars_def)

lemma distinct_b64_chars: "distinct b64_chars"
  by (simp add: b64_chars_def)

lemma pad_not_b64: "CHR ''='' \<notin> set b64_chars"
  by (simp add: b64_chars_def)

lemma position_b64: "n < 64 \<Longrightarrow> position (\<lambda>c. c = b64_chars ! n) b64_chars = Some n"
  by (simp add: position_nth distinct_b64_chars)

lemma b64_nth_not_pad: "n < 64 \<Longrightarrow> b64_chars ! n \<noteq> CHR ''=''"
  using pad_not_b64 nth_mem [of n b64_chars] by (auto simp del: nth_mem)

section \<open>Words as numbers\<close>

lemma or_eq_add_nat:
  assumes "(b :: nat) < 2 ^ n"
  shows "push_bit n a OR b = a * 2 ^ n + b"
proof -
  have "take_bit n b = b"
    using assms by (simp add: take_bit_nat_eq_self)
  then have "\<not> bit b k" if "n \<le> k" for k
    using that by (metis bit_take_bit_iff not_le)
  then have "push_bit n a AND b = 0"
    by (auto simp: bit_eq_iff bit_simps)
  then show ?thesis
    using disjunctive_add_eq_or [of "push_bit n a" b] by (simp add: push_bit_eq_mult)
qed

lemma unat_of_nat_u32: "n < 2 ^ 32 \<Longrightarrow> unat (of_nat n :: u32) = n"
  by (simp add: unsigned_of_nat take_bit_nat_eq_self)

lemma push_or_u32:
  assumes "b < 2 ^ n" and "n \<le> 16" and "a * 2 ^ n + b < 2 ^ 32" and "a < 2 ^ 32"
  shows "push_bit n (of_nat a :: u32) OR of_nat b = of_nat (a * 2 ^ n + b)"
proof -
  have "a * 2 ^ n < 2 ^ 32" using assms(3) by linarith
  then have "push_bit n (of_nat a :: u32) = of_nat (push_bit n a)"
    by (simp add: push_bit_eq_mult of_nat_mult)
  then have "push_bit n (of_nat a :: u32) OR of_nat b = of_nat (push_bit n a OR b)"
    by (simp only: of_nat_or_eq)
  then show ?thesis
    using assms(1) by (simp only: or_eq_add_nat)
qed

lemma drop_bit_u32:
  assumes "n < 2 ^ 32"
  shows "drop_bit k (of_nat n :: u32) = of_nat (n div 2 ^ k)"
proof (rule unsigned_word_eqI [where 'a = nat])
  have "n div 2 ^ k < 2 ^ 32"
    using assms div_le_dividend by (rule le_less_trans [rotated])
  then show "unat (drop_bit k (of_nat n :: u32)) = unat (of_nat (n div 2 ^ k) :: u32)"
    using assms by (simp only: unat_drop_bit_eq unat_of_nat_u32 drop_bit_eq_div [of k n])
qed

lemma ucast_of_nat_byte: "n < 2 ^ 32 \<Longrightarrow> ucast (of_nat n :: u32) = (of_nat n :: byte)"
  by (simp only: unsigned_of_nat take_bit_nat_eq_self len_num0 len_bit0 len_num1) (simp add: take_bit_nat_eq_self)

lemma and_mask_u32: "n < 2 ^ 32 \<Longrightarrow> (of_nat n :: u32) AND (push_bit k 1 - 1) = of_nat (n mod 2 ^ k)"
  by (simp add: mask_eq_exp_minus_1 [symmetric] push_bit_eq_mult take_bit_eq_mask [symmetric]
      flip: of_nat_take_bit take_bit_eq_mod)

section \<open>Decoding character by character\<close>

lemma decode_char:
  assumes "n < 64" and "x < 2 ^ bits" and "bits < 8"
  shows "base64_decode_loop ((b64_chars ! n) # r) (of_nat x) bits out =
    (let y = x * 64 + n in
     if 2 \<le> bits then base64_decode_loop r (of_nat (y mod 2 ^ (bits - 2))) (bits - 2) (out @ [of_nat (y div 2 ^ (bits - 2))])
     else base64_decode_loop r (of_nat y) (bits + 6) out)"
proof -
  have "(2 :: nat) ^ bits \<le> 2 ^ 7"
    using assms(3) by (intro power_increasing) auto
  then have x: "x < 128" using assms(2) by simp
  define y where "y = x * 64 + n"
  have y: "y < 2 ^ 32" using x assms(1) by (simp add: y_def)
  have "push_bit 6 (of_nat x :: u32) OR of_nat n = of_nat y"
    using push_or_u32 [of n 6 x] x assms(1) by (simp add: y_def)
  moreover have "ucast (drop_bit k (of_nat y :: u32)) = (of_nat (y div 2 ^ k) :: byte)" for k
    using y div_le_dividend [of y "2 ^ k"] by (simp only: drop_bit_u32 ucast_of_nat_byte)
  ultimately show ?thesis
    unfolding y_def [symmetric]
    using assms(1) y by (simp add: position_b64 b64_nth_not_pad and_mask_u32 [simplified] Let_def)
qed

lemma triple_u32:
  fixes a b c :: byte
  shows "push_bit 16 (ucast a :: u32) OR push_bit 8 (ucast b) OR ucast c =
    of_nat (unat a * 65536 + unat b * 256 + unat c)"
proof -
  have lt: "unat w < 256" for w :: byte
    using unsigned_less [of w, where 'a = nat] by simp
  have of: "(ucast w :: u32) = of_nat (unat w)" for w :: byte
    by simp
  have "push_bit 8 (ucast b :: u32) OR ucast c = of_nat (unat b * 256 + unat c)"
    unfolding of using push_or_u32 [of "unat c" 8 "unat b"] lt [of b] lt [of c] by simp
  moreover have "push_bit 16 (ucast a :: u32) OR of_nat (unat b * 256 + unat c) =
      of_nat (unat a * 65536 + (unat b * 256 + unat c))"
    unfolding of using push_or_u32 [of "unat b * 256 + unat c" 16 "unat a"] lt [of a] lt [of b] lt [of c] by simp
  ultimately show ?thesis by (simp add: or.assoc add.assoc)
qed

section \<open>Encoding group by group\<close>

lemma b64_char_drop:
  assumes "t < 2 ^ 32"
  shows "b64_char (drop_bit k (of_nat t) AND 0x3F) = b64_chars ! (t div 2 ^ k mod 64)"
proof -
  have lt: "t div 2 ^ k < 2 ^ 32"
    using assms div_le_dividend by (rule le_less_trans [rotated])
  have "(0x3F :: u32) = push_bit 6 1 - 1" by (simp add: push_bit_eq_mult)
  then have "drop_bit k (of_nat t :: u32) AND 0x3F = of_nat (t div 2 ^ k mod 64)"
    using and_mask_u32 [OF lt, of 6] by (simp only: drop_bit_u32 [OF assms]) simp
  moreover have "t div 2 ^ k mod 64 < 2 ^ 32"
    by (rule less_trans [of _ 64]) simp_all
  ultimately show ?thesis
    by (simp only: b64_char_def unat_of_nat_u32)
qed

text \<open>The specification: groups of three bytes as four digits to the base 64, padded at the end.\<close>

definition b64_digit :: "nat \<Rightarrow> nat \<Rightarrow> char" where
  "b64_digit t k = b64_chars ! (t div 2 ^ k mod 64)"

fun b64_spec :: "bytes \<Rightarrow> string" where
  "b64_spec [] = []"
| "b64_spec [a] =
     (let t = unat a * 65536 in [b64_digit t 18, b64_digit t 12, CHR ''='', CHR ''=''])"
| "b64_spec [a, b] =
     (let t = unat a * 65536 + unat b * 256 in [b64_digit t 18, b64_digit t 12, b64_digit t 6, CHR ''=''])"
| "b64_spec (a # b # c # r) =
     (let t = unat a * 65536 + unat b * 256 + unat c in
      [b64_digit t 18, b64_digit t 12, b64_digit t 6, b64_digit t 0] @ b64_spec r)"

lemma unat_byte_less: "unat (w :: byte) < 256"
  using unsigned_less [of w, where 'a = nat] by simp

lemma group_chars:
  fixes a b c :: byte
  assumes "t = unat a * 65536 + unat b * 256 + unat c"
  shows "b64_char (drop_bit k (push_bit 16 (ucast a :: u32) OR push_bit 8 (ucast b) OR ucast c) AND 0x3F) = b64_digit t k"
  unfolding triple_u32 b64_digit_def assms
  using unat_byte_less [of a] unat_byte_less [of b] unat_byte_less [of c] by (intro b64_char_drop) simp

lemma group_char_last:
  fixes a b c :: byte
  assumes "t = unat a * 65536 + unat b * 256 + unat c"
  shows "b64_char ((push_bit 16 (ucast a :: u32) OR push_bit 8 (ucast b) OR ucast c) AND 0x3F) = b64_digit t 0"
  using group_chars [OF assms, of 0] by simp

lemma base64_encode_loop_stop [simp]: "length input \<le> i \<Longrightarrow> base64_encode_loop input i out = out"
  by (subst base64_encode_loop.simps) simp

lemma base64_encode_loop_eq: "base64_encode_loop input i out = out @ b64_spec (drop i input)"
proof (induction "length input - i" arbitrary: i out rule: less_induct)
  case less
  consider (stop) "length input \<le> i" | (one) "length input = Suc i" | (two) "length input = Suc (Suc i)"
    | (more) "Suc (Suc (Suc i)) \<le> length input"
    by linarith
  then show ?case
  proof cases
    case stop
    then show ?thesis by simp
  next
    case one
    then have "drop i input = [input ! i]"
      by (metis Cons_nth_drop_Suc drop_eq_Nil lessI order_refl)
    with one show ?thesis
      using group_chars [of _ "input ! i" 0 0]
      by (subst base64_encode_loop.simps) (simp add: byte_at_def Let_def)
  next
    case two
    then have "drop i input = [input ! i, input ! Suc i]"
      by (metis Cons_nth_drop_Suc drop_eq_Nil lessI less_SucI order_refl)
    with two show ?thesis
      using group_chars [of _ "input ! i" "input ! Suc i" 0]
      by (subst base64_encode_loop.simps) (simp add: byte_at_def Let_def)
  next
    case more
    then have d: "drop i input = input ! i # input ! Suc i # input ! Suc (Suc i) # drop (i + 3) input"
      by (simp add: Cons_nth_drop_Suc numeral_3_eq_3)
    have IH: "base64_encode_loop input (i + 3) out' = out' @ b64_spec (drop (i + 3) input)" for out'
      using more by (intro less.hyps) linarith
    from more show ?thesis
      using group_chars [of _ "input ! i" "input ! Suc i" "input ! Suc (Suc i)"]
      by (subst base64_encode_loop.simps) (simp add: IH byte_at_def Let_def d group_chars group_char_last)
  qed
qed


section \<open>Round trip\<close>

declare base64_decode_loop.simps(2) [simp del]

lemma decode_pad [simp]: "base64_decode_loop (CHR ''='' # r) buf bits out = Some out"
  by (simp add: base64_decode_loop.simps(2))

lemma decode_digit0:
  "base64_decode_loop (b64_digit t k # r) 0 0 out = base64_decode_loop r (of_nat (t div 2 ^ k mod 64)) 6 out"
  using decode_char [of "t div 2 ^ k mod 64" 0 0 r out] by (simp add: b64_digit_def Let_def)

lemma decode_digit6:
  assumes "x < 64" "y = x * 64 + t div 2 ^ k mod 64"
  shows "base64_decode_loop (b64_digit t k # r) (of_nat x) 6 out =
    base64_decode_loop r (of_nat (y mod 16)) 4 (out @ [of_nat (y div 16)])"
  using decode_char [of "t div 2 ^ k mod 64" x 6 r out] assms by (simp add: b64_digit_def Let_def)

lemma decode_digit4:
  assumes "x < 16" "y = x * 64 + t div 2 ^ k mod 64"
  shows "base64_decode_loop (b64_digit t k # r) (of_nat x) 4 out =
    base64_decode_loop r (of_nat (y mod 4)) 2 (out @ [of_nat (y div 4)])"
  using decode_char [of "t div 2 ^ k mod 64" x 4 r out] assms by (simp add: b64_digit_def Let_def)

lemma decode_digit2:
  assumes "x < 4" "y = x * 64 + t div 2 ^ k mod 64"
  shows "base64_decode_loop (b64_digit t k # r) (of_nat x) 2 out = base64_decode_loop r 0 0 (out @ [of_nat y])"
  using decode_char [of "t div 2 ^ k mod 64" x 2 r out] assms by (simp add: b64_digit_def Let_def)

lemma div_join: "(m div (n * k) :: nat) * k + m div n mod k = m div n"
  by (simp add: div_mult2_eq div_mult_mod_eq)

lemma decode_two_digits:
  assumes t: "t = a * 65536 + u" and a: "a < 256" and u: "u < 65536"
  shows "base64_decode_loop (b64_digit t 18 # b64_digit t 12 # r) 0 0 out =
    base64_decode_loop r (of_nat (u div 4096)) 4 (out @ [of_nat a])"
proof -
  let ?y = "(t div 2 ^ 18 mod 64) * 64 + t div 2 ^ 12 mod 64"
  have td: "t div 4096 = a * 16 + u div 4096"
    using div_mult_self3 [of 4096 "a * 16" u] by (simp add: t)
  have v: "u div 4096 < 16"
    using u by (simp add: less_mult_imp_div_less)
  have "t div 262144 < 64"
    using t a u by (simp add: less_mult_imp_div_less)
  then have "?y = t div 4096"
    using div_join [of t 4096 64] by simp
  then have "?y div 16 = a" "?y mod 16 = u div 4096"
    using v by (simp_all add: td)
  then show ?thesis
    using decode_digit6 [of "t div 2 ^ 18 mod 64" ?y t 12 r out] by (simp add: decode_digit0)
qed

lemma decode_three_digits:
  assumes t: "t = a * 65536 + b * 256 + c" and lt: "a < 256" "b < 256" "c < 256"
  shows "base64_decode_loop (b64_digit t 18 # b64_digit t 12 # b64_digit t 6 # r) 0 0 out =
    base64_decode_loop r (of_nat (c div 64)) 2 (out @ [of_nat a, of_nat b])"
proof -
  let ?u = "b * 256 + c"
  let ?y = "(?u div 4096) * 64 + t div 2 ^ 6 mod 64"
  have td: "t div 64 = a * 1024 + ?u div 64"
    using div_mult_self3 [of 64 "a * 1024" ?u] by (simp add: t add.assoc)
  have ud: "?u div 64 = b * 4 + c div 64"
    using div_mult_self3 [of 64 "b * 4" c] by simp
  have v: "c div 64 < 4" "?u div 4096 < 16"
    using lt by (simp_all add: less_mult_imp_div_less)
  have "(a * 1024 + ?u div 64) mod 64 = ?u div 64 mod 64"
    using mod_mult_self3 [of "a * 16" 64 "?u div 64"] by (simp add: mult.commute)
  then have "?y = ?u div 64"
    using div_join [of ?u 64 64] by (simp add: td)
  then have "?y div 4 = b" "?y mod 4 = c div 64"
    using v by (simp_all add: ud)
  moreover have "base64_decode_loop (b64_digit t 18 # b64_digit t 12 # b64_digit t 6 # r) 0 0 out =
      base64_decode_loop (b64_digit t 6 # r) (of_nat (?u div 4096)) 4 (out @ [of_nat a])"
    using t lt by (intro decode_two_digits) auto
  ultimately show ?thesis
    using v decode_digit4 [of "?u div 4096" ?y t 6 r "out @ [of_nat a]"] by simp
qed

lemma decode_four_digits:
  assumes t: "t = a * 65536 + b * 256 + c" and lt: "a < 256" "b < 256" "c < 256"
  shows "base64_decode_loop (b64_digit t 18 # b64_digit t 12 # b64_digit t 6 # b64_digit t 0 # r) 0 0 out =
    base64_decode_loop r 0 0 (out @ [of_nat a, of_nat b, of_nat c])"
proof -
  have "t mod 64 = c mod 64"
    using mod_mult_self3 [of "a * 1024 + b * 4" 64 c] by (simp add: t mult.commute add_mult_distrib)
  then have "(c div 64) * 64 + t div 2 ^ 0 mod 64 = c" "c div 64 < 4"
    using lt by (simp_all add: div_mult_mod_eq less_mult_imp_div_less)
  then show ?thesis
    using decode_three_digits [OF assms, of "b64_digit t 0 # r" out] decode_digit2 [of "c div 64" c t 0 r "out @ [of_nat a, of_nat b]"]
    by simp
qed

lemma decode_spec: "base64_decode_loop (b64_spec bs) 0 0 out = Some (out @ bs)"
proof (induction bs arbitrary: out rule: b64_spec.induct)
  case (2 a)
  then show ?case
    using decode_two_digits [of "unat a * 65536" "unat a" 0 "''==''" out] unat_byte_less [of a] by (simp add: Let_def)
next
  case (3 a b)
  then show ?case
    using decode_three_digits [of "unat a * 65536 + unat b * 256" "unat a" "unat b" 0 "''=''" out]
      unat_byte_less [of a] unat_byte_less [of b] by (simp add: Let_def)
next
  case (4 a b c r)
  then show ?case
    using decode_four_digits [of _ "unat a" "unat b" "unat c" "b64_spec r" out]
      unat_byte_less [of a] unat_byte_less [of b] unat_byte_less [of c] by (simp add: Let_def)
qed simp

lemma base64_decode_encode: "base64_decode_bytes (simple_base64_encode bs) = Some bs"
  by (simp add: base64_decode_bytes_def simple_base64_encode_def base64_encode_loop_eq decode_spec)

lemma b64_spec_chars: "c \<in> set (b64_spec bs) \<Longrightarrow> graphic c"
proof -
  have digit: "graphic (b64_digit t k)" for t k
  proof -
    have "list_all graphic b64_chars"
      by (simp add: b64_chars_def graphic_def)
    then show ?thesis by (simp add: b64_digit_def list_all_length)
  qed
  moreover have "graphic CHR ''=''"
    by (simp add: graphic_def)
  ultimately show "c \<in> set (b64_spec bs) \<Longrightarrow> graphic c"
    by (induction bs rule: b64_spec.induct) (auto simp: Let_def)
qed

lemma base64_encode_graphic: "c \<in> set (simple_base64_encode bs) \<Longrightarrow> graphic c"
  by (simp add: simple_base64_encode_def base64_encode_loop_eq b64_spec_chars)

lemma base64_encode_Nil_iff: "simple_base64_encode bs = [] \<longleftrightarrow> bs = []"
  by (cases bs rule: b64_spec.cases) (simp_all add: simple_base64_encode_def base64_encode_loop_eq Let_def)

text \<open>
  C36. What the dashboard encodes, the HTTP proxy decodes to the same bytes, whatever the bytes
  and however many they are; the 32-bit accumulators lose nothing.
\<close>

theorem base64_roundtrip: "base64_decode_bytes (simple_base64_encode bs) = Some bs"
  by (rule base64_decode_encode)

end
