(* ===== verification/Http_Proxy.thy ===== *)
theory Http_Proxy
  imports Base64 Conn
begin

text \<open>
  The HTTP front end of the server (\<^verbatim>\<open>http_proxy.rs\<close>): reading and parsing a request header,
  the server name of a TLS ClientHello, the virtual host router, header rewriting, basic
  authentication and the error responses.

  \<^verbatim>\<open>httparse\<close> is a parameter. A slice or index out of range panics in Rust, so the parser of
  the ClientHello returns an option, with \<open>None\<close> for a panic, around its own optional result.
\<close>

section \<open>Requests\<close>

record http_request_info =
  req_method :: string
  req_path :: string
  req_version :: string
  req_host :: string
  req_headers :: "(string \<times> string) list"
  req_raw_bytes :: bytes

text \<open>What \<^verbatim>\<open>httparse\<close> reports: an error, an incomplete header, or the parts of a complete one.\<close>

datatype httparse_result =
    HttpErr
  | HttpPartial
  | HttpComplete nat "string option" "string option" "nat option" "(string \<times> bytes) list"

datatype http_error = ParseHttpFailed | IncompleteRequest | HeaderClosed | HeaderTooLarge | InvalidBase64

fun collect_headers :: "(string \<times> bytes) list \<Rightarrow> string \<Rightarrow> (string \<times> string) list \<Rightarrow> string \<times> (string \<times> string) list" where
  "collect_headers [] host hs = (host, hs)"
| "collect_headers ((name, value) # r) host hs =
     (if name = [] then (host, hs)
      else
        let v = from_utf8_lossy value in
        collect_headers r (if eq_ignore_ascii_case name ''Host'' then v else host) (hs @ [(name, v)]))"

definition parse_http_request :: "(bytes \<Rightarrow> httparse_result) \<Rightarrow> bytes \<Rightarrow> http_error + http_request_info" where
  "parse_http_request httparse buf =
     (case httparse buf of
        HttpErr \<Rightarrow> Inl ParseHttpFailed
      | HttpPartial \<Rightarrow> Inl IncompleteRequest
      | HttpComplete len m p v hs \<Rightarrow>
          (case collect_headers hs [] [] of
             (host, headers) \<Rightarrow> Inr
               \<lparr>req_method = (case m of Some x \<Rightarrow> x | None \<Rightarrow> ''GET''),
                req_path = (case p of Some x \<Rightarrow> x | None \<Rightarrow> ''/''),
                req_version = ''HTTP/1.'' @ show_nat (case v of Some x \<Rightarrow> x | None \<Rightarrow> 1),
                req_host = host, req_headers = headers, req_raw_bytes = take len buf\<rparr>))"

section \<open>Server name indication\<close>

definition idx :: "bytes \<Rightarrow> nat \<Rightarrow> byte option" where
  "idx h i = (if i < length h then Some (h ! i) else None)"

definition slice :: "bytes \<Rightarrow> nat \<Rightarrow> nat \<Rightarrow> bytes option" where
  "slice h i j = (if i \<le> j \<and> j \<le> length h then Some (take (j - i) (drop i h)) else None)"

definition be16 :: "bytes \<Rightarrow> nat \<Rightarrow> nat option" where
  "be16 h i = Option.bind (idx h i) (\<lambda>a. Option.bind (idx h (i + 1)) (\<lambda>b. Some (nat_of_be [a, b])))"

text \<open>The inner loop over the names; \<open>Some (Some r)\<close> is a return with \<open>r\<close>, \<open>Some None\<close> the end of the loop.\<close>

function sni_names :: "bytes \<Rightarrow> nat \<Rightarrow> nat \<Rightarrow> string option option option" where
  "sni_names h sni_pos sni_end =
     (if sni_pos + 3 \<le> sni_end \<and> sni_pos + 3 \<le> length h then
        Option.bind (idx h sni_pos) (\<lambda>name_type.
        Option.bind (be16 h (sni_pos + 1)) (\<lambda>name_len.
        let p = sni_pos + 3 in
        if name_type = 0 \<and> p + name_len \<le> length h
        then Option.bind (slice h p (p + name_len)) (\<lambda>n. Some (Some (string_from_utf8 n)))
        else sni_names h (p + name_len) sni_end))
      else Some None)"
  by pat_completeness auto
termination by (relation "measure (\<lambda>(h, p, _). length h - p)") auto

function sni_extensions :: "bytes \<Rightarrow> nat \<Rightarrow> nat \<Rightarrow> string option option" where
  "sni_extensions h pos extensions_end =
     (if pos + 4 \<le> extensions_end \<and> pos + 4 \<le> length h then
        Option.bind (be16 h pos) (\<lambda>ext_type.
        Option.bind (be16 h (pos + 2)) (\<lambda>ext_len.
        let p = pos + 4 in
        if ext_type = 0 then
          if p + 2 > length h then Some None
          else
            Option.bind (be16 h p) (\<lambda>sni_list_len.
            Option.bind (sni_names h (p + 2) (p + 2 + sni_list_len)) (\<lambda>r.
            case r of
              Some ret \<Rightarrow> Some ret
            | None \<Rightarrow> sni_extensions h (p + ext_len) extensions_end))
        else sni_extensions h (p + ext_len) extensions_end))
      else Some None)"
  by pat_completeness auto
termination by (relation "measure (\<lambda>(h, p, _). length h - p)") auto

declare sni_names.simps [simp del] and sni_extensions.simps [simp del]

definition sni_hello :: "bytes \<Rightarrow> string option option" where
  "sni_hello handshake =
     (let pos = 4 + 2 + 32 in
      if pos \<ge> length handshake then Some None else
      Option.bind (idx handshake pos) (\<lambda>sid.
      let pos = pos + 1 + unat sid in
      if pos + 2 > length handshake then Some None else
      Option.bind (be16 handshake pos) (\<lambda>cipher_suites_len.
      let pos = pos + 2 + cipher_suites_len in
      if pos \<ge> length handshake then Some None else
      Option.bind (idx handshake pos) (\<lambda>comp.
      let pos = pos + 1 + unat comp in
      if pos + 2 > length handshake then Some None else
      Option.bind (be16 handshake pos) (\<lambda>extensions_len.
      let pos = pos + 2 in
      sni_extensions handshake pos (pos + extensions_len))))))"

definition extract_sni :: "bytes \<Rightarrow> string option option" where
  "extract_sni buf =
     (if length buf < 5 then Some None else
      Option.bind (idx buf 0) (\<lambda>ty.
      if ty \<noteq> 0x16 then Some None else
      Option.bind (be16 buf 3) (\<lambda>record_len.
      if length buf < 5 + record_len then Some None else
      Option.bind (slice buf 5 (5 + record_len)) (\<lambda>handshake.
      if handshake = [] then Some None else
      Option.bind (idx handshake 0) (\<lambda>ht.
      if ht \<noteq> 0x01 then Some None else sni_hello handshake)))))"

section \<open>Virtual hosts\<close>

record http_route =
  rt_service_name :: string
  rt_custom_domains :: "string list"
  rt_subdomain :: "string option"
  rt_locations :: "string list"
  rt_host_header_rewrite :: "string option"
  rt_http_user :: "string option"
  rt_http_password :: "string option"
  rt_request_headers :: "(string, string) hmap"
  rt_response_headers :: "(string, string) hmap"
  rt_route_by_http_user :: "string option"

record vhost_router =
  vr_routes :: "http_route list"
  vr_subdomain_host :: "string option"

definition vhost_router_new :: "string option \<Rightarrow> vhost_router" where
  "vhost_router_new subdomain_host = \<lparr>vr_routes = [], vr_subdomain_host = subdomain_host\<rparr>"

definition add_route :: "http_route \<Rightarrow> vhost_router \<Rightarrow> vhost_router" where
  "add_route route r = r\<lparr>vr_routes := vr_routes r @ [route]\<rparr>"

definition remove_route :: "string \<Rightarrow> vhost_router \<Rightarrow> vhost_router" where
  "remove_route service_name r =
     r\<lparr>vr_routes := filter (\<lambda>x. rt_service_name x \<noteq> service_name) (vr_routes r)\<rparr>"

definition domain_match :: "string option \<Rightarrow> string \<Rightarrow> http_route \<Rightarrow> bool" where
  "domain_match subdomain_host host_without_port route \<longleftrightarrow>
     (\<exists>d \<in> set (rt_custom_domains route). eq_ignore_ascii_case d host_without_port) \<or>
     (case (rt_subdomain route, subdomain_host) of
        (Some sub, Some host_suffix) \<Rightarrow> eq_ignore_ascii_case (sub @ ''.'' @ host_suffix) host_without_port
      | _ \<Rightarrow> False)"

fun match_locations ::
  "string \<Rightarrow> http_route \<Rightarrow> string list \<Rightarrow> http_route option \<times> nat \<Rightarrow> http_route option \<times> nat" where
  "match_locations path route [] best = best"
| "match_locations path route (loc # locs) (m, n) =
     match_locations path route locs
       (if starts_with path loc \<and> length loc > n then (Some route, length loc) else (m, n))"

definition match_step ::
  "string option \<Rightarrow> string \<Rightarrow> string \<Rightarrow> http_route \<Rightarrow> http_route option \<times> nat \<Rightarrow> http_route option \<times> nat" where
  "match_step subdomain_host host_without_port path route best =
     (if \<not> domain_match subdomain_host host_without_port route then best
      else if rt_locations route = [] then
        (if fst best = None \<or> snd best = 0 then (Some route, 0) else best)
      else match_locations path route (rt_locations route) best)"

definition match_route :: "vhost_router \<Rightarrow> string \<Rightarrow> string \<Rightarrow> http_route option" where
  "match_route r host path =
     fst (fold (match_step (vr_subdomain_host r) (split_first CHR '':'' host) path) (vr_routes r) (None, 0))"

section \<open>Rewriting\<close>

definition crlf :: string where
  "crlf = [CHR 0x0D, CHR 0x0A]"

definition header_line :: "string \<Rightarrow> string \<Rightarrow> string" where
  "header_line name value = name @ '': '' @ value @ crlf"

fun rewrite_headers ::
  "http_route \<Rightarrow> string \<Rightarrow> (string \<times> string) list \<Rightarrow> string \<Rightarrow> bool \<Rightarrow> string \<times> bool" where
  "rewrite_headers route client_addr [] output xff_written = (output, xff_written)"
| "rewrite_headers route client_addr ((name, value) # hs) output xff_written =
     (case hm_get (rt_request_headers route) name of
        Some new_value \<Rightarrow>
          rewrite_headers route client_addr hs (output @ header_line name new_value) xff_written
      | None \<Rightarrow>
          if eq_ignore_ascii_case name ''Host'' then
            rewrite_headers route client_addr hs
              (output @ header_line ''Host'' (case rt_host_header_rewrite route of Some r \<Rightarrow> r | None \<Rightarrow> value))
              xff_written
          else if eq_ignore_ascii_case name ''X-Forwarded-For'' then
            rewrite_headers route client_addr hs
              (output @ header_line ''X-Forwarded-For'' (value @ '', '' @ client_addr)) True
          else rewrite_headers route client_addr hs (output @ header_line name value) xff_written)"

definition extra_headers :: "(string \<times> string) list \<Rightarrow> (string, string) hmap \<Rightarrow> string" where
  "extra_headers headers extra =
     concat (map (\<lambda>(name, value).
       if \<exists>(n, _) \<in> set headers. eq_ignore_ascii_case n name then [] else header_line name value) extra)"

definition rewrite_request :: "http_request_info \<Rightarrow> http_route \<Rightarrow> string \<Rightarrow> bytes" where
  "rewrite_request info route client_addr =
     (let output = req_method info @ '' '' @ req_path info @ '' '' @ req_version info @ crlf;
          (output, xff_written) = rewrite_headers route client_addr (req_headers info) output False;
          output = (if \<not> xff_written then output @ header_line ''X-Forwarded-For'' client_addr else output);
          output = output @ header_line ''X-Real-IP'' client_addr;
          output = output @ extra_headers (req_headers info) (rt_request_headers route)
      in as_bytes (output @ crlf))"

section \<open>Reading a header\<close>

text \<open>
  A reader delivers chunks of at most 1024 bytes, an empty one at the end of the stream (and
  after the last chunk of the list); the unread chunks are returned too.
\<close>

fun has_window :: "bytes \<Rightarrow> bytes \<Rightarrow> bool" where
  "has_window w [] = (w = [])"
| "has_window w (b # bs) = (take (length w) (b # bs) = w \<or> has_window w bs)"

definition header_end :: bytes where
  "header_end = [13, 10, 13, 10]"

fun read_http_header_loop :: "bytes \<Rightarrow> bytes list \<Rightarrow> bytes list \<times> (http_error + bytes)" where
  "read_http_header_loop buf [] = ([], Inl HeaderClosed)"
| "read_http_header_loop buf (c # cs) =
     (if c = [] then (cs, Inl HeaderClosed)
      else if has_window header_end (buf @ c) then (cs, Inr (buf @ c))
      else if length (buf @ c) > 8192 then (cs, Inl HeaderTooLarge)
      else read_http_header_loop (buf @ c) cs)"

definition read_http_header :: "bytes list \<Rightarrow> bytes list \<times> (http_error + bytes)" where
  "read_http_header cs = read_http_header_loop [] cs"

section \<open>Basic authentication\<close>

definition base64_decode :: "string \<Rightarrow> http_error + string" where
  "base64_decode input =
     rbind (ok_or (base64_decode_bytes input) InvalidBase64) (\<lambda>bytes.
     ok_or (string_from_utf8 bytes) InvalidBase64)"

fun validate_basic_auth :: "(string \<times> string) list \<Rightarrow> string \<Rightarrow> string \<Rightarrow> bool" where
  "validate_basic_auth [] user password = False"
| "validate_basic_auth ((name, value) # hs) user password =
     (if eq_ignore_ascii_case name ''Authorization'' then
        (case strip_prefix value ''Basic '' of
           Some encoded \<Rightarrow>
             (case base64_decode (trim encoded) of
                Inr decoded \<Rightarrow> decoded = user @ '':'' @ password
              | Inl e \<Rightarrow> validate_basic_auth hs user password)
         | None \<Rightarrow> validate_basic_auth hs user password)
      else validate_basic_auth hs user password)"

section \<open>Responses\<close>

definition http_page :: "string \<Rightarrow> string \<Rightarrow> string" where
  "http_page head body =
     head @ crlf @ ''Content-Type: text/html'' @ crlf @ ''Content-Length: '' @ show_nat (length body) @ crlf @
     ''Connection: close'' @ crlf @ crlf @ body"

definition send_404 :: "string option \<Rightarrow> (conn, io_error, unit) sm" where
  "send_404 custom_page =
     (let body = (case custom_page of Some b \<Rightarrow> b | None \<Rightarrow> ''<html><body><h1>404 Not Found</h1></body></html>'') in
      write_all (as_bytes (http_page ''HTTP/1.1 404 Not Found'' body)))"

definition send_401 :: "(conn, io_error, unit) sm" where
  "send_401 =
     (let body = ''<html><body><h1>401 Unauthorized</h1></body></html>'' in
      write_all (as_bytes (http_page
        (''HTTP/1.1 401 Unauthorized'' @ crlf @ ''WWW-Authenticate: Basic realm='' @ [CHR 0x22] @ ''chagle'' @ [CHR 0x22])
        body)))"

definition send_502 :: "(conn, io_error, unit) sm" where
  "send_502 =
     (let body = ''<html><body><h1>502 Bad Gateway</h1></body></html>'' in
      write_all (as_bytes (http_page ''HTTP/1.1 502 Bad Gateway'' body)))"

section \<open>Properties\<close>

subsection \<open>Server names\<close>

lemma idx_Some [simp]: "i < length h \<Longrightarrow> idx h i = Some (h ! i)"
  by (simp add: idx_def)

lemma be16_Some [simp]: "i + 1 < length h \<Longrightarrow> be16 h i = Some (nat_of_be [h ! i, h ! (i + 1)])"
  by (simp add: be16_def)

lemma slice_Some [simp]: "i \<le> j \<Longrightarrow> j \<le> length h \<Longrightarrow> slice h i j = Some (take (j - i) (drop i h))"
  by (simp add: slice_def)

lemma sni_names_safe: "sni_names h p e \<noteq> None"
proof (induction h p e rule: sni_names.induct)
  case (1 h p e)
  show ?case
    using 1 by (subst sni_names.simps) (auto simp: Let_def)
qed

lemma bind_safe: "m \<noteq> None \<Longrightarrow> (\<And>x. m = Some x \<Longrightarrow> f x \<noteq> None) \<Longrightarrow> Option.bind m f \<noteq> None"
  by (cases m) auto

lemma sni_extensions_safe: "sni_extensions h p e \<noteq> None"
proof (induction h p e rule: sni_extensions.induct)
  case (1 h p e)
  show ?case
  proof (cases "p + 4 \<le> e \<and> p + 4 \<le> length h")
    case True
    then obtain t l where t: "be16 h p = Some t" and l: "be16 h (p + 2) = Some l"
      by simp
    have "Option.bind (be16 h (p + 4)) (\<lambda>n. Option.bind (sni_names h (p + 4 + 2) (p + 4 + 2 + n)) (\<lambda>r.
        case r of Some ret \<Rightarrow> Some ret | None \<Rightarrow> sni_extensions h (p + 4 + l) e)) \<noteq> None"
      if "\<not> p + 4 + 2 > length h" "t = 0"
      using 1(1) [OF True t l refl] that
      by (intro bind_safe sni_names_safe) (auto split: option.splits)
    then show ?thesis
      using True t l 1(2) [OF True t l refl]
      by (subst sni_extensions.simps) (simp add: Let_def del: not_None_eq)
  next
    case False
    then show ?thesis by (subst sni_extensions.simps) auto
  qed
qed

lemma sni_hello_safe: "sni_hello h \<noteq> None"
  using sni_extensions_safe by (auto simp: sni_hello_def Let_def)

text \<open>
  C22. The ClientHello parser never reads outside its buffer: whatever bytes a peer sends, every
  index and slice is in range, so the server task cannot be made to panic, and both loops end.
\<close>

theorem extract_sni_safe: "extract_sni buf \<noteq> None"
proof (cases "length buf < 5")
  case False
  then have "0 < length buf" and "3 + 1 < length buf" by auto
  then show ?thesis
    using sni_hello_safe by (auto simp: extract_sni_def)
qed (simp add: extract_sni_def)

declare idx_Some [simp del] and be16_Some [simp del] and slice_Some [simp del]

text \<open>A ClientHello as the TLS standard lays it out.\<close>

definition vec8 :: "bytes \<Rightarrow> bytes" where
  "vec8 bs = of_nat (length bs) # bs"

definition vec16 :: "bytes \<Rightarrow> bytes" where
  "vec16 bs = be_of_nat 2 (length bs) @ bs"

definition extension :: "nat \<times> bytes \<Rightarrow> bytes" where
  "extension x = be_of_nat 2 (fst x) @ vec16 (snd x)"

definition sni_extension :: "string \<Rightarrow> nat \<times> bytes" where
  "sni_extension name = (0, vec16 (0 # vec16 (as_bytes name)))"

definition client_hello :: "bytes \<Rightarrow> bytes \<Rightarrow> bytes \<Rightarrow> bytes \<Rightarrow> (nat \<times> bytes) list \<Rightarrow> bytes" where
  "client_hello prefix sid ciphers methods exts =
     prefix @ vec8 sid @ vec16 ciphers @ vec8 methods @ vec16 (concat (map extension exts))"

definition tls_record :: "bytes \<Rightarrow> bytes" where
  "tls_record hs = [0x16, 3, 1] @ vec16 hs"

lemma idx_append [simp]: "idx (a @ b) (length a + i) = idx b i"
  by (simp add: idx_def nth_append)

lemma be16_append [simp]: "be16 (a @ b) (length a + i) = be16 b i"
  using idx_append [of a b i] idx_append [of a b "i + 1"] unfolding be16_def add.assoc by simp

lemma be16_of_nat: "n < 65536 \<Longrightarrow> be16 (be_of_nat 2 n @ r) 0 = Some n"
proof -
  assume n: "n < 65536"
  obtain a b where ab: "be_of_nat 2 n = [a, b]"
    by (simp add: numeral_2_eq_2)
  have "nat_of_be [a, b] = n"
    using nat_of_be_of_nat [of 2 n] n by (simp add: ab)
  then show ?thesis by (simp add: ab be16_def idx_def)
qed

text \<open>Reading at the position behind a known prefix.\<close>

lemma be16_at: "n < 65536 \<Longrightarrow> p = length a \<Longrightarrow> be16 (a @ be_of_nat 2 n @ r) p = Some n"
  using be16_append [of a "be_of_nat 2 n @ r" 0] by (simp add: be16_of_nat)

lemma idx_at: "p = length a \<Longrightarrow> idx (a @ b # r) p = Some b"
  by (simp add: idx_def)

lemma sni_names_first:
  assumes "length name < 65536" and "utf8_valid (as_bytes name)"
    and "h = pre @ 0 # vec16 (as_bytes name) @ post" and "p = length pre" and "p + 3 \<le> e"
  shows "sni_names h p e = Some (Some (Some name))"
proof -
  have "idx h p = Some 0"
    using idx_at [of p pre 0] assms by simp
  moreover have "be16 h (p + 1) = Some (length name)"
    using be16_at [of "length name" "p + 1" "pre @ [0]" "as_bytes name @ post"] assms by (simp add: vec16_def)
  moreover have "slice h (p + 3) (p + 3 + length name) = Some (as_bytes name)"
    using assms by (simp add: vec16_def slice_def)
  moreover have "p + 3 + length name \<le> length h"
    using assms by (simp add: vec16_def)
  ultimately show ?thesis
    using assms(2,5) by (subst sni_names.simps) (simp add: Let_def string_from_utf8_def)
qed

lemma sni_extensions_skip:
  assumes "h = pre @ extension x @ post" and "p = length pre" and "p + length (extension x) \<le> e"
    and "fst x \<noteq> 0" and "fst x < 65536" and "length (snd x) < 65536"
  shows "sni_extensions h p e = sni_extensions h (p + length (extension x)) e"
proof -
  have "be16 h p = Some (fst x)"
    using be16_at [of "fst x" p pre "vec16 (snd x) @ post"] assms by (simp add: extension_def)
  moreover have "be16 h (p + 2) = Some (length (snd x))"
    using be16_at [of "length (snd x)" "p + 2" "pre @ be_of_nat 2 (fst x)" "snd x @ post"] assms
    by (simp add: extension_def vec16_def)
  moreover have "p + 4 \<le> e" "p + 4 \<le> length h"
    using assms by (simp_all add: extension_def vec16_def)
  moreover have "length (extension x) = 4 + length (snd x)"
    by (simp add: extension_def vec16_def)
  ultimately show ?thesis
    using assms(4) by (subst sni_extensions.simps) (simp add: Let_def add.assoc)
qed

lemma sni_extensions_found:
  assumes "length name < 65531" and "utf8_valid (as_bytes name)"
    and "h = pre @ extension (sni_extension name) @ post" and "p = length pre"
    and "p + length (extension (sni_extension name)) \<le> e"
  shows "sni_extensions h p e = Some (Some name)"
proof -
  let ?n = "0 # vec16 (as_bytes name)"
  have h: "h = pre @ be_of_nat 2 0 @ be_of_nat 2 (length (vec16 ?n)) @ be_of_nat 2 (length ?n) @ ?n @ post"
    using assms(3) by (simp add: extension_def sni_extension_def vec16_def)
  have "be16 h p = Some 0"
    unfolding h using assms(4) by (intro be16_at) auto
  moreover have "be16 h (p + 2) = Some (length (vec16 ?n))"
    using be16_at [of "length (vec16 ?n)" "p + 2" "pre @ be_of_nat 2 0"] assms(1,4) by (simp add: h vec16_def)
  moreover have "be16 h (p + 4) = Some (length ?n)"
    using be16_at [of "length ?n" "p + 4" "pre @ be_of_nat 2 0 @ be_of_nat 2 (length (vec16 ?n))"] assms(1,4)
    by (simp add: h vec16_def)
  moreover have "sni_names h (p + 4 + 2) (p + 4 + 2 + length ?n) = Some (Some (Some name))"
    using assms(1,2,4)
    by (intro sni_names_first [where pre = "pre @ be_of_nat 2 0 @ be_of_nat 2 (length (vec16 ?n)) @ be_of_nat 2 (length ?n)"
          and post = post]) (simp_all add: h vec16_def)
  moreover have "\<not> p + 4 + 2 > length h" "p + 4 \<le> e"
    using assms(4,5) by (simp_all add: h extension_def vec16_def)
  ultimately show ?thesis
    by (subst sni_extensions.simps) (simp add: Let_def)
qed

text \<open>An extension that the parser passes over.\<close>

definition other_extension :: "nat \<times> bytes \<Rightarrow> bool" where
  "other_extension x \<longleftrightarrow> fst x \<noteq> 0 \<and> fst x < 65536 \<and> length (snd x) < 65536"

lemma sni_extensions_list:
  assumes "list_all other_extension before" and "length name < 65531" and "utf8_valid (as_bytes name)"
    and "h = pre @ concat (map extension (before @ [sni_extension name])) @ post" and "p = length pre"
    and "p + length (concat (map extension (before @ [sni_extension name]))) \<le> e"
  shows "sni_extensions h p e = Some (Some name)"
  using assms
proof (induction before arbitrary: pre p)
  case Nil
  then show ?case
    using sni_extensions_found [of name h pre post p e] by simp
next
  case (Cons x xs)
  let ?rest = "concat (map extension (xs @ [sni_extension name]))"
  have "sni_extensions h p e = sni_extensions h (p + length (extension x)) e"
    using Cons.prems by (intro sni_extensions_skip [where pre = pre and post = "?rest @ post"])
      (auto simp: other_extension_def)
  also have "\<dots> = Some (Some name)"
    using Cons.prems by (intro Cons.IH [where pre = "pre @ extension x"]) auto
  finally show ?case .
qed

lemma sni_hello_found:
  assumes "length prefix = 38" and "length sid < 256" and "length ciphers < 65536" and "length methods < 256"
    and "list_all other_extension before" and "length name < 65531" and "utf8_valid (as_bytes name)"
    and "length (concat (map extension (before @ [sni_extension name] @ after))) < 65536"
  shows "sni_hello (client_hello prefix sid ciphers methods (before @ [sni_extension name] @ after)) = Some (Some name)"
    (is "sni_hello ?h = _")
proof -
  let ?exts = "concat (map extension (before @ [sni_extension name] @ after))"
  let ?a = "prefix @ [of_nat (length sid)] @ sid"
  let ?b = "?a @ be_of_nat 2 (length ciphers) @ ciphers"
  let ?c = "?b @ [of_nat (length methods)] @ methods"
  have h: "?h = prefix @ of_nat (length sid) # sid @ vec16 ciphers @ vec8 methods @ vec16 ?exts"
    "?h = ?a @ be_of_nat 2 (length ciphers) @ ciphers @ vec8 methods @ vec16 ?exts"
    "?h = ?b @ of_nat (length methods) # methods @ vec16 ?exts"
    "?h = ?c @ be_of_nat 2 (length ?exts) @ ?exts"
    by (simp_all add: client_hello_def vec8_def vec16_def)
  have "idx ?h 38 = Some (of_nat (length sid))"
    unfolding h(1) using assms(1) by (intro idx_at) simp
  moreover have "be16 ?h (38 + 1 + length sid) = Some (length ciphers)"
    unfolding h(2) using assms(1,3) by (intro be16_at) simp_all
  moreover have "idx ?h (38 + 1 + length sid + 2 + length ciphers) = Some (of_nat (length methods))"
    unfolding h(3) using assms(1) by (intro idx_at) simp
  moreover have "be16 ?h (38 + 1 + length sid + 2 + length ciphers + 1 + length methods) = Some (length ?exts)"
    unfolding h(4) using assms(1,8) by (intro be16_at) simp_all
  moreover have "sni_extensions ?h (38 + 1 + length sid + 2 + length ciphers + 1 + length methods + 2)
      (38 + 1 + length sid + 2 + length ciphers + 1 + length methods + 2 + length ?exts) = Some (Some name)"
    using assms(1,5-7)
    by (intro sni_extensions_list [where pre = "?c @ be_of_nat 2 (length ?exts)" and before = before
          and post = "concat (map extension after)"]) (simp_all add: client_hello_def vec8_def vec16_def)
  moreover have "unat (of_nat (length sid) :: byte) = length sid" "unat (of_nat (length methods) :: byte) = length methods"
    using assms(2,4) by (simp_all add: unat_of_nat_byte)
  moreover have "length ?h = 38 + 1 + length sid + 2 + length ciphers + 1 + length methods + 2 + length ?exts"
    using assms(1) by (simp add: client_hello_def vec8_def vec16_def)
  ultimately show ?thesis
    by (simp add: sni_hello_def Let_def)
qed

text \<open>
  C23. From a well-formed ClientHello that carries a server name, behind any other extensions
  and followed by anything, exactly that name is extracted.
\<close>

theorem extract_sni_roundtrip:
  assumes "length prefix = 38" and "prefix ! 0 = 1" and "length sid < 256" and "length ciphers < 65536"
    and "length methods < 256" and "list_all other_extension before"
    and "length name < 65531" and "utf8_valid (as_bytes name)"
    and "length (concat (map extension (before @ [sni_extension name] @ after))) < 65536"
    and "length (client_hello prefix sid ciphers methods (before @ [sni_extension name] @ after)) < 65536"
  shows "extract_sni (tls_record (client_hello prefix sid ciphers methods (before @ [sni_extension name] @ after)) @ rest) =
    Some (Some name)"
proof -
  let ?h = "client_hello prefix sid ciphers methods (before @ [sni_extension name] @ after)"
  let ?buf = "tls_record ?h @ rest"
  have buf: "?buf = [0x16, 3, 1] @ be_of_nat 2 (length ?h) @ ?h @ rest"
    by (simp add: tls_record_def vec16_def)
  have "be16 ?buf 3 = Some (length ?h)"
    unfolding buf using assms(10) by (intro be16_at) simp_all
  moreover have "slice ?buf 5 (5 + length ?h) = Some ?h"
    by (simp add: slice_def tls_record_def vec16_def)
  moreover have "idx ?buf 0 = Some 0x16"
    by (simp add: idx_def tls_record_def)
  moreover have "idx ?h 0 = Some 1" "?h \<noteq> []"
    using assms(1,2) by (auto simp: idx_def client_hello_def nth_append)
  moreover have "\<not> length ?buf < 5 + length ?h"
    by (simp add: tls_record_def vec16_def)
  moreover have "sni_hello ?h = Some (Some name)"
    using assms by (intro sni_hello_found)
  ultimately show ?thesis
    unfolding extract_sni_def by (simp del: append_assoc map_append)
qed

theorem extract_sni_roundtrip_witness:
  "extract_sni (tls_record (client_hello (1 # replicate 37 0) [] [0, 47] [0] ([(10, [0, 0])] @ [sni_extension ''a.io''] @ [])) @ []) =
     Some (Some ''a.io'')"
  by (rule extract_sni_roundtrip)
    (simp_all add: other_extension_def extension_def sni_extension_def vec16_def client_hello_def vec8_def as_bytes_def)

subsection \<open>Routing\<close>

text \<open>A route can serve a host and path with a location of length \<open>n\<close>, zero if it has none.\<close>

definition serves :: "vhost_router \<Rightarrow> string \<Rightarrow> string \<Rightarrow> http_route \<Rightarrow> nat \<Rightarrow> bool" where
  "serves r host path route n \<longleftrightarrow>
     domain_match (vr_subdomain_host r) (split_first CHR '':'' host) route \<and>
     (if rt_locations route = [] then n = 0
      else 0 < n \<and> (\<exists>loc \<in> set (rt_locations route). starts_with path loc \<and> length loc = n))"

text \<open>The invariant of the search: the best route so far serves, and no earlier one has a longer location.\<close>

definition best_inv :: "(http_route \<Rightarrow> nat \<Rightarrow> bool) \<Rightarrow> http_route set \<Rightarrow> http_route option \<times> nat \<Rightarrow> bool" where
  "best_inv S R b \<longleftrightarrow>
     (case fst b of None \<Rightarrow> snd b = 0 | Some x \<Rightarrow> x \<in> R \<and> S x (snd b)) \<and>
     (\<forall>x \<in> R. \<forall>n. S x n \<longrightarrow> fst b \<noteq> None \<and> n \<le> snd b)"

lemma match_locations_spec:
  assumes "match_locations path route locs (m, n) = (m', n')"
  shows "n \<le> n' \<and> (\<forall>loc \<in> set locs. starts_with path loc \<longrightarrow> length loc \<le> n') \<and>
    (m' = m \<and> n' = n \<or>
     m' = Some route \<and> n < n' \<and> (\<exists>loc \<in> set locs. starts_with path loc \<and> length loc = n'))"
  using assms
proof (induction locs arbitrary: m n)
  case (Cons loc locs)
  show ?case
  proof (cases "starts_with path loc \<and> length loc > n")
    case True
    with Cons.prems have "match_locations path route locs (Some route, length loc) = (m', n')" by simp
    from Cons.IH [OF this] True show ?thesis by fastforce
  next
    case False
    with Cons.prems have "match_locations path route locs (m, n) = (m', n')" by auto
    from Cons.IH [OF this] False show ?thesis by fastforce
  qed
qed simp

lemma match_step_inv:
  assumes "best_inv (serves r host path) R b"
  shows "best_inv (serves r host path) (insert route R)
    (match_step (vr_subdomain_host r) (split_first CHR '':'' host) path route b)"
proof (cases "domain_match (vr_subdomain_host r) (split_first CHR '':'' host) route")
  case False
  then have "\<not> serves r host path route n" for n
    by (simp add: serves_def)
  with False assms show ?thesis
    by (auto simp: best_inv_def match_step_def split: option.splits)
next
  case dm: True
  obtain m n where b: "b = (m, n)" by force
  show ?thesis
  proof (cases "rt_locations route = []")
    case True
    with assms dm show ?thesis
      by (fastforce simp: b best_inv_def match_step_def serves_def split: option.splits)
  next
    case False
    obtain m' n' where ml: "match_locations path route (rt_locations route) (m, n) = (m', n')" by force
    note spec = match_locations_spec [OF ml]
    have S: "serves r host path route k \<longleftrightarrow>
        0 < k \<and> (\<exists>loc \<in> set (rt_locations route). starts_with path loc \<and> length loc = k)" for k
      using dm False by (simp add: serves_def)
    have le: "k \<le> n'" if "serves r host path route k" for k
    proof -
      from that S obtain loc where "loc \<in> set (rt_locations route)" "starts_with path loc" "length loc = k"
        by auto
      with spec show ?thesis by auto
    qed
    have step: "match_step (vr_subdomain_host r) (split_first CHR '':'' host) path route b = (m', n')"
      using dm False by (simp add: b ml match_step_def)
    consider (same) "m' = m" "n' = n" | (new) "m' = Some route" "n < n'" "serves r host path route n'"
      using spec S [of n'] by auto
    then show ?thesis
    proof cases
      case same
      then show ?thesis
        using assms le S unfolding step by (auto simp: b best_inv_def split: option.splits)
    next
      case new
      then show ?thesis
        using assms le unfolding step by (force simp: b best_inv_def split: option.splits)
    qed
  qed
qed

lemma match_fold_inv:
  "best_inv (serves r host path) R b \<Longrightarrow>
   best_inv (serves r host path) (R \<union> set rs)
     (fold (match_step (vr_subdomain_host r) (split_first CHR '':'' host) path) rs b)"
proof (induction rs arbitrary: R b)
  case (Cons x rs)
  from Cons.IH [OF match_step_inv [OF Cons.prems]] show ?case by simp
qed simp

text \<open>
  C24. The router answers with a registered route that serves the host and path and whose
  matching location is a longest one among all routes that serve them; it answers with none
  exactly when no route serves them. The port of the host and the case of its letters do not
  matter.
\<close>

theorem match_route_longest:
  "case match_route r host path of
     Some x \<Rightarrow> x \<in> set (vr_routes r) \<and>
       (\<exists>n. serves r host path x n \<and> (\<forall>y \<in> set (vr_routes r). \<forall>k. serves r host path y k \<longrightarrow> k \<le> n))
   | None \<Rightarrow> (\<forall>y \<in> set (vr_routes r). \<forall>k. \<not> serves r host path y k)"
proof -
  have "best_inv (serves r host path) {} (None, 0)"
    by (simp add: best_inv_def)
  from match_fold_inv [OF this, of "vr_routes r"] show ?thesis
    by (auto simp: best_inv_def match_route_def split: option.splits)
qed

definition example_route :: http_route where
  "example_route =
     \<lparr>rt_service_name = ''web'', rt_custom_domains = [''Web.example.com''], rt_subdomain = None, rt_locations = [''/a''],
      rt_host_header_rewrite = None, rt_http_user = None, rt_http_password = None, rt_request_headers = [],
      rt_response_headers = [], rt_route_by_http_user = None\<rparr>"

definition example_router :: vhost_router where
  "example_router = add_route (example_route\<lparr>rt_service_name := ''api'', rt_locations := [''/a/b'', ''/'']\<rparr>)
     (add_route example_route (vhost_router_new None))"

theorem match_route_longest_witness:
  "map_option rt_service_name (match_route example_router ''web.example.com:80'' ''/a/b/c'') = Some ''api'' \<and>
   (\<exists>n. serves example_router ''web.example.com:80'' ''/a/b/c'' (last (vr_routes example_router)) n)"
proof -
  have m: "match_route example_router ''web.example.com:80'' ''/a/b/c'' = Some (last (vr_routes example_router))"
    by code_simp
  then show ?thesis
    using match_route_longest [of example_router "''web.example.com:80''" "''/a/b/c''"]
    by (auto simp: example_router_def add_route_def)
qed

subsection \<open>Authentication\<close>

lemma validate_basic_auth_skip:
  "\<forall>(n, v) \<in> set pre. \<not> eq_ignore_ascii_case n ''Authorization'' \<Longrightarrow>
   validate_basic_auth (pre @ hs) user password = validate_basic_auth hs user password"
  by (induction pre) auto

lemma trim_encoded: "bs \<noteq> [] \<Longrightarrow> trim (simple_base64_encode bs) = simple_base64_encode bs"
  using base64_encode_graphic [of _ bs] base64_encode_Nil_iff [of bs] by (intro trim_graphic) auto



subsection \<open>Reading\<close>

lemma take_prefix_append: "take (length w) xs = w \<Longrightarrow> take (length w) (xs @ ys) = w"
  by (metis append.assoc append_take_drop_id take_length_append)

lemma has_window_append: "has_window w a \<Longrightarrow> has_window w (a @ b)"
proof (induction a)
  case Nil
  then show ?case by (cases b) auto
next
  case (Cons x a)
  then show ?case using take_prefix_append [of w "x # a" b] by auto
qed

lemma read_http_header_loop_sound:
  assumes "read_http_header_loop buf cs = (rest, Inr out)" and "length buf \<le> 8192"
    and "\<forall>c \<in> set cs. length c \<le> 1024"
  shows "\<exists>used. cs = used @ rest \<and> out = buf @ concat used \<and> has_window header_end out \<and> length out \<le> 9216"
  using assms
proof (induction buf cs rule: read_http_header_loop.induct)
  case (2 buf c cs)
  show ?case
  proof (cases "has_window header_end (buf @ c)")
    case True
    with "2.prems" show ?thesis
      by (intro exI [of _ "[c]"]) (auto split: if_splits)
  next
    case False
    with "2.prems" have "c \<noteq> []" "\<not> length (buf @ c) > 8192" "read_http_header_loop (buf @ c) cs = (rest, Inr out)"
      by (auto split: if_splits)
    with "2.IH" False "2.prems"(3) obtain used where "cs = used @ rest \<and> out = (buf @ c) @ concat used \<and>
        has_window header_end out \<and> length out \<le> 9216"
      by auto
    then show ?thesis
      by (intro exI [of _ "c # used"]) auto
  qed
qed simp

lemma read_http_header_loop_complete:
  assumes "\<forall>c \<in> set cs. c \<noteq> []" and "has_window header_end (take 8192 (buf @ concat cs))"
    and "\<not> has_window header_end buf" and "length buf \<le> 8192"
  shows "\<exists>rest out. read_http_header_loop buf cs = (rest, Inr out)"
  using assms
proof (induction buf cs rule: read_http_header_loop.induct)
  case (2 buf c cs)
  have "has_window header_end (buf @ c)" if "length (buf @ c) > 8192"
  proof -
    have "take 8192 (buf @ concat (c # cs)) = take 8192 (buf @ c)"
      using that by simp
    with "2.prems"(2) have "has_window header_end (take 8192 (buf @ c))" by (simp only:)
    from has_window_append [OF this, of "drop 8192 (buf @ c)"] show ?thesis
      by (simp only: append_take_drop_id)
  qed
  with 2 show ?case by auto
qed simp



subsection \<open>Rewriting\<close>

text \<open>The header that a header of the request becomes.\<close>

definition rewritten :: "http_route \<Rightarrow> string \<Rightarrow> string \<times> string \<Rightarrow> string \<times> string" where
  "rewritten route client_addr h =
     (case hm_get (rt_request_headers route) (fst h) of
        Some v \<Rightarrow> (fst h, v)
      | None \<Rightarrow>
          if eq_ignore_ascii_case (fst h) ''Host''
          then (''Host'', case rt_host_header_rewrite route of Some r \<Rightarrow> r | None \<Rightarrow> snd h)
          else if eq_ignore_ascii_case (fst h) ''X-Forwarded-For''
          then (''X-Forwarded-For'', snd h @ '', '' @ client_addr)
          else h)"

definition extends_xff :: "http_route \<Rightarrow> string \<times> string \<Rightarrow> bool" where
  "extends_xff route h \<longleftrightarrow> hm_get (rt_request_headers route) (fst h) = None \<and>
     \<not> eq_ignore_ascii_case (fst h) ''Host'' \<and> eq_ignore_ascii_case (fst h) ''X-Forwarded-For''"

abbreviation render :: "(string \<times> string) list \<Rightarrow> string" where
  "render hs \<equiv> concat (map (\<lambda>(n, v). header_line n v) hs)"

lemma rewrite_headers_eq:
  "rewrite_headers route addr hs out x =
     (out @ render (map (rewritten route addr) hs), x \<or> (\<exists>h \<in> set hs. extends_xff route h))"
  by (induction hs arbitrary: out x)
    (auto simp: rewritten_def extends_xff_def split: option.splits)

lemma extra_headers_eq:
  "extra_headers hs extra = render (filter (\<lambda>(n, v). \<not> (\<exists>(m, _) \<in> set hs. eq_ignore_ascii_case m n)) extra)"
proof (induction extra)
  case (Cons e extra)
  obtain n v where "e = (n, v)" by force
  with Cons show ?case by (simp add: extra_headers_def)
qed (simp add: extra_headers_def)

text \<open>
  C35. A rewritten request names the client to the backend: it is the request line followed by
  headers among which an \<^verbatim>\<open>X-Forwarded-For\<close> ends with the client's address and an \<^verbatim>\<open>X-Real-IP\<close>
  is that address; every header of the request that is neither of these, nor the host, nor
  replaced by the configuration, is passed on unchanged.
\<close>

theorem rewrite_request_forwards:
  "\<exists>hs. rewrite_request info route addr =
      as_bytes (req_method info @ '' '' @ req_path info @ '' '' @ req_version info @ crlf @ render hs @ crlf) \<and>
    (\<exists>v. (''X-Forwarded-For'', v @ addr) \<in> set hs) \<and> (''X-Real-IP'', addr) \<in> set hs \<and>
    (\<forall>(n, v) \<in> set (req_headers info).
       hm_get (rt_request_headers route) n = None \<and> \<not> eq_ignore_ascii_case n ''Host'' \<and>
       \<not> eq_ignore_ascii_case n ''X-Forwarded-For'' \<longrightarrow> (n, v) \<in> set hs)"
proof -
  let ?own = "map (rewritten route addr) (req_headers info)"
  let ?x = "\<exists>h \<in> set (req_headers info). extends_xff route h"
  let ?hs = "?own @ (if ?x then [] else [(''X-Forwarded-For'', addr)]) @ [(''X-Real-IP'', addr)] @
    filter (\<lambda>(n, v). \<not> (\<exists>(m, _) \<in> set (req_headers info). eq_ignore_ascii_case m n)) (rt_request_headers route)"
  have "rewrite_request info route addr =
      as_bytes (req_method info @ '' '' @ req_path info @ '' '' @ req_version info @ crlf @ render ?hs @ crlf)"
    by (simp add: rewrite_request_def rewrite_headers_eq extra_headers_eq Let_def del: as_bytes_append)
  moreover have "\<exists>v. (''X-Forwarded-For'', v @ addr) \<in> set ?hs"
  proof (cases ?x)
    case True
    then obtain h where "h \<in> set (req_headers info)" "extends_xff route h" by blast
    then have "(''X-Forwarded-For'', (snd h @ '', '') @ addr) \<in> set ?own"
      by (force simp: rewritten_def extends_xff_def)
    then have "(''X-Forwarded-For'', (snd h @ '', '') @ addr) \<in> set ?hs"
      by (simp only: set_append Un_iff simp_thms)
    then show ?thesis by blast
  next
    case False
    then have "(''X-Forwarded-For'', [] @ addr) \<in> set ?hs" by simp
    then show ?thesis by blast
  qed
  moreover have "\<forall>(n, v) \<in> set (req_headers info).
       hm_get (rt_request_headers route) n = None \<and> \<not> eq_ignore_ascii_case n ''Host'' \<and>
       \<not> eq_ignore_ascii_case n ''X-Forwarded-For'' \<longrightarrow> (n, v) \<in> set ?own"
    by (force simp: rewritten_def image_iff)
  ultimately show ?thesis
    by (intro exI [of _ ?hs]) auto
qed

definition example_request :: http_request_info where
  "example_request = \<lparr>req_method = ''GET'', req_path = ''/'', req_version = ''HTTP/1.1'', req_host = ''h'',
     req_headers = [(''Host'', ''h''), (''x-token'', ''1'')], req_raw_bytes = []\<rparr>"

theorem rewrite_request_forwards_witness:
  "\<exists>hs. rewrite_request example_request example_route ''9.9.9.9'' =
      as_bytes (''GET'' @ '' '' @ ''/'' @ '' '' @ ''HTTP/1.1'' @ crlf @ render hs @ crlf) \<and>
    (''X-Real-IP'', ''9.9.9.9'') \<in> set hs \<and> (''x-token'', ''1'') \<in> set hs"
proof -
  have "\<not> eq_ignore_ascii_case ''x-token'' ''Host''" "\<not> eq_ignore_ascii_case ''x-token'' ''X-Forwarded-For''"
    by (simp_all add: eq_ignore_ascii_case_def to_ascii_lowercase_def)
  then show ?thesis
    using rewrite_request_forwards [of example_request example_route "''9.9.9.9''"]
    by (auto simp: example_request_def example_route_def hm_get_def)
qed

text \<open>
  A configured request header whose name the request spells in another case is lost: the
  replacement looks the name up exactly, the addition skips it ignoring case, and the value of
  the request goes through.
\<close>

theorem rewrite_request_case_mismatch:
  "rewrite_request example_request (example_route\<lparr>rt_request_headers := [(''X-Token'', ''secret'')]\<rparr>) ''9.9.9.9'' =
   as_bytes (''GET / HTTP/1.1'' @ crlf @ ''Host: h'' @ crlf @ ''x-token: 1'' @ crlf @
     ''X-Forwarded-For: 9.9.9.9'' @ crlf @ ''X-Real-IP: 9.9.9.9'' @ crlf @ crlf)"
proof -
  have "eq_ignore_ascii_case ''x-token'' ''X-Token''" "\<not> eq_ignore_ascii_case ''x-token'' ''Host''"
    "\<not> eq_ignore_ascii_case ''x-token'' ''X-Forwarded-For''" "\<not> eq_ignore_ascii_case ''Host'' ''X-Token''"
    by code_simp+
  then show ?thesis
    by (simp add: rewrite_request_def example_request_def example_route_def extra_headers_def header_line_def
        hm_get_def as_bytes_def crlf_def)
qed

end
