(* ===== verification/Metrics.thy ===== *)
theory Metrics
  imports Rust_Str
begin

text \<open>
  The counters of \<^verbatim>\<open>metrics.rs\<close>. Atomic 64-bit counters wrap around, so they are words. The
  proxies are shared by reference counting: the collector maps names to references, the
  counters live in a store, and a caller that keeps a reference still counts after the name has
  been removed. Every operation takes the lock of the collector or is a single atomic
  instruction, so it is one step.
\<close>

section \<open>Definitions\<close>

record proxy_metrics =
  connections_in :: u64
  connections_out :: u64
  bytes_in :: u64
  bytes_out :: u64

definition default_proxy_metrics :: proxy_metrics where
  "default_proxy_metrics = \<lparr>connections_in = 0, connections_out = 0, bytes_in = 0, bytes_out = 0\<rparr>"

definition record_connection_in :: "proxy_metrics \<Rightarrow> proxy_metrics" where
  "record_connection_in m = m\<lparr>connections_in := connections_in m + 1\<rparr>"

definition record_connection_out :: "proxy_metrics \<Rightarrow> proxy_metrics" where
  "record_connection_out m = m\<lparr>connections_out := connections_out m + 1\<rparr>"

definition record_bytes_in :: "u64 \<Rightarrow> proxy_metrics \<Rightarrow> proxy_metrics" where
  "record_bytes_in n m = m\<lparr>bytes_in := bytes_in m + n\<rparr>"

definition record_bytes_out :: "u64 \<Rightarrow> proxy_metrics \<Rightarrow> proxy_metrics" where
  "record_bytes_out n m = m\<lparr>bytes_out := bytes_out m + n\<rparr>"

text \<open>A snapshot reads the four counters one after the other.\<close>

type_synonym metrics_snapshot = proxy_metrics

definition snapshot :: "proxy_metrics \<Rightarrow> metrics_snapshot" where
  "snapshot m = \<lparr>connections_in = connections_in m, connections_out = connections_out m,
     bytes_in = bytes_in m, bytes_out = bytes_out m\<rparr>"

record server_metrics =
  total_connections :: u64
  active_connections :: u64
  total_proxies :: u64

type_synonym arc = nat

record metrics_collector =
  proxies :: "(string, arc) hmap"
  counters :: "arc \<Rightarrow> proxy_metrics"
  next_arc :: arc
  server_metrics :: server_metrics

definition metrics_new :: metrics_collector where
  "metrics_new =
     \<lparr>proxies = [], counters = (\<lambda>_. default_proxy_metrics), next_arc = 0,
      server_metrics = \<lparr>total_connections = 0, active_connections = 0, total_proxies = 0\<rparr>\<rparr>"

definition get_or_create_proxy :: "string \<Rightarrow> metrics_collector \<Rightarrow> arc \<times> metrics_collector" where
  "get_or_create_proxy name m =
     (case hm_get (proxies m) name of
        Some a \<Rightarrow> (a, m)
      | None \<Rightarrow>
          (let a = next_arc m in
           (a, m\<lparr>proxies := (name, a) # proxies m, counters := (counters m)(a := default_proxy_metrics),
                 next_arc := a + 1\<rparr>)))"

definition remove_proxy :: "string \<Rightarrow> metrics_collector \<Rightarrow> metrics_collector" where
  "remove_proxy name m = m\<lparr>proxies := filter (\<lambda>(n, _). n \<noteq> name) (proxies m)\<rparr>"

definition with_proxy :: "arc \<Rightarrow> (proxy_metrics \<Rightarrow> proxy_metrics) \<Rightarrow> metrics_collector \<Rightarrow> metrics_collector" where
  "with_proxy a f m = m\<lparr>counters := (counters m)(a := f (counters m a))\<rparr>"

definition record_connection :: "metrics_collector \<Rightarrow> metrics_collector" where
  "record_connection m =
     m\<lparr>server_metrics := (server_metrics m)
       \<lparr>total_connections := total_connections (server_metrics m) + 1,
        active_connections := active_connections (server_metrics m) + 1\<rparr>\<rparr>"

definition record_disconnection :: "metrics_collector \<Rightarrow> metrics_collector" where
  "record_disconnection m =
     m\<lparr>server_metrics := (server_metrics m)\<lparr>active_connections := active_connections (server_metrics m) - 1\<rparr>\<rparr>"

section \<open>Output\<close>

definition nl :: string where
  "nl = [CHR 0x0A]"

definition show_u64 :: "u64 \<Rightarrow> string" where
  "show_u64 n = show_nat (unat n)"

definition family_head :: "string \<Rightarrow> string \<Rightarrow> string \<Rightarrow> string" where
  "family_head name help kind =
     ''# HELP '' @ name @ '' '' @ help @ nl @ ''# TYPE '' @ name @ '' '' @ kind @ nl"

definition proxy_line :: "string \<Rightarrow> string \<Rightarrow> u64 \<Rightarrow> string" where
  "proxy_line metric proxy n =
     metric @ ''{proxy='' @ [CHR 0x22] @ proxy @ [CHR 0x22] @ ''} '' @ show_u64 n @ nl"

definition proxy_family :: "metrics_collector \<Rightarrow> string \<Rightarrow> string \<Rightarrow> (proxy_metrics \<Rightarrow> u64) \<Rightarrow> string" where
  "proxy_family m metric help f =
     nl @ family_head metric help ''counter'' @
     concat (map (\<lambda>(name, a). proxy_line metric name (f (counters m a))) (proxies m))"

definition prometheus_output :: "metrics_collector \<Rightarrow> string" where
  "prometheus_output m =
     family_head ''chagle_server_connections_total'' ''Total connections received'' ''counter'' @
     ''chagle_server_connections_total '' @ show_u64 (total_connections (server_metrics m)) @ nl @
     family_head ''chagle_server_connections_active'' ''Active connections'' ''gauge'' @
     ''chagle_server_connections_active '' @ show_u64 (active_connections (server_metrics m)) @ nl @
     proxy_family m ''chagle_proxy_connections_in'' ''Inbound connections per proxy'' connections_in @
     proxy_family m ''chagle_proxy_connections_out'' ''Outbound connections per proxy'' connections_out @
     proxy_family m ''chagle_proxy_bytes_in'' ''Bytes received per proxy'' bytes_in @
     proxy_family m ''chagle_proxy_bytes_out'' ''Bytes sent per proxy'' bytes_out"

text \<open>\<^verbatim>\<open>serde_json::to_string_pretty\<close> is a parameter; it is given the snapshots by name.\<close>

definition status_json :: "((string, metrics_snapshot) hmap \<Rightarrow> string option) \<Rightarrow> metrics_collector \<Rightarrow> string" where
  "status_json to_string_pretty m =
     (case to_string_pretty (map (\<lambda>(name, a). (name, snapshot (counters m a))) (proxies m)) of
        Some s \<Rightarrow> s
      | None \<Rightarrow> ''{}'')"

section \<open>The invariant\<close>

text \<open>Names are unique and their references are distinct and allocated.\<close>

definition metrics_wf :: "metrics_collector \<Rightarrow> bool" where
  "metrics_wf m \<longleftrightarrow> hm_wf (proxies m) \<and> distinct (map snd (proxies m)) \<and> (\<forall>a \<in> snd ` set (proxies m). a < next_arc m)"

lemma metrics_new_wf [wf_intros]: "metrics_wf metrics_new"
  by (simp add: metrics_wf_def metrics_new_def hm_wf_def)

lemma get_or_create_proxy_wf [wf_intros]:
  assumes "metrics_wf m"
  shows "metrics_wf (snd (get_or_create_proxy name m))"
proof (cases "hm_get (proxies m) name")
  case None
  have "next_arc m \<notin> snd ` set (proxies m)"
    using assms by (auto simp: metrics_wf_def)
  moreover have "name \<notin> fst ` set (proxies m)"
    using None by (simp add: hm_get_None_iff)
  ultimately show ?thesis
    using None assms by (auto simp: get_or_create_proxy_def metrics_wf_def hm_wf_def Let_def less_SucI)
next
  case (Some a)
  with assms show ?thesis by (simp add: get_or_create_proxy_def)
qed

lemma remove_proxy_wf [wf_intros]: "metrics_wf m \<Longrightarrow> metrics_wf (remove_proxy name m)"
  by (auto simp: metrics_wf_def remove_proxy_def hm_wf_def distinct_map_filter)

lemma record_wf [wf_intros]:
  "metrics_wf m \<Longrightarrow> metrics_wf (record_connection m)" "metrics_wf m \<Longrightarrow> metrics_wf (record_disconnection m)"
  "metrics_wf m \<Longrightarrow> metrics_wf (with_proxy a f m)"
  by (simp_all add: metrics_wf_def record_connection_def record_disconnection_def with_proxy_def)

lemma get_or_create_proxy_get:
  "metrics_wf m \<Longrightarrow> get_or_create_proxy name m = (a, m') \<Longrightarrow> hm_get (proxies m') name = Some a"
  by (cases "hm_get (proxies m) name") (auto simp: get_or_create_proxy_def hm_get_def Let_def)

text \<open>
  Asking twice for the counters of a proxy gives the same ones: two holders of a name
  count together, holders of different names never disturb each other, and counting under one
  name shows up in what the other names read not at all.
\<close>

theorem get_or_create_proxy_shared:
  assumes "metrics_wf m" and "get_or_create_proxy n1 m = (a, m1)" and "get_or_create_proxy n2 m1 = (b, m2)"
  shows "(a = b \<longleftrightarrow> n1 = n2) \<and> hm_get (proxies m2) n1 = Some a \<and>
    counters (with_proxy a f m2) b = (if n1 = n2 then f (counters m2 b) else counters m2 b)"
proof -
  have wf1: "metrics_wf m1"
    using get_or_create_proxy_wf [OF assms(1), of n1] assms(2) by simp
  have wf2: "metrics_wf m2"
    using get_or_create_proxy_wf [OF wf1, of n2] assms(3) by simp
  have a1: "hm_get (proxies m1) n1 = Some a" and b: "hm_get (proxies m2) n2 = Some b"
    using get_or_create_proxy_get assms wf1 by blast+
  have a: "hm_get (proxies m2) n1 = Some a"
    using assms(3) a1 by (cases "hm_get (proxies m1) n2") (auto simp: get_or_create_proxy_def hm_get_def Let_def)
  have "a = b \<longleftrightarrow> n1 = n2"
  proof
    assume "a = b"
    with a b have "(n1, a) \<in> set (proxies m2)" "(n2, a) \<in> set (proxies m2)"
      by (auto dest: hm_get_in_set)
    with wf2 show "n1 = n2"
      by (metis (no_types, lifting) distinct_map inj_onD metrics_wf_def prod.inject snd_conv)
  qed (use a b in simp)
  with a show ?thesis
    by (auto simp: with_proxy_def)
qed

theorem get_or_create_proxy_shared_witness:
  "fst (get_or_create_proxy ''ssh'' (snd (get_or_create_proxy ''ssh'' metrics_new))) =
   fst (get_or_create_proxy ''ssh'' metrics_new)"
  using get_or_create_proxy_shared [OF metrics_new_wf, of "''ssh''" _ _ "''ssh''"] by (metis prod.collapse)

end
