(* ===== verification/Server.thy ===== *)
theory Server
  imports Multi_Map Protocol Config_Watcher Http_Proxy Metrics
begin

text \<open>
  The server (\<^verbatim>\<open>server.rs\<close>): its state, the handshakes of control channels, data channels and
  visitors, hot reload, the control channel loop, the TCP and UDP connection pools and the
  virtual host listener.

  A handle of the control channel map refers to the queues and tasks of its channel by an
  identifier; \<open>sv_chans\<close> holds them. Dropping the handle drops the sender of its shutdown
  signal, which ends both tasks of the channel, so a channel is live exactly while its handle
  is in the map. A handler is a computation on the server and its own connection. Random
  nonces are arguments. Failed writes and peers that close early are outcomes of the
  connection, a panic (the unwrap of a missing token) is an error of its own, and undefined
  behaviour of the map is an error too, so its absence can be proved.
\<close>

section \<open>State\<close>

definition CHAN_SIZE :: nat where "CHAN_SIZE = 2048"
definition HANDSHAKE_TIMEOUT :: nat where "HANDSHAKE_TIMEOUT = 5"
definition UDP_BUFFER_SIZE :: nat where "UDP_BUFFER_SIZE = 2048"

type_synonym service_digest = digest
type_synonym nonce = digest

text \<open>The task that receives the data channels: a pool bound to an address, or one that only waits for shutdown.\<close>

datatype pool = TcpPool string | UdpPool string | Parked

record handle =
  hd_chan :: nat
  hd_service :: server_service_config

record channel =
  ch_conn :: conn
  ch_heartbeat_interval :: u64
  ch_pool :: pool
  ch_data :: "conn list"
  ch_requests :: nat
  ch_running :: bool
  ch_pool_open :: bool

record server =
  sv_config :: server_config
  sv_services :: "service_digest \<rightharpoonup> server_service_config"
  sv_channels :: "(service_digest, nonce, handle) multi_map"
  sv_router :: vhost_router
  sv_chans :: "nat \<rightharpoonup> channel"
  sv_next :: nat

datatype server_error =
    Proto proto_error
  | SIo io_error
  | NoSuchService
  | FailedAuthentication string
  | NotSecretType string
  | NoSecretKey string
  | VisitorKeyMismatch string
  | StaleControlChannel
  | RequestFailed
  | NoClientConnected string
  | MapUB ub
  | Panic
  | TransportFailed
  | MissingServerConfig
  | FeatureNotCompiled
  | BindFailed

section \<open>Starting\<close>

definition generate_service_hashmap ::
  "(bytes \<Rightarrow> bytes) \<Rightarrow> server_config \<Rightarrow> (service_digest \<rightharpoonup> server_service_config)" where
  "generate_service_hashmap sha256 cfg =
     fold (\<lambda>(name, s) ret. if ss_is_enabled s then ret(digest sha256 (as_bytes name) \<mapsto> s) else ret)
       (sc_services cfg) Map.empty"

definition http_route_of :: "string \<Rightarrow> server_service_config \<Rightarrow> http_route" where
  "http_route_of name svc =
     \<lparr>rt_service_name = name,
      rt_custom_domains = case_option [] id (ss_custom_domains svc),
      rt_subdomain = ss_subdomain svc,
      rt_locations = case_option [] id (ss_locations svc),
      rt_host_header_rewrite = ss_host_header_rewrite svc,
      rt_http_user = ss_http_user svc,
      rt_http_password = ss_http_password svc,
      rt_request_headers = case_option [] id (ss_request_headers svc),
      rt_response_headers = case_option [] id (ss_response_headers svc),
      rt_route_by_http_user = ss_route_by_http_user svc\<rparr>"

definition is_http :: "server_service_config \<Rightarrow> bool" where
  "is_http s \<longleftrightarrow> ss_service_type s \<in> {Http, Https}"

definition initial_router :: "server_config \<Rightarrow> vhost_router" where
  "initial_router cfg =
     fold (\<lambda>(name, svc) r. if \<not> ss_is_enabled svc then r
        else if is_http svc then add_route (http_route_of name svc) r else r)
       (sc_services cfg) (vhost_router_new (sc_subdomain_host cfg))"

text \<open>\<open>transport_new\<close> is the constructor of the transport, which may reject its configuration.\<close>

definition server_from ::
  "(bytes \<Rightarrow> bytes) \<Rightarrow> (transport_config \<Rightarrow> bool) \<Rightarrow> server_config \<Rightarrow> server_error + server" where
  "server_from sha256 transport_new cfg =
     rbind (require (transport_new (sc_transport cfg)) TransportFailed) (\<lambda>_.
     Inr \<lparr>sv_config = cfg, sv_services = generate_service_hashmap sha256 cfg, sv_channels = mm_new,
          sv_router = initial_router cfg, sv_chans = Map.empty, sv_next = 0\<rparr>)"

text \<open>\<^verbatim>\<open>run_server\<close>: which transport is started; \<open>compiled\<close> says which features the binary has.\<close>

definition run_server_transport :: "(transport_type \<Rightarrow> bool) \<Rightarrow> config \<Rightarrow> server_error + transport_type \<times> server_config" where
  "run_server_transport compiled config =
     rbind (ok_or (cfg_server config) MissingServerConfig) (\<lambda>cfg.
     case tr_transport_type (sc_transport cfg) of
       TTcp \<Rightarrow> Inr (TTcp, cfg)
     | TKcp \<Rightarrow> Inl FeatureNotCompiled
     | TQuic \<Rightarrow> Inl FeatureNotCompiled
     | t \<Rightarrow> if compiled t then Inr (t, cfg) else Inl FeatureNotCompiled)"

section \<open>Computations on the server and a connection\<close>

type_synonym 'a handler = "(server \<times> conn, server_error, 'a) sm"

definition on_conn :: "(conn, 'e, 'a) sm \<Rightarrow> (server \<times> conn, 'e, 'a) sm" where
  "on_conn m sc = (case m (snd sc) of (c', r) \<Rightarrow> ((fst sc, c'), r))"

definition get_server :: "server handler" where
  "get_server sc = (sc, Inr (fst sc))"

definition get_conn :: "conn handler" where
  "get_conn sc = (sc, Inr (snd sc))"

definition put_server :: "server \<Rightarrow> unit handler" where
  "put_server s sc = ((s, snd sc), Inr ())"

definition send :: "bytes \<Rightarrow> unit handler" where
  "send bs = on_conn (smap_err SIo (write_all bs))"

definition flush_conn :: "unit handler" where
  "flush_conn = on_conn (smap_err SIo flush)"

definition remove_channel :: "service_digest \<Rightarrow> handle option handler" where
  "remove_channel d sc =
     (case mm_remove1 (sv_channels (fst sc)) d of
        Inl u \<Rightarrow> (sc, Inl (MapUB u))
      | Inr (old, m) \<Rightarrow> (((fst sc)\<lparr>sv_channels := m\<rparr>, snd sc), Inr old))"

section \<open>Channels\<close>

definition pool_of :: "server_service_config \<Rightarrow> pool" where
  "pool_of s =
     (case ss_service_type s of
        Tcp \<Rightarrow> TcpPool (ss_bind_addr s)
      | Tcpmux \<Rightarrow> TcpPool (ss_bind_addr s)
      | Udp \<Rightarrow> UdpPool (ss_bind_addr s)
      | Http \<Rightarrow> if ss_bind_addr s \<noteq> [] then TcpPool (ss_bind_addr s) else Parked
      | Https \<Rightarrow> if ss_bind_addr s \<noteq> [] then TcpPool (ss_bind_addr s) else Parked
      | Stcp \<Rightarrow> Parked
      | Xtcp \<Rightarrow> Parked
      | Sudp \<Rightarrow> if ss_bind_addr s \<noteq> [] then UdpPool (ss_bind_addr s) else Parked)"

definition new_channel :: "conn \<Rightarrow> server_service_config \<Rightarrow> u64 \<Rightarrow> channel" where
  "new_channel c s heartbeat_interval =
     \<lparr>ch_conn = c, ch_heartbeat_interval = heartbeat_interval, ch_pool = pool_of s, ch_data = [],
      ch_requests = unat (ss_pool_size s), ch_running = True, ch_pool_open = True\<rparr>"

text \<open>\<^verbatim>\<open>ControlChannelHandle::new\<close> and the insertion of the handle, which may be refused silently.\<close>

definition control_channel_handle_new :: "server_service_config \<Rightarrow> handle handler" where
  "control_channel_handle_new s sc =
     (let sv = fst sc; i = sv_next sv in
      ((sv\<lparr>sv_chans := (sv_chans sv)(i \<mapsto> new_channel (snd sc) s (sc_heartbeat_interval (sv_config sv))),
           sv_next := i + 1\<rparr>, snd sc),
       Inr \<lparr>hd_chan = i, hd_service = s\<rparr>))"

definition insert_channel :: "service_digest \<Rightarrow> nonce \<Rightarrow> handle \<Rightarrow> unit handler" where
  "insert_channel d k h sc =
     (case mm_insert d k h (sv_channels (fst sc)) of
        Inl u \<Rightarrow> (sc, Inl (MapUB u))
      | Inr (_, m) \<Rightarrow> (((fst sc)\<lparr>sv_channels := m\<rparr>, snd sc), Inr ()))"

section \<open>Handshakes\<close>

definition send_ack :: "bincode \<Rightarrow> ack \<Rightarrow> unit handler" where
  "send_ack B a = send (enc (ack_codec B) a)"

text \<open>
  The control channel handshake up to the point where it waits for the client's answer: the
  hello with the nonce, the lookup, the token. It returns the service as it was looked up and
  the bytes that the answer has to be the digest of.
\<close>

definition control_handshake_begin ::
  "bincode \<Rightarrow> nonce \<Rightarrow> service_digest \<Rightarrow> (server_service_config \<times> bytes) handler" where
  "control_handshake_begin B nonce service_digest =
     sbind (send (enc (hello_codec B) (ControlChannelHello CURRENT_PROTO_VERSION nonce))) (\<lambda>_.
     sbind flush_conn (\<lambda>_.
     sbind get_server (\<lambda>sv.
     case sv_services sv service_digest of
       None \<Rightarrow> sbind (send_ack B ServiceNotExist) (\<lambda>_. sfail NoSuchService)
     | Some service_config \<Rightarrow>
         (case ss_token service_config of
            None \<Rightarrow> sfail Panic
          | Some token \<Rightarrow> sret (service_config, as_bytes token @ nonce)))))"

text \<open>
  The rest of the handshake, with the answer of the client. From the removal of the previous
  channel to the insertion of the new one the write lock of the map is held.
\<close>

definition control_handshake_finish ::
  "bincode \<Rightarrow> (bytes \<Rightarrow> bytes) \<Rightarrow> service_digest \<Rightarrow> server_service_config \<Rightarrow> bytes \<Rightarrow> digest \<Rightarrow> unit handler" where
  "control_handshake_finish B sha256 service_digest service_config secret d =
     (let session_key = digest sha256 secret in
      if session_key \<noteq> d then
        sbind (send_ack B AuthFailed) (\<lambda>_. sfail (FailedAuthentication (ss_name service_config)))
      else
        sbind (remove_channel service_digest) (\<lambda>_.
        sbind (send_ack B AckOk) (\<lambda>_.
        sbind flush_conn (\<lambda>_.
        sbind (control_channel_handle_new service_config) (\<lambda>handle.
        insert_channel service_digest session_key handle)))))"

definition do_control_channel_handshake ::
  "bincode \<Rightarrow> (bytes \<Rightarrow> bytes) \<Rightarrow> nonce \<Rightarrow> service_digest \<Rightarrow> unit handler" where
  "do_control_channel_handshake B sha256 nonce service_digest =
     sbind (control_handshake_begin B nonce service_digest) (\<lambda>(service_config, secret).
     sbind (on_conn (smap_err Proto (read_auth B sha256))) (\<lambda>a.
     case a of Auth d \<Rightarrow> control_handshake_finish B sha256 service_digest service_config secret d))"

text \<open>
  A data channel is handed to the pool of its control channel. The queue is bounded: when it
  is full the handshake waits, holding the read lock of the map.
\<close>

datatype data_outcome = Delivered | IncorrectNonce | Waits

definition do_data_channel_handshake :: "nonce \<Rightarrow> data_outcome handler" where
  "do_data_channel_handshake nonce sc =
     (case mm_get2 (sv_channels (fst sc)) nonce of
        Inl u \<Rightarrow> (sc, Inl (MapUB u))
      | Inr None \<Rightarrow> (sc, Inr IncorrectNonce)
      | Inr (Some h) \<Rightarrow>
          (case sv_chans (fst sc) (hd_chan h) of
             None \<Rightarrow> (sc, Inl StaleControlChannel)
           | Some ch \<Rightarrow>
               if \<not> ch_pool_open ch then (sc, Inl StaleControlChannel)
               else if length (ch_data ch) \<ge> CHAN_SIZE * 2 then (sc, Inr Waits)
               else (((fst sc)\<lparr>sv_chans := (sv_chans (fst sc))(hd_chan h \<mapsto> ch\<lparr>ch_data := ch_data ch @ [snd sc]\<rparr>)\<rparr>,
                      snd sc), Inr Delivered)))"

text \<open>\<^verbatim>\<open>data_ch_req_tx.send(true)\<close>: fails when the control channel loop has ended.\<close>

definition request_on :: "nat \<Rightarrow> server \<Rightarrow> server option" where
  "request_on i sv =
     (case sv_chans sv i of
        Some ch \<Rightarrow>
          if ch_running ch
          then Some (sv\<lparr>sv_chans := (sv_chans sv)(i \<mapsto> ch\<lparr>ch_requests := ch_requests ch + 1\<rparr>)\<rparr>)
          else None
      | None \<Rightarrow> None)"

definition request_channel :: "nat \<Rightarrow> unit handler" where
  "request_channel i sc =
     (case request_on i (fst sc) of
        Some sv \<Rightarrow> ((sv, snd sc), Inr ())
      | None \<Rightarrow> (sc, Inl RequestFailed))"

definition get_channel1 :: "service_digest \<Rightarrow> handle option handler" where
  "get_channel1 d sc =
     (case mm_get1 (sv_channels (fst sc)) d of
        Inl u \<Rightarrow> (sc, Inl (MapUB u))
      | Inr r \<Rightarrow> (sc, Inr r))"

definition do_visitor_handshake :: "bincode \<Rightarrow> (bytes \<Rightarrow> bytes) \<Rightarrow> nonce \<Rightarrow> service_digest \<Rightarrow> unit handler" where
  "do_visitor_handshake B sha256 nonce service_digest =
     sbind get_server (\<lambda>sv.
     case sv_services sv service_digest of
       None \<Rightarrow> sbind (send_ack B ServiceNotExist) (\<lambda>_. sfail NoSuchService)
     | Some cfg \<Rightarrow>
         if ss_service_type cfg \<notin> {Stcp, Sudp, Xtcp} then
           sbind (send_ack B ServiceNotExist) (\<lambda>_. sfail (NotSecretType (ss_name cfg)))
         else
           (case ss_secret_key cfg of
              None \<Rightarrow> sfail (NoSecretKey (ss_name cfg))
            | Some secret_key \<Rightarrow>
                sbind (send (enc (hello_codec B) (ControlChannelHello CURRENT_PROTO_VERSION nonce))) (\<lambda>_.
                sbind flush_conn (\<lambda>_.
                sbind (on_conn (smap_err Proto (read_auth B sha256))) (\<lambda>a.
                case a of Auth d \<Rightarrow>
                  if digest sha256 (as_bytes secret_key @ nonce) \<noteq> d then
                    sbind (send_ack B SecretKeyMismatch) (\<lambda>_. sfail (VisitorKeyMismatch (ss_name cfg)))
                  else
                    sbind (get_channel1 service_digest) (\<lambda>r.
                    case r of
                      Some handle \<Rightarrow>
                        sbind (send_ack B AckOk) (\<lambda>_.
                        sbind flush_conn (\<lambda>_.
                        request_channel (hd_chan handle)))
                    | None \<Rightarrow>
                        sbind (send_ack B ServiceNotReady) (\<lambda>_. sfail (NoClientConnected (ss_name cfg)))))))))"

definition handle_connection :: "bincode \<Rightarrow> (bytes \<Rightarrow> bytes) \<Rightarrow> nonce \<Rightarrow> unit handler" where
  "handle_connection B sha256 nonce =
     sbind (on_conn (smap_err Proto (read_hello B sha256))) (\<lambda>hello.
     case hello of
       ControlChannelHello _ d \<Rightarrow> do_control_channel_handshake B sha256 nonce d
     | DataChannelHello _ n \<Rightarrow> sbind (do_data_channel_handshake n) (\<lambda>_. sret ())
     | VisitorHello _ d \<Rightarrow> do_visitor_handshake B sha256 nonce d)"

section \<open>Hot reload\<close>

definition drop_channel :: "service_digest \<Rightarrow> server \<Rightarrow> server_error + server" where
  "drop_channel d sv =
     (case mm_remove1 (sv_channels sv) d of
        Inl u \<Rightarrow> Inl (MapUB u)
      | Inr (_, m) \<Rightarrow> Inr (sv\<lparr>sv_channels := m\<rparr>))"

definition handle_hot_reload :: "(bytes \<Rightarrow> bytes) \<Rightarrow> config_change \<Rightarrow> server \<Rightarrow> server_error + server" where
  "handle_hot_reload sha256 e sv =
     (case e of
        ServerChange (SAdd cfg) \<Rightarrow>
          (let hash = digest sha256 (as_bytes (ss_name cfg));
               router = (if is_http cfg
                         then add_route (http_route_of (ss_name cfg) cfg) (remove_route (ss_name cfg) (sv_router sv))
                         else sv_router sv)
           in drop_channel hash (sv\<lparr>sv_router := router, sv_services := (sv_services sv)(hash \<mapsto> cfg)\<rparr>))
      | ServerChange (SDelete s) \<Rightarrow>
          (let hash = digest sha256 (as_bytes s)
           in drop_channel hash (sv\<lparr>sv_services := (sv_services sv)(hash := None),
                                    sv_router := remove_route s (sv_router sv)\<rparr>))
      | _ \<Rightarrow> Inr sv)"

section \<open>The accept loop\<close>

text \<open>What \<^verbatim>\<open>Server::run\<close> starts before the loop: the dashboard and the virtual host listener, if configured.\<close>

definition server_start ::
  "(string \<Rightarrow> bool) \<Rightarrow> server \<Rightarrow> server_error + web_server_config option \<times> string option" where
  "server_start bind sv =
     rbind (require (bind (sc_bind_addr (sv_config sv))) BindFailed) (\<lambda>_.
     Inr (sc_web_server (sv_config sv),
          map_option (\<lambda>port. ''0.0.0.0:'' @ show_nat (unat port)) (sc_vhost_http_port (sv_config sv))))"

text \<open>
  One turn of the loop of \<^verbatim>\<open>Server::run\<close>. A connection is accepted and its transport
  handshake succeeds, fails or times out within \<^verbatim>\<open>HANDSHAKE_TIMEOUT\<close>; then it is handled by a
  task of its own, here to its end. An error of the connection is logged, not propagated. A
  panic ends the process.
\<close>

datatype server_input =
    AcceptFailed
  | Accepted conn nonce
  | HandshakeFailed
  | Reload config_change
  | ShutdownSignal

record server_run =
  sr_server :: server
  sr_metrics :: metrics_collector
  sr_up :: bool

definition server_step :: "bincode \<Rightarrow> (bytes \<Rightarrow> bytes) \<Rightarrow> server_input \<Rightarrow> server_run \<Rightarrow> server_run" where
  "server_step B sha256 i r =
     (if \<not> sr_up r then r
      else case i of
        AcceptFailed \<Rightarrow> r
      | Accepted c n \<Rightarrow>
          (case handle_connection B sha256 n (sr_server r, c) of
             ((sv, _), res) \<Rightarrow>
               if res = Inl Panic then r\<lparr>sr_server := sv, sr_up := False\<rparr>
               else r\<lparr>sr_server := sv, sr_metrics := record_disconnection (record_connection (sr_metrics r))\<rparr>)
      | HandshakeFailed \<Rightarrow> r\<lparr>sr_metrics := record_disconnection (record_connection (sr_metrics r))\<rparr>
      | Reload e \<Rightarrow>
          (case handle_hot_reload sha256 e (sr_server r) of
             Inr sv \<Rightarrow> r\<lparr>sr_server := sv\<rparr>
           | Inl _ \<Rightarrow> r\<lparr>sr_up := False\<rparr>)
      | ShutdownSignal \<Rightarrow> r\<lparr>sr_up := False\<rparr>)"

section \<open>The control channel loop\<close>

datatype run_event = Requested | RequestsClosed | HeartbeatDue | ShutdownReceived

text \<open>One turn of \<^verbatim>\<open>ControlChannel::run\<close>; the heartbeat branch is disabled when the interval is zero.\<close>

definition control_channel_step :: "bincode \<Rightarrow> run_event \<Rightarrow> channel \<Rightarrow> channel" where
  "control_channel_step B e ch =
     (if \<not> ch_running ch then ch
      else case e of
        Requested \<Rightarrow>
          if ch_requests ch = 0 then ch
          else (case write_and_flush (enc (c_cmd_codec B) CreateDataChannel) (ch_conn ch) of
                  (c, r) \<Rightarrow> ch\<lparr>ch_conn := c, ch_requests := ch_requests ch - 1, ch_running := is_ok r\<rparr>)
      | RequestsClosed \<Rightarrow> ch\<lparr>ch_running := False\<rparr>
      | HeartbeatDue \<Rightarrow>
          if ch_heartbeat_interval ch = 0 then ch
          else (case write_and_flush (enc (c_cmd_codec B) HeartBeat) (ch_conn ch) of
                  (c, r) \<Rightarrow> ch\<lparr>ch_conn := c, ch_running := is_ok r\<rparr>)
      | ShutdownReceived \<Rightarrow> ch\<lparr>ch_running := False\<rparr>)"

section \<open>The TCP connection pool\<close>

text \<open>
  The listener asks for a data channel for every visitor it accepts, then queues the visitor.
  The pool pairs the next visitor with the first data channel that takes the command, asking
  for a replacement of every one that does not. \<open>tp_req_open\<close> and \<open>tp_data_open\<close> say whether
  the other ends of the two queues still exist. \<open>tp_pairs\<close> are the pairs forwarded so far,
  \<open>tp_requested\<close>, \<open>tp_accepted\<close> and \<open>tp_broken\<close> count the requests, the visitors and the data
  channels that failed.
\<close>

record tcp_pool =
  tp_visitors :: "nat list"
  tp_data :: "conn list"
  tp_pairs :: "(nat \<times> conn) list"
  tp_requested :: nat
  tp_accepted :: nat
  tp_broken :: nat
  tp_listening :: bool
  tp_running :: bool
  tp_req_open :: bool
  tp_data_open :: bool

text \<open>The pool as \<^verbatim>\<open>ControlChannelHandle::new\<close> starts it, after it has requested \<open>pool_size\<close> data channels.\<close>

definition tcp_pool_new :: "nat \<Rightarrow> tcp_pool" where
  "tcp_pool_new pool_size =
     \<lparr>tp_visitors = [], tp_data = [], tp_pairs = [], tp_requested = pool_size, tp_accepted = 0, tp_broken = 0,
      tp_listening = True, tp_running = True, tp_req_open = True, tp_data_open = True\<rparr>"

text \<open>
  \<^verbatim>\<open>tcp_listen_and_send\<close>: a visitor arrives. It is accepted unless the listener has ended or waits
  for room in its queue: \<open>tp_visitors\<close> are the visitor that the pool has taken, those in the
  queue, and the one that waits to be queued. When the pool has ended the visitor is dropped.
\<close>

definition pool_accept :: "nat \<Rightarrow> tcp_pool \<Rightarrow> tcp_pool" where
  "pool_accept v p =
     (if \<not> tp_listening p \<or> tp_running p \<and> length (tp_visitors p) \<ge> CHAN_SIZE + 2 then p
      else if \<not> tp_req_open p then p\<lparr>tp_listening := False\<rparr>
      else p\<lparr>tp_requested := tp_requested p + 1,
             tp_visitors := if tp_running p then tp_visitors p @ [v] else tp_visitors p,
             tp_accepted := tp_accepted p + 1\<rparr>)"

text \<open>The listener receives the shutdown signal, or the sender of the signal is gone.\<close>

definition pool_shutdown :: "tcp_pool \<Rightarrow> tcp_pool" where
  "pool_shutdown p = p\<lparr>tp_listening := False\<rparr>"

text \<open>A data channel arrives from the handshake.\<close>

definition pool_offer :: "conn \<Rightarrow> tcp_pool \<Rightarrow> tcp_pool" where
  "pool_offer c p = p\<lparr>tp_data := tp_data p @ [c]\<rparr>"

text \<open>The body of \<^verbatim>\<open>run_tcp_connection_pool\<close>: one data channel is taken for the visitor at the head.\<close>

definition pool_turn :: "bincode \<Rightarrow> tcp_pool \<Rightarrow> tcp_pool" where
  "pool_turn B p =
     (if \<not> tp_running p then p
      else case tp_visitors p of
        [] \<Rightarrow> if tp_listening p then p else p\<lparr>tp_running := False\<rparr>
      | v # vs \<Rightarrow>
          (case tp_data p of
             [] \<Rightarrow> if tp_data_open p then p else p\<lparr>tp_running := False\<rparr>
           | ch # chs \<Rightarrow>
               (case write_and_flush (enc (d_cmd_codec B) StartForwardTcp) ch of
                  (ch', r) \<Rightarrow>
                    if is_ok r
                    then p\<lparr>tp_visitors := vs, tp_data := chs, tp_pairs := tp_pairs p @ [(v, ch')]\<rparr>
                    else if \<not> tp_req_open p then p\<lparr>tp_data := chs, tp_running := False\<rparr>
                    else p\<lparr>tp_data := chs, tp_requested := tp_requested p + 1, tp_broken := tp_broken p + 1\<rparr>)))"

section \<open>The UDP connection pool\<close>

record udp_pool =
  up_conn :: conn
  up_sent :: "(socket_addr \<times> bytes) list"
  up_running :: bool

text \<open>\<open>FromClient\<close> says whether sending the datagram on to the visitor succeeds.\<close>

datatype udp_event = FromVisitor socket_addr bytes | VisitorFailed | FromClient bool | UdpShutdown

definition udp_pool_start :: "bincode \<Rightarrow> conn option \<Rightarrow> udp_pool option" where
  "udp_pool_start B ch =
     (case ch of
        None \<Rightarrow> None
      | Some c \<Rightarrow>
          (case write_and_flush (enc (d_cmd_codec B) StartForwardUdp) c of
             (c', Inr _) \<Rightarrow> Some \<lparr>up_conn = c', up_sent = [], up_running = True\<rparr>
           | (_, Inl _) \<Rightarrow> None))"

text \<open>One turn of the loop; a datagram longer than the buffer is cut to it, and any error ends the pool.\<close>

definition udp_pool_step :: "bincode \<Rightarrow> udp_event \<Rightarrow> udp_pool \<Rightarrow> udp_pool" where
  "udp_pool_step B e p =
     (if \<not> up_running p then p
      else case e of
        FromVisitor from data \<Rightarrow>
          (case udp_write_slice B from (take UDP_BUFFER_SIZE data) (up_conn p) of
             (c, r) \<Rightarrow> p\<lparr>up_conn := c, up_running := is_ok r\<rparr>)
      | VisitorFailed \<Rightarrow> p\<lparr>up_running := False\<rparr>
      | FromClient ok \<Rightarrow>
          (case udp_recv B (up_conn p) of
             (c, Inr t) \<Rightarrow>
               if ok then p\<lparr>up_conn := c, up_sent := up_sent p @ [(t_from t, t_data t)]\<rparr>
               else p\<lparr>up_conn := c, up_running := False\<rparr>
           | (c, Inl _) \<Rightarrow> p\<lparr>up_conn := c, up_running := False\<rparr>)
      | UdpShutdown \<Rightarrow> p\<lparr>up_running := False\<rparr>)"

section \<open>The virtual host listener\<close>

text \<open>
  The task of one HTTP connection: the answer it gives, if any. The failure of writing an
  answer is ignored.
\<close>

datatype vhost_answer =
  NoAnswer | Answer401 | Answer404 "string option" | Answer502 | Routed string | MapMisused ub

definition vhost_request ::
  "(bytes \<Rightarrow> bytes) \<Rightarrow> (bytes \<Rightarrow> httparse_result) \<Rightarrow> bytes list \<Rightarrow> server \<Rightarrow> server \<times> vhost_answer" where
  "vhost_request sha256 httparse chunks sv =
     (case snd (read_http_header chunks) of
        Inl _ \<Rightarrow> (sv, NoAnswer)
      | Inr header_buf \<Rightarrow>
          (case parse_http_request httparse header_buf of
             Inl _ \<Rightarrow> (sv, NoAnswer)
           | Inr info \<Rightarrow>
               (case match_route (sv_router sv) (req_host info) (req_path info) of
                  None \<Rightarrow> (sv, Answer404 (sc_custom_404_page (sv_config sv)))
                | Some route \<Rightarrow>
                    if (case (rt_http_user route, rt_http_password route) of
                          (Some user, Some pass) \<Rightarrow> \<not> validate_basic_auth (req_headers info) user pass
                        | _ \<Rightarrow> False)
                    then (sv, Answer401)
                    else
                      (case mm_get1 (sv_channels sv) (digest sha256 (as_bytes (rt_service_name route))) of
                         Inr (Some handle) \<Rightarrow>
                           (case request_on (hd_chan handle) sv of
                              Some sv' \<Rightarrow> (sv', Routed (rt_service_name route))
                            | None \<Rightarrow> (sv, Answer502))
                       | Inr None \<Rightarrow> (sv, Answer502)
                       | Inl u \<Rightarrow> (sv, MapMisused u)))))"

end
