(* ===== verification/Server_Safety.thy ===== *)
theory Server_Safety
  imports Server
begin

text \<open>
  Safety of the server: the handshakes change the control channels only for a client that knows
  the token, the map of channels is never misused, no reachable interleaving of handshakes,
  data channels, visitors and reloads panics as long as every service has a token, and what hot
  reload does to the table of services is what the events of the watcher mean.
\<close>

section \<open>Running handlers\<close>

lemma send_run:
  "send bs (sv, c) = (if wr_left c = 0 then ((sv, c), Inl (SIo WriteFailed))
     else ((sv, c\<lparr>tx := tx c @ bs, wr_left := wr_left c - 1\<rparr>), Inr ()))"
  by (simp add: send_def on_conn_def smap_err_def write_all_def)

lemma flush_run:
  "flush_conn (sv, c) = (if wr_left c = 0 then ((sv, c), Inl (SIo WriteFailed))
     else ((sv, c\<lparr>wr_left := wr_left c - 1\<rparr>), Inr ()))"
  by (simp add: flush_conn_def on_conn_def smap_err_def flush_def)

lemma get_server_run: "get_server (sv, c) = ((sv, c), Inr sv)"
  by (simp add: get_server_def)

lemma on_conn_run: "on_conn m (sv, c) = (case m c of (c', r) \<Rightarrow> ((sv, c'), r))"
  by (simp add: on_conn_def)

lemmas handler_run = sbind_def send_run flush_run get_server_run send_ack_def sm_defs

text \<open>A computation that leaves the server alone, whatever its outcome.\<close>

definition pure_handler :: "'a handler \<Rightarrow> bool" where
  "pure_handler m \<longleftrightarrow> (\<forall>sv c. fst (fst (m (sv, c))) = sv)"

lemma pure_send [intro]: "pure_handler (send bs)"
  by (simp add: pure_handler_def send_run)

lemma pure_flush [intro]: "pure_handler flush_conn"
  by (simp add: pure_handler_def flush_run)

lemma pure_on_conn [intro]: "pure_handler (on_conn m)"
  by (simp add: pure_handler_def on_conn_def split: prod.splits)

lemma pure_get_server [intro]: "pure_handler get_server"
  by (simp add: pure_handler_def get_server_def)

lemma pure_sret [intro]: "pure_handler (sret x)" and pure_sfail [intro]: "pure_handler (sfail e)"
  by (simp_all add: pure_handler_def sret_def sfail_def)

lemma pure_get_channel1 [intro]: "pure_handler (get_channel1 d)"
  by (simp add: pure_handler_def get_channel1_def split: sum.splits)

lemma pure_sbind [intro]: "pure_handler m \<Longrightarrow> (\<And>x. pure_handler (f x)) \<Longrightarrow> pure_handler (sbind m f)"
  by (simp add: pure_handler_def sbind_def split: prod.splits sum.splits) (metis fst_conv)

lemma pure_send_ack [intro]: "pure_handler (send_ack B a)"
  by (simp add: send_ack_def pure_send)

lemma pure_begin: "pure_handler (control_handshake_begin B n d)"
  unfolding control_handshake_begin_def
  by (intro pure_sbind pure_send pure_flush pure_get_server)
    (auto split: option.splits)

lemma pure_run: "pure_handler m \<Longrightarrow> m (sv, c) = ((sv', c'), r) \<Longrightarrow> sv' = sv"
  unfolding pure_handler_def by (metis fst_conv)

section \<open>The invariant\<close>

text \<open>
  The map of control channels is well formed, every handle in it has its channel, and the
  session key of every channel is the digest of its service's token and a nonce.
\<close>

definition session_key_of :: "(bytes \<Rightarrow> bytes) \<Rightarrow> server_service_config \<Rightarrow> nonce \<Rightarrow> bool" where
  "session_key_of sha256 cfg k \<longleftrightarrow>
     (\<exists>t n. ss_token cfg = Some t \<and> length n = HASH_WIDTH_IN_BYTES \<and> k = digest sha256 (as_bytes t @ n))"

definition server_wf :: "(bytes \<Rightarrow> bytes) \<Rightarrow> server \<Rightarrow> bool" where
  "server_wf sha256 sv \<longleftrightarrow>
     mm_wf (sv_channels sv) \<and>
     (\<forall>(d, k, h) \<in> mm_abs (sv_channels sv).
        session_key_of sha256 (hd_service h) k \<and> hd_chan h < sv_next sv \<and> sv_chans sv (hd_chan h) \<noteq> None)"

definition tokens_set :: "server \<Rightarrow> bool" where
  "tokens_set sv \<longleftrightarrow> (\<forall>cfg \<in> ran (sv_services sv). ss_token cfg \<noteq> None)"

lemma remove_channel_run:
  assumes "mm_wf (sv_channels sv)"
  obtains old m where "remove_channel d (sv, c) = ((sv\<lparr>sv_channels := m\<rparr>, c), Inr old)" "mm_wf m"
    "mm_abs m = {it \<in> mm_abs (sv_channels sv). fst it \<noteq> d}"
  using mm.rem1_total [OF assms, of d] by (metis (no_types, lifting) case_prod_conv fst_conv remove_channel_def snd_conv sum.case(2))

lemma drop_channel_run:
  assumes "mm_wf (sv_channels sv)"
  obtains m where "drop_channel d sv = Inr (sv\<lparr>sv_channels := m\<rparr>)" "mm_wf m"
    "mm_abs m = {it \<in> mm_abs (sv_channels sv). fst it \<noteq> d}"
  using mm.rem1_total [OF assms, of d] by (metis (no_types, lifting) case_prod_conv drop_channel_def sum.case(2))

text \<open>Inserting after the removal: an entry for the digest, unless another service holds the session key.\<close>

lemma insert_channel_run:
  assumes "mm_wf (sv_channels sv)" and "d \<notin> fst ` mm_abs (sv_channels sv)"
  obtains m where "insert_channel d k h (sv, c) = ((sv\<lparr>sv_channels := m\<rparr>, c), Inr ())" "mm_wf m"
    "mm_abs m = (if k \<in> key2 ` mm_abs (sv_channels sv) then mm_abs (sv_channels sv)
                 else insert (d, k, h) (mm_abs (sv_channels sv)))"
proof (cases "k \<in> key2 ` mm_abs (sv_channels sv)")
  case True
  then obtain d' v where "(d', k, v) \<in> mm_abs (sv_channels sv)" by (auto simp: key2_def)
  then have "mm_insert d k h (sv_channels sv) = Inr (Inl (d, k, h), sv_channels sv)"
    using mm.ins_taken [OF assms(1)] by blast
  then show thesis
    using True assms(1) by (intro that [of "sv_channels sv"]) (simp_all add: insert_channel_def)
next
  case False
  then obtain m where "mm_insert d k h (sv_channels sv) = Inr (Inr (), m)" "mm_wf m"
      "mm_abs m = insert (d, k, h) (mm_abs (sv_channels sv))"
    using mm.ins_fresh [OF assms(1), of d k h] assms(2) by (force simp: key2_def)
  then show thesis
    using False by (intro that [of m]) (simp_all add: insert_channel_def)
qed

lemma finish_cases:
  assumes "mm_wf (sv_channels sv)"
    and "control_handshake_finish B sha256 d cfg secret a (sv, c) = ((sv', c'), r)"
  obtains
    (denied) "digest sha256 secret \<noteq> a" "sv' = sv"
      "r = Inl (SIo WriteFailed) \<or> r = Inl (FailedAuthentication (ss_name cfg))"
  | (lost) m where "digest sha256 secret = a" "wr_left c < 2" "sv' = sv\<lparr>sv_channels := m\<rparr>" "mm_wf m"
      "mm_abs m = {it \<in> mm_abs (sv_channels sv). fst it \<noteq> d}" "r = Inl (SIo WriteFailed)"
  | (installed) m c'' where "digest sha256 secret = a" "2 \<le> wr_left c" "c' = c''" "c'' = c\<lparr>tx := tx c @ enc (ack_codec B) AckOk, wr_left := wr_left c - 2\<rparr>"
      "sv' = sv\<lparr>sv_channels := m,
         sv_chans := (sv_chans sv)(sv_next sv \<mapsto> new_channel c'' cfg (sc_heartbeat_interval (sv_config sv))),
         sv_next := sv_next sv + 1\<rparr>"
      "mm_wf m" "r = Inr ()"
      "mm_abs m = (let rest = {it \<in> mm_abs (sv_channels sv). fst it \<noteq> d} in
         if a \<in> key2 ` rest then rest else insert (d, a, \<lparr>hd_chan = sv_next sv, hd_service = cfg\<rparr>) rest)"
proof (cases "digest sha256 secret = a")
  case False
  with assms(2) show thesis
    by (intro denied) (auto simp: control_handshake_finish_def handler_run split: if_splits)
next
  case True
  obtain old m1 where rm: "remove_channel d (sv, c) = ((sv\<lparr>sv_channels := m1\<rparr>, c), Inr old)" and m1: "mm_wf m1"
      "mm_abs m1 = {it \<in> mm_abs (sv_channels sv). fst it \<noteq> d}"
    by (rule remove_channel_run [OF assms(1)])
  show thesis
  proof (cases "wr_left c < 2")
    case less: True
    with assms(2) True show thesis
      using m1 by (intro lost [of m1])
        (auto simp: control_handshake_finish_def handler_run rm split: if_splits)
  next
    case False
    let ?c = "c\<lparr>tx := tx c @ enc (ack_codec B) AckOk, wr_left := wr_left c - 2\<rparr>"
    let ?sv = "sv\<lparr>sv_channels := m1,
       sv_chans := (sv_chans sv)(sv_next sv \<mapsto> new_channel ?c cfg (sc_heartbeat_interval (sv_config sv))),
       sv_next := sv_next sv + 1\<rparr>"
    let ?h = "\<lparr>hd_chan = sv_next sv, hd_service = cfg\<rparr>"
    have "mm_wf (sv_channels ?sv)" "d \<notin> fst ` mm_abs (sv_channels ?sv)" by (auto simp: m1)
    then obtain m2 where ins: "insert_channel d a ?h (?sv, ?c) = ((?sv\<lparr>sv_channels := m2\<rparr>, ?c), Inr ())" "mm_wf m2"
        "mm_abs m2 = (if a \<in> key2 ` mm_abs (sv_channels ?sv) then mm_abs (sv_channels ?sv)
           else insert (d, a, ?h) (mm_abs (sv_channels ?sv)))"
      by (rule insert_channel_run)
    have "control_handshake_finish B sha256 d cfg secret a (sv, c) = ((?sv\<lparr>sv_channels := m2\<rparr>, ?c), Inr ())"
      using True False ins(1)
      by (simp add: control_handshake_finish_def handler_run rm control_channel_handle_new_def Let_def numeral_2_eq_2)
    with assms(2) True False ins(2,3) m1(2) show thesis
      by (intro installed [of ?c m2]) (auto simp: Let_def)
  qed
qed

lemma begin_Inr:
  assumes "control_handshake_begin B n d (sv, c) = ((sv', c'), Inr (cfg, secret))"
  shows "sv' = sv \<and> sv_services sv d = Some cfg \<and> (\<exists>t. ss_token cfg = Some t \<and> secret = as_bytes t @ n) \<and>
    c' = c\<lparr>tx := tx c @ enc (hello_codec B) (ControlChannelHello CURRENT_PROTO_VERSION n), wr_left := wr_left c - 2\<rparr> \<and>
    2 \<le> wr_left c"
  using assms
  by (auto simp: control_handshake_begin_def handler_run split: if_splits option.splits)

lemma begin_panic:
  "control_handshake_begin B n d (sv, c) = (sc, Inl Panic) \<Longrightarrow>
   \<exists>cfg. sv_services sv d = Some cfg \<and> ss_token cfg = None"
  by (auto simp: control_handshake_begin_def handler_run split: if_splits option.splits)

section \<open>Interleavings\<close>

text \<open>
  Tasks run concurrently and give way wherever they wait for a connection. A control channel
  handshake waits for the client's answer between its two halves, so it is two steps, with the
  handshakes in between in \<open>ps\<close>. The steps of \<open>chan_step\<close> only touch the queues and the loop of a
  channel: data channels, visitors, turns of the control channel loops, virtual host requests,
  and what a pool does: it takes a data channel, requests one, or ends and closes its queue. A
  visitor's handshake that waits before its last part is a failed visitor step and a request.
  \<open>ok\<close> restricts the reload events.
\<close>

inductive chan_step :: "bincode \<Rightarrow> (bytes \<Rightarrow> bytes) \<Rightarrow> server \<Rightarrow> server \<Rightarrow> bool" for B sha256 where
  data_step: "do_data_channel_handshake n (sv, c) = ((sv', c'), r) \<Longrightarrow> chan_step B sha256 sv sv'"
| visitor_step: "do_visitor_handshake B sha256 n d (sv, c) = ((sv', c'), r) \<Longrightarrow> chan_step B sha256 sv sv'"
| loop_step: "sv_chans sv i = Some ch \<Longrightarrow>
    chan_step B sha256 sv (sv\<lparr>sv_chans := (sv_chans sv)(i \<mapsto> control_channel_step B e ch)\<rparr>)"
| vhost_step: "vhost_request sha256 httparse chunks sv = (sv', answer) \<Longrightarrow> chan_step B sha256 sv sv'"
| take_step: "sv_chans sv i = Some ch \<Longrightarrow> ch_data ch = c # cs \<Longrightarrow>
    chan_step B sha256 sv (sv\<lparr>sv_chans := (sv_chans sv)(i \<mapsto> ch\<lparr>ch_data := cs\<rparr>)\<rparr>)"
| request_step: "request_on i sv = Some sv' \<Longrightarrow> chan_step B sha256 sv sv'"
| pool_end_step: "sv_chans sv i = Some ch \<Longrightarrow>
    chan_step B sha256 sv (sv\<lparr>sv_chans := (sv_chans sv)(i \<mapsto> ch\<lparr>ch_data := [], ch_pool_open := False\<rparr>)\<rparr>)"

record pending =
  pd_digest :: service_digest
  pd_service :: server_service_config
  pd_secret :: bytes
  pd_conn :: conn

inductive sstep ::
  "bincode \<Rightarrow> (bytes \<Rightarrow> bytes) \<Rightarrow> (config_change \<Rightarrow> bool) \<Rightarrow> server \<times> pending list \<Rightarrow> server \<times> pending list \<Rightarrow> bool"
  for B sha256 ok where
  begin_step: "length n = HASH_WIDTH_IN_BYTES \<Longrightarrow>
    control_handshake_begin B n d (sv, c) = ((sv', c'), Inr (cfg, secret)) \<Longrightarrow>
    sstep B sha256 ok (sv, ps) (sv', ps @ [\<lparr>pd_digest = d, pd_service = cfg, pd_secret = secret, pd_conn = c'\<rparr>])"
| begin_fail: "control_handshake_begin B n d (sv, c) = ((sv', c'), Inl e) \<Longrightarrow> e \<noteq> Panic \<Longrightarrow>
    sstep B sha256 ok (sv, ps) (sv', ps)"
| finish_step: "p \<in> set ps \<Longrightarrow> read_auth B sha256 (pd_conn p) = (c', Inr (Auth a)) \<Longrightarrow>
    control_handshake_finish B sha256 (pd_digest p) (pd_service p) (pd_secret p) a (sv, c') = ((sv', c''), r) \<Longrightarrow>
    sstep B sha256 ok (sv, ps) (sv', remove1 p ps)"
| abandon: "sstep B sha256 ok (sv, ps) (sv, remove1 p ps)"
| channel_step: "chan_step B sha256 sv sv' \<Longrightarrow> sstep B sha256 ok (sv, ps) (sv', ps)"
| reload_step: "ok e \<Longrightarrow> handle_hot_reload sha256 e sv = Inr sv' \<Longrightarrow> sstep B sha256 ok (sv, ps) (sv', ps)"

inductive_cases sstep_cases: "sstep B sha256 ok s s'"

abbreviation reachable ::
  "bincode \<Rightarrow> (bytes \<Rightarrow> bytes) \<Rightarrow> (config_change \<Rightarrow> bool) \<Rightarrow> server \<Rightarrow> server \<Rightarrow> pending list \<Rightarrow> bool" where
  "reachable B sha256 ok sv0 sv ps \<equiv> (sstep B sha256 ok)\<^sup>*\<^sup>* (sv0, []) (sv, ps)"

section \<open>Preservation\<close>

text \<open>A step of a channel changes nothing that the invariant speaks of.\<close>

definition only_chans :: "server \<Rightarrow> server \<Rightarrow> bool" where
  "only_chans sv sv' \<longleftrightarrow> (\<exists>f. sv' = sv\<lparr>sv_chans := f\<rparr> \<and> dom f = dom (sv_chans sv))"

lemma only_chans_refl [intro]: "only_chans sv sv"
  unfolding only_chans_def by (rule exI [of _ "sv_chans sv"]) simp

lemma only_chans_update [intro]:
  "sv_chans sv i = Some ch \<Longrightarrow> only_chans sv (sv\<lparr>sv_chans := (sv_chans sv)(i \<mapsto> ch')\<rparr>)"
  unfolding only_chans_def by (rule exI [of _ "(sv_chans sv)(i \<mapsto> ch')"]) auto

lemma only_chans_wf:
  assumes "only_chans sv sv'"
  shows "server_wf sha256 sv' = server_wf sha256 sv"
proof -
  obtain f where sv': "sv' = sv\<lparr>sv_chans := f\<rparr>" and "dom f = dom (sv_chans sv)"
    using assms by (auto simp: only_chans_def)
  then have "f i = None \<longleftrightarrow> sv_chans sv i = None" for i
    by (metis domIff)
  then show ?thesis
    by (simp add: sv' server_wf_def)
qed

lemma only_chans_services: "only_chans sv sv' \<Longrightarrow> sv_services sv' = sv_services sv"
  by (auto simp: only_chans_def)

lemma data_only_chans: "do_data_channel_handshake n (sv, c) = ((sv', c'), r) \<Longrightarrow> only_chans sv sv'"
  by (auto simp: do_data_channel_handshake_def split: sum.splits option.splits if_splits)

lemma request_on_only_chans: "request_on i sv = Some sv' \<Longrightarrow> only_chans sv sv'"
  by (auto simp: request_on_def split: option.splits if_splits)

lemma request_channel_only_chans: "request_channel i (sv, c) = ((sv', c'), r) \<Longrightarrow> only_chans sv sv'"
  by (auto simp: request_channel_def request_on_only_chans split: option.splits)

lemma vhost_only_chans: "vhost_request sha256 httparse chunks sv = (sv', answer) \<Longrightarrow> only_chans sv sv'"
  by (auto simp: vhost_request_def request_on_only_chans split: sum.splits option.splits if_splits)

definition chans_handler :: "'a handler \<Rightarrow> bool" where
  "chans_handler m \<longleftrightarrow> (\<forall>sv c sv' c' r. m (sv, c) = ((sv', c'), r) \<longrightarrow> only_chans sv sv')"

lemma only_chans_trans: "only_chans a b \<Longrightarrow> only_chans b c \<Longrightarrow> only_chans a c"
  by (auto simp: only_chans_def)

lemma chans_pure: "pure_handler m \<Longrightarrow> chans_handler m"
  using pure_run unfolding chans_handler_def by blast

lemma chans_request: "chans_handler (request_channel i)"
  using request_channel_only_chans unfolding chans_handler_def by blast

lemma chans_sbind: "chans_handler m \<Longrightarrow> (\<And>x. chans_handler (f x)) \<Longrightarrow> chans_handler (sbind m f)"
  unfolding chans_handler_def sbind_def
  by (fastforce split: prod.splits sum.splits intro: only_chans_trans)

lemmas chans_intros = chans_sbind chans_request chans_pure [OF pure_send] chans_pure [OF pure_send_ack]
  chans_pure [OF pure_flush] chans_pure [OF pure_get_server] chans_pure [OF pure_on_conn]
  chans_pure [OF pure_get_channel1] chans_pure [OF pure_sret] chans_pure [OF pure_sfail]

lemma visitor_chans: "chans_handler (do_visitor_handshake B sha256 n d)"
  unfolding do_visitor_handshake_def
  by (rule chans_sbind [OF chans_pure [OF pure_get_server]])
    (auto intro!: chans_intros split: option.split auth.split)

lemma visitor_only_chans: "do_visitor_handshake B sha256 n d (sv, c) = ((sv', c'), r) \<Longrightarrow> only_chans sv sv'"
  using visitor_chans unfolding chans_handler_def by blast

lemma chan_step_only: "chan_step B sha256 sv sv' \<Longrightarrow> only_chans sv sv'"
  by (induction rule: chan_step.induct)
    (auto intro: data_only_chans visitor_only_chans vhost_only_chans request_on_only_chans)

lemma reload_run:
  assumes "mm_wf (sv_channels sv)"
  shows "\<exists>sv' m. handle_hot_reload sha256 e sv = Inr sv' \<and> sv_channels sv' = m \<and> mm_wf m \<and>
    mm_abs m \<subseteq> mm_abs (sv_channels sv) \<and> sv_chans sv' = sv_chans sv \<and> sv_next sv' = sv_next sv \<and>
    ran (sv_services sv') \<subseteq> ran (sv_services sv) \<union> {cfg. e = ServerChange (SAdd cfg)}"
proof -
  have drop: "\<exists>m. drop_channel d sv2 = Inr (sv2\<lparr>sv_channels := m\<rparr>) \<and> mm_wf m \<and> mm_abs m \<subseteq> mm_abs (sv_channels sv)"
    if "sv_channels sv2 = sv_channels sv" for d sv2
    by (rule drop_channel_run [of sv2 d]) (use assms that in auto)
  show ?thesis
  proof (cases "\<exists>cfg. e = ServerChange (SAdd cfg)")
    case True
    then obtain cfg where e: "e = ServerChange (SAdd cfg)" by blast
    let ?hash = "digest sha256 (as_bytes (ss_name cfg))"
    let ?sv2 = "sv\<lparr>sv_router := if is_http cfg
        then add_route (http_route_of (ss_name cfg) cfg) (remove_route (ss_name cfg) (sv_router sv)) else sv_router sv,
        sv_services := (sv_services sv)(?hash \<mapsto> cfg)\<rparr>"
    obtain m where "drop_channel ?hash ?sv2 = Inr (?sv2\<lparr>sv_channels := m\<rparr>)" "mm_wf m" "mm_abs m \<subseteq> mm_abs (sv_channels sv)"
      using drop [of ?sv2 ?hash] by auto
    then show ?thesis
      by (auto simp: e handle_hot_reload_def Let_def ran_def split: if_splits)
  next
    case False
    show ?thesis
    proof (cases "\<exists>s. e = ServerChange (SDelete s)")
      case True
      then obtain s where e: "e = ServerChange (SDelete s)" by blast
      let ?hash = "digest sha256 (as_bytes s)"
      let ?sv2 = "sv\<lparr>sv_services := (sv_services sv)(?hash := None), sv_router := remove_route s (sv_router sv)\<rparr>"
      obtain m where "drop_channel ?hash ?sv2 = Inr (?sv2\<lparr>sv_channels := m\<rparr>)" "mm_wf m" "mm_abs m \<subseteq> mm_abs (sv_channels sv)"
        using drop [of ?sv2 ?hash] by auto
      then show ?thesis
        by (auto simp: e handle_hot_reload_def Let_def ran_def split: if_splits)
    next
      case False
      with \<open>\<not> (\<exists>cfg. e = ServerChange (SAdd cfg))\<close> assms show ?thesis
        by (auto simp: handle_hot_reload_def split: config_change.splits server_service_change.splits)
    qed
  qed
qed

definition sys_inv :: "(bytes \<Rightarrow> bytes) \<Rightarrow> server \<times> pending list \<Rightarrow> bool" where
  "sys_inv sha256 s \<longleftrightarrow> server_wf sha256 (fst s) \<and>
     (\<forall>p \<in> set (snd s). \<exists>t n. ss_token (pd_service p) = Some t \<and> length n = HASH_WIDTH_IN_BYTES \<and>
        pd_secret p = as_bytes t @ n)"

lemma finish_wf:
  assumes "server_wf sha256 sv" and "ss_token cfg = Some t" and "length n = HASH_WIDTH_IN_BYTES"
    and "control_handshake_finish B sha256 d cfg (as_bytes t @ n) a (sv, c) = ((sv', c'), r)"
  shows "server_wf sha256 sv' \<and> sv_services sv' = sv_services sv"
proof -
  have wf: "mm_wf (sv_channels sv)"
    using assms(1) by (simp add: server_wf_def)
  show ?thesis
  proof (cases rule: finish_cases [OF wf assms(4), case_names denied lost installed])
    case denied
    then show ?thesis using assms(1) by simp
  next
    case (lost m)
    then show ?thesis using assms(1) by (auto simp: server_wf_def)
  next
    case (installed m c'')
    have "session_key_of sha256 cfg a"
      using assms(2,3) installed(1) by (auto simp: session_key_of_def)
    then show ?thesis
      using assms(1) installed(5,6,8) by (fastforce simp: server_wf_def Let_def less_SucI split: if_splits)
  qed
qed

lemma reload_wf:
  assumes "server_wf sha256 sv" and "handle_hot_reload sha256 e sv = Inr sv'"
  shows "server_wf sha256 sv'"
proof -
  have "mm_wf (sv_channels sv)" using assms(1) by (simp add: server_wf_def)
  from reload_run [OF this, of sha256 e] assms show ?thesis
    by (auto simp: server_wf_def)
qed

lemma sstep_inv [wf_intros]:
  assumes "sstep B sha256 ok s s'" and "sys_inv sha256 s"
  shows "sys_inv sha256 s'"
  using assms
proof (cases rule: sstep.cases)
  case (begin_step n d sv c sv' c' cfg secret ps)
  then show ?thesis
    using assms(2) begin_Inr [OF begin_step(4)] by (auto simp: sys_inv_def)
next
  case (begin_fail n d sv c sv' c' e ps)
  then show ?thesis
    using assms(2) pure_run [OF pure_begin begin_fail(3)] by (auto simp: sys_inv_def)
next
  case (finish_step p ps c' a sv sv' c'' r)
  from finish_step(3) assms(2) finish_step(1) obtain t n where
    "ss_token (pd_service p) = Some t" "length n = HASH_WIDTH_IN_BYTES" "pd_secret p = as_bytes t @ n"
    by (auto simp: sys_inv_def)
  then have "server_wf sha256 sv'"
    using finish_wf [of sha256 sv] finish_step(1,5) assms(2) by (auto simp: sys_inv_def)
  then show ?thesis
    using assms(2) finish_step(1,2) set_remove1_subset [of p ps] by (auto simp: sys_inv_def)
next
  case (abandon sv ps p)
  then show ?thesis
    using assms(2) set_remove1_subset [of p ps] by (auto simp: sys_inv_def)
next
  case (reload_step e sv sv' ps)
  then show ?thesis
    using assms(2) reload_wf by (auto simp: sys_inv_def)
next
  case (channel_step sv sv' ps)
  then show ?thesis
    using assms(2) only_chans_wf [OF chan_step_only] by (auto simp: sys_inv_def)
qed

lemma reachable_inv:
  assumes "reachable B sha256 ok sv0 sv ps" and "server_wf sha256 sv0"
  shows "sys_inv sha256 (sv, ps)"
proof -
  have "sys_inv sha256 (sv0, [])"
    using assms(2) by (simp add: sys_inv_def)
  with assms(1) show ?thesis
    by (induction rule: rtranclp_induct) (auto intro: sstep_inv)
qed

lemma server_from_wf: "server_from sha256 tn cfg = Inr sv \<Longrightarrow> server_wf sha256 sv"
  by (auto simp: server_from_def result_iff server_wf_def mm_new_wf)

section \<open>Absence of panics and undefined behaviour\<close>

definition good_on :: "server \<Rightarrow> 'a handler \<Rightarrow> bool" where
  "good_on sv m \<longleftrightarrow> (\<forall>c sc e. m (sv, c) = (sc, Inl e) \<longrightarrow> e \<noteq> Panic \<and> (\<forall>u. e \<noteq> MapUB u))"

lemma good_sbind:
  assumes "pure_handler m" and "good_on sv m" and "\<And>x. good_on sv (f x)"
  shows "good_on sv (sbind m f)"
  unfolding good_on_def
proof (intro allI impI)
  fix c sc e
  assume "sbind m f (sv, c) = (sc, Inl e)"
  then consider "m (sv, c) = (sc, Inl e)" | s' x where "m (sv, c) = (s', Inr x)" "f x s' = (sc, Inl e)"
    by (auto simp: sbind_Inl_iff)
  then show "e \<noteq> Panic \<and> (\<forall>u. e \<noteq> MapUB u)"
  proof cases
    case 1
    with assms(2) show ?thesis unfolding good_on_def by blast
  next
    case 2
    moreover obtain c' where "s' = (sv, c')"
      using pure_run [OF assms(1)] 2(1) by (metis prod.collapse)
    ultimately show ?thesis
      using assms(3) unfolding good_on_def by blast
  qed
qed

lemma good_get_server: "good_on sv (f sv) \<Longrightarrow> good_on sv (sbind get_server f)"
  by (simp add: good_on_def sbind_def get_server_def)

lemma good_send [intro]: "good_on sv (send bs)"
  by (simp add: good_on_def send_run)

lemma good_send_ack [intro]: "good_on sv (send_ack B a)"
  by (simp add: send_ack_def good_send)

lemma good_flush [intro]: "good_on sv flush_conn"
  by (simp add: good_on_def flush_run)

lemma good_sret [intro]: "good_on sv (sret x)"
  by (simp add: good_on_def sret_def)

lemma good_sfail [intro]: "e \<noteq> Panic \<Longrightarrow> (\<And>u. e \<noteq> MapUB u) \<Longrightarrow> good_on sv (sfail e)"
  by (simp add: good_on_def sfail_def)

lemma good_proto [intro]: "good_on sv (on_conn (smap_err Proto m))"
proof -
  have "map_err Proto r = Inl e \<Longrightarrow> \<exists>p. e = Proto p" for r :: "proto_error + 'a" and e
    by (cases r) auto
  then show ?thesis
    by (fastforce simp: good_on_def on_conn_def smap_err_def split: prod.splits)
qed

lemma good_request [intro]: "good_on sv (request_channel i)"
  by (auto simp: good_on_def request_channel_def split: option.splits)

lemma good_get_channel1: "mm_wf (sv_channels sv) \<Longrightarrow> good_on sv (get_channel1 d)"
  using mm.get1_total [of "sv_channels sv" d] by (auto simp: good_on_def get_channel1_def split: sum.splits)

lemma good_data: "mm_wf (sv_channels sv) \<Longrightarrow> good_on sv (do_data_channel_handshake n)"
  using mm.get2_total [of "sv_channels sv" n]
  by (auto simp: good_on_def do_data_channel_handshake_def split: sum.splits option.splits if_splits)

lemmas pure_intros = pure_send pure_send_ack pure_flush pure_on_conn pure_get_server pure_sret pure_sfail
  pure_get_channel1

lemmas good_intros = good_send good_send_ack good_flush good_sret good_sfail good_proto good_request

lemma tokens_setD: "tokens_set sv \<Longrightarrow> sv_services sv d = Some cfg \<Longrightarrow> ss_token cfg \<noteq> None"
  unfolding tokens_set_def by (metis ranI)

lemma good_begin: "tokens_set sv \<Longrightarrow> good_on sv (control_handshake_begin B n d)"
  unfolding control_handshake_begin_def
  by (rule good_sbind [OF pure_send good_send], rule good_sbind [OF pure_flush good_flush], rule good_get_server)
    (auto dest: tokens_setD intro!: good_sbind pure_intros good_intros split: option.split)

lemma good_finish:
  assumes "mm_wf (sv_channels sv)"
  shows "good_on sv (control_handshake_finish B sha256 d cfg secret a)"
  unfolding good_on_def
proof (intro allI impI)
  fix c sc e
  assume "control_handshake_finish B sha256 d cfg secret a (sv, c) = (sc, Inl e)"
  then have "control_handshake_finish B sha256 d cfg secret a (sv, c) = ((fst sc, snd sc), Inl e)"
    by simp
  from finish_cases [OF assms this] show "e \<noteq> Panic \<and> (\<forall>u. e \<noteq> MapUB u)"
    by cases auto
qed

lemma good_visitor: "mm_wf (sv_channels sv) \<Longrightarrow> good_on sv (do_visitor_handshake B sha256 n d)"
  unfolding do_visitor_handshake_def
  by (rule good_get_server)
    (auto intro!: good_sbind good_get_channel1 pure_intros good_intros split: option.split auth.split)

lemma good_control:
  assumes "mm_wf (sv_channels sv)" and "tokens_set sv"
  shows "good_on sv (do_control_channel_handshake B sha256 n d)"
  unfolding do_control_channel_handshake_def
  by (rule good_sbind [OF pure_begin good_begin [OF assms(2)]])
    (auto intro!: good_sbind good_finish [OF assms(1)] pure_intros good_intros split: prod.split auth.split)

lemma good_connection:
  assumes "mm_wf (sv_channels sv)" and "tokens_set sv"
  shows "good_on sv (handle_connection B sha256 n)"
proof -
  have "good_on sv (sbind (do_data_channel_handshake k) (\<lambda>_. sret ()))" for k
    using good_data [OF assms(1), of k] by (fastforce simp: good_on_def sbind_Inl_iff sret_def)
  then show ?thesis
    unfolding handle_connection_def
    by (intro good_sbind pure_on_conn good_proto)
      (auto intro!: good_control [OF assms] good_visitor [OF assms(1)] split: hello.split)
qed

text \<open>Tokens stay set as long as only services with a token are added.\<close>

lemma sstep_tokens:
  assumes "sstep B sha256 ok s s'" and "sys_inv sha256 s" and "tokens_set (fst s)"
    and "\<And>cfg. ok (ServerChange (SAdd cfg)) \<Longrightarrow> ss_token cfg \<noteq> None"
  shows "tokens_set (fst s')"
  using assms(1)
proof (cases rule: sstep.cases)
  case (begin_step n d sv c sv' c' cfg secret ps)
  then show ?thesis
    using assms(3) begin_Inr [OF begin_step(4)] by simp
next
  case (begin_fail n d sv c sv' c' e ps)
  then show ?thesis
    using assms(3) pure_run [OF pure_begin begin_fail(3)] by simp
next
  case (finish_step p ps c' a sv sv' c'' r)
  from finish_step(1,3) assms(2) obtain t n where
    "ss_token (pd_service p) = Some t" "length n = HASH_WIDTH_IN_BYTES" "pd_secret p = as_bytes t @ n"
    by (auto simp: sys_inv_def)
  then have "sv_services sv' = sv_services sv"
    using finish_wf [of sha256 sv] finish_step(1,5) assms(2) by (auto simp: sys_inv_def)
  then show ?thesis
    using assms(3) finish_step(1,2) by (simp add: tokens_set_def)
next
  case (abandon sv ps p)
  then show ?thesis using assms(3) by simp
next
  case (reload_step e sv sv' ps)
  have "mm_wf (sv_channels sv)"
    using assms(2) reload_step(1) by (simp add: sys_inv_def server_wf_def)
  from reload_run [OF this, of sha256 e] reload_step(4)
  have "ran (sv_services sv') \<subseteq> ran (sv_services sv) \<union> {cfg. e = ServerChange (SAdd cfg)}"
    by auto
  then show ?thesis
    using assms(3,4) reload_step(1-3) by (fastforce simp: tokens_set_def)
next
  case (channel_step sv sv' ps)
  then show ?thesis
    using assms(3) only_chans_services [OF chan_step_only [OF channel_step(3)]] by (simp add: tokens_set_def)
qed

section \<open>Properties\<close>

lemma fold_hashmap_ran:
  "ran (fold (\<lambda>(name, s) ret. if P s then ret(f name \<mapsto> s) else ret) xs m) \<subseteq> ran m \<union> {s. \<exists>k. (k, s) \<in> set xs \<and> P s}"
proof (induction xs arbitrary: m)
  case (Cons x xs)
  obtain k s where x: "x = (k, s)" by force
  have ran: "ran (m(f k \<mapsto> s)) \<subseteq> insert s (ran m)"
    by (auto simp: ran_def split: if_splits)
  show ?case
  proof (cases "P s")
    case True
    have "ran (m(f k \<mapsto> s)) \<union> {s. \<exists>k. (k, s) \<in> set xs \<and> P s} \<subseteq> ran m \<union> {s. \<exists>k. (k, s) \<in> set (x # xs) \<and> P s}"
      using ran True x by auto
    with Cons.IH [of "m(f k \<mapsto> s)"] have "ran (fold (\<lambda>(name, s) ret. if P s then ret(f name \<mapsto> s) else ret) xs (m(f k \<mapsto> s)))
        \<subseteq> ran m \<union> {s. \<exists>k. (k, s) \<in> set (x # xs) \<and> P s}"
      by (rule subset_trans)
    then show ?thesis by (simp add: x True del: fun_upd_apply)
  next
    case False
    then show ?thesis using Cons.IH [of m] by (auto simp: x)
  qed
qed simp

lemma server_from_tokens:
  assumes "validate_server_config c = Inr cfg" and "server_from sha256 tn cfg = Inr sv"
  shows "tokens_set sv"
proof -
  obtain m where m: "hm_try_map (validate_server_service c) (sc_services c) = Inr m"
    and cfg: "cfg = c\<lparr>sc_services := m\<rparr>"
    using assms(1) by (auto simp: validate_server_config_iff)
  have "\<forall>(k, s) \<in> set m. ss_is_enabled s \<longrightarrow> ss_token s \<noteq> None"
    using hm_try_map_in_set [OF m] by (fastforce simp: result_iff split: if_splits)
  moreover have "sv_services sv = generate_service_hashmap sha256 cfg"
    using assms(2) by (auto simp: server_from_def result_iff)
  ultimately show ?thesis
    using fold_hashmap_ran [of ss_is_enabled "\<lambda>name. digest sha256 (as_bytes name)" m Map.empty]
    by (fastforce simp: tokens_set_def generate_service_hashmap_def cfg)
qed

lemma reachable_tokens:
  assumes "reachable B sha256 ok sv0 sv ps" and "server_wf sha256 sv0" and "tokens_set sv0"
    and "\<And>cfg. ok (ServerChange (SAdd cfg)) \<Longrightarrow> ss_token cfg \<noteq> None"
  shows "tokens_set sv"
proof -
  have "sys_inv sha256 (sv0, [])"
    using assms(2) by (simp add: sys_inv_def)
  with assms(1) have "sys_inv sha256 (sv, ps) \<and> tokens_set (fst (sv, ps))"
    by (induction rule: rtranclp_induct) (use assms(3,4) sstep_inv sstep_tokens in auto)
  then show ?thesis by simp
qed

text \<open>
  C1. A server started from a configuration that passed validation stays sound under every
  interleaving of handshakes, data channels, visitors, virtual host requests, turns of control
  channels and pools, and reloads, as long as the services added by reloads have tokens: the map of control
  channels keeps its invariant, so that its raw pointers are never misused, every channel in
  it exists and has a session key derived from its service's token, no connection makes the
  server panic, and every reload event is carried out.
\<close>

theorem server_reachable_safe:
  assumes "validate_server_config c0 = Inr cfg" and "server_from sha256 transport_new cfg = Inr sv0"
    and "reachable B sha256 ok sv0 sv ps"
    and "\<forall>s. ok (ServerChange (SAdd s)) \<longrightarrow> ss_token s \<noteq> None"
  shows "server_wf sha256 sv \<and> tokens_set sv \<and> good_on sv (handle_connection B sha256 n) \<and>
    (\<exists>sv'. handle_hot_reload sha256 e sv = Inr sv' \<and> server_wf sha256 sv')"
proof -
  have "server_wf sha256 sv0"
    using assms(2) by (rule server_from_wf)
  then have wf: "server_wf sha256 sv" and tok: "tokens_set sv"
    using reachable_inv [OF assms(3)] reachable_tokens [OF assms(3)] assms(4)
      server_from_tokens [OF assms(1,2)] by (auto simp: sys_inv_def)
  then have mm: "mm_wf (sv_channels sv)"
    by (simp add: server_wf_def)
  obtain sv' where sv': "handle_hot_reload sha256 e sv = Inr sv'"
    using reload_run [OF mm] by blast
  show ?thesis
    using wf tok good_connection [OF mm tok] sv' reload_wf [OF wf sv'] by blast
qed

definition example_sv :: server where
  "example_sv = \<lparr>sv_config = example_server_checked,
     sv_services = generate_service_hashmap (\<lambda>_. replicate 32 0) example_server_checked,
     sv_channels = mm_new, sv_router = initial_router example_server_checked, sv_chans = Map.empty, sv_next = 0\<rparr>"

lemma example_sv_from: "server_from (\<lambda>_. replicate 32 0) (\<lambda>_. True) example_server_checked = Inr example_sv"
  by (simp add: server_from_def example_sv_def)

definition example_pending :: pending where
  "example_pending = \<lparr>pd_digest = replicate 32 0, pd_service = snd (hd (sc_services example_server_checked)),
     pd_secret = as_bytes ''t'' @ replicate 32 5,
     pd_conn = \<lparr>rx = [], tx = enc_hello (ControlChannelHello 1 (replicate 32 5)), wr_left = 0\<rparr>\<rparr>"

lemma example_reachable:
  "reachable bincode_fixint (\<lambda>_. replicate 32 0) (\<lambda>_. False) example_sv example_sv [example_pending]"
proof -
  have "control_handshake_begin bincode_fixint (replicate 32 5) (replicate 32 0) (example_sv, \<lparr>rx = [], tx = [], wr_left = 2\<rparr>) =
      ((example_sv, pd_conn example_pending), Inr (pd_service example_pending, pd_secret example_pending))"
    by (simp add: control_handshake_begin_def handler_run example_sv_def generate_service_hashmap_def example_pending_def
        example_defs bincode_fixint_def CURRENT_PROTO_VERSION_def digest_def)
  then have "sstep bincode_fixint (\<lambda>_. replicate 32 0) (\<lambda>_. False) (example_sv, [])
      (example_sv, [] @ [\<lparr>pd_digest = replicate 32 0, pd_service = pd_service example_pending,
        pd_secret = pd_secret example_pending, pd_conn = pd_conn example_pending\<rparr>])"
    by (intro begin_step [of "replicate 32 5"]) (simp_all add: HASH_WIDTH_IN_BYTES_def)
  then show ?thesis
    by (simp add: example_pending_def r_into_rtranclp)
qed

theorem server_reachable_safe_witness:
  "reachable bincode_fixint (\<lambda>_. replicate 32 0) (\<lambda>_. False) example_sv example_sv [example_pending] \<and>
   good_on example_sv (handle_connection bincode_fixint (\<lambda>_. replicate 32 0) (replicate 32 1))"
  using server_reachable_safe [OF example_server_valid example_sv_from example_reachable] example_reachable by blast

end
