(* ===== verification/Server_Props.thy ===== *)
theory Server_Props
  imports Server_Safety
begin

text \<open>
  Functional properties of the server: what a control channel handshake does for the right and
  for the wrong answer and that nothing but the right answer touches the channels, how hot
  reload refines the table of services that the watcher's events describe, and where reload
  and handshakes do not fit together.
\<close>

section \<open>Control channel handshakes\<close>

lemma read_auth_Inr_iff:
  "read_auth B sha256 c = (c', Inr a) \<longleftrightarrow>
     len_auth (packet_len B sha256) \<le> length (rx c) \<and>
     dec (auth_codec B) (take (len_auth (packet_len B sha256)) (rx c)) = Some a \<and>
     c' = c\<lparr>rx := drop (len_auth (packet_len B sha256)) (rx c)\<rparr>"
  by (simp add: read_auth_def read_packet_Inr_iff)

lemma control_handshake_split:
  assumes "do_control_channel_handshake B sha256 n d (sv, c) = ((sv', c'), r)"
  obtains (early) "sv' = sv"
  | (answered) cfg t a c'' where "sv_services sv d = Some cfg" "ss_token cfg = Some t"
      "dec (auth_codec B) (take (len_auth (packet_len B sha256)) (rx c)) = Some (Auth a)"
      "control_handshake_finish B sha256 d cfg (as_bytes t @ n) a (sv, c'') = ((sv', c'), r)"
proof (cases "snd (control_handshake_begin B n d (sv, c))")
  case (Inl e)
  then obtain sc where "control_handshake_begin B n d (sv, c) = (sc, Inl e)"
    by (metis prod.collapse)
  then have "sc = (sv', c')" "control_handshake_begin B n d (sv, c) = ((sv', c'), Inl e)"
    using assms by (simp_all add: do_control_channel_handshake_def sbind_def)
  then show thesis
    using pure_run [OF pure_begin] early by blast
next
  case (Inr x)
  obtain cfg secret where x: "x = (cfg, secret)" by force
  obtain sv1 c1 where "fst (control_handshake_begin B n d (sv, c)) = (sv1, c1)" by force
  with Inr x have b: "control_handshake_begin B n d (sv, c) = ((sv1, c1), Inr (cfg, secret))"
    by (metis prod.collapse)
  from begin_Inr [OF b] obtain t where t: "sv1 = sv" "sv_services sv d = Some cfg" "ss_token cfg = Some t"
      "secret = as_bytes t @ n" "rx c1 = rx c"
    by auto
  have run: "do_control_channel_handshake B sha256 n d (sv, c) =
      (case read_auth B sha256 c1 of (c2, r) \<Rightarrow>
         (case map_err Proto r of Inl e \<Rightarrow> ((sv, c2), Inl e)
          | Inr (Auth a) \<Rightarrow> control_handshake_finish B sha256 d cfg secret a (sv, c2)))"
    by (simp add: do_control_channel_handshake_def sbind_def b t(1) on_conn_run smap_err_def
        split: prod.split sum.split auth.split)
  obtain c2 r2 where ra: "read_auth B sha256 c1 = (c2, r2)" by force
  show thesis
  proof (cases r2)
    case (Inl e)
    then show thesis using assms run ra early by simp
  next
    case (Inr u)
    obtain a where u: "u = Auth a" by (cases u)
    have "dec (auth_codec B) (take (len_auth (packet_len B sha256)) (rx c)) = Some (Auth a)"
      using ra Inr u t(5) by (simp add: read_auth_Inr_iff)
    moreover have "control_handshake_finish B sha256 d cfg (as_bytes t @ n) a (sv, c2) = ((sv', c'), r)"
      using assms run ra Inr u t(4) by simp
    ultimately show thesis using answered t(2,3) by blast
  qed
qed

text \<open>
  C9. A control channel handshake changes the server only when the service exists and the
  client answers with the digest of the service's token followed by the nonce it was sent; and
  then it touches the control channel of that service alone, never the table of services.
\<close>

theorem control_handshake_authenticated:
  assumes "server_wf sha256 sv"
    and "do_control_channel_handshake B sha256 n d (sv, c) = ((sv', c'), r)" and "sv' \<noteq> sv"
  shows "(\<exists>cfg t. sv_services sv d = Some cfg \<and> ss_token cfg = Some t \<and>
      dec (auth_codec B) (take (len_auth (packet_len B sha256)) (rx c)) = Some (Auth (digest sha256 (as_bytes t @ n)))) \<and>
    {it \<in> mm_abs (sv_channels sv'). fst it \<noteq> d} = {it \<in> mm_abs (sv_channels sv). fst it \<noteq> d} \<and>
    sv_services sv' = sv_services sv \<and> sv_router sv' = sv_router sv"
proof -
  have wf: "mm_wf (sv_channels sv)"
    using assms(1) by (simp add: server_wf_def)
  show ?thesis
  proof (cases rule: control_handshake_split [OF assms(2), case_names early answered])
    case early
    with assms(3) show ?thesis by simp
  next
    case (answered cfg t a c'')
    show ?thesis
    proof (cases rule: finish_cases [OF wf answered(4), case_names denied lost installed])
      case denied
      with assms(3) show ?thesis by simp
    next
      case (lost m)
      then show ?thesis using answered by auto
    next
      case (installed m c3)
      have "{it \<in> mm_abs m. fst it \<noteq> d} = {it \<in> mm_abs (sv_channels sv). fst it \<noteq> d}"
        using installed(8) by (auto simp: Let_def split: if_splits)
      then show ?thesis using answered installed(1,5) by auto
    qed
  qed
qed

lemma begin_ok:
  assumes "sv_services sv d = Some cfg" and "ss_token cfg = Some t" and "2 \<le> wr_left c"
  shows "control_handshake_begin B n d (sv, c) =
    ((sv, c\<lparr>tx := tx c @ enc (hello_codec B) (ControlChannelHello CURRENT_PROTO_VERSION n), wr_left := wr_left c - 2\<rparr>),
     Inr (cfg, as_bytes t @ n))"
  using assms by (simp add: control_handshake_begin_def handler_run numeral_2_eq_2)

lemma control_handshake_read:
  assumes "bincode_ok B" and "sha_ok sha256" and "length a = HASH_WIDTH_IN_BYTES"
    and "sv_services sv d = Some cfg" and "ss_token cfg = Some t" and "2 \<le> wr_left c"
    and "rx c = enc (auth_codec B) (Auth a) @ rest"
  shows "do_control_channel_handshake B sha256 n d (sv, c) =
    control_handshake_finish B sha256 d cfg (as_bytes t @ n) a
      (sv, c\<lparr>tx := tx c @ enc (hello_codec B) (ControlChannelHello CURRENT_PROTO_VERSION n),
             wr_left := wr_left c - 2, rx := rest\<rparr>)"
proof -
  let ?c = "c\<lparr>tx := tx c @ enc (hello_codec B) (ControlChannelHello CURRENT_PROTO_VERSION n), wr_left := wr_left c - 2\<rparr>"
  have "read_auth B sha256 ?c = (?c\<lparr>rx := rest\<rparr>, Inr (Auth a))"
    by (rule read_auth_ok [OF assms(1,2)]) (simp_all add: assms(3,7))
  then show ?thesis
    by (simp add: do_control_channel_handshake_def begin_ok [OF assms(4-6)] sbind_def on_conn_run smap_err_def)
qed

abbreviation (input) zero_sha :: "bytes \<Rightarrow> bytes" where
  "zero_sha \<equiv> \<lambda>_. replicate 32 0"

definition example_conn :: conn where
  "example_conn = \<lparr>rx = enc (auth_codec bincode_fixint) (Auth (replicate 32 0)), tx = [], wr_left = 4\<rparr>"

lemma example_service:
  "sv_services example_sv (replicate 32 0) = Some (snd (hd (sc_services example_server_checked)))"
  "ss_token (snd (hd (sc_services example_server_checked))) = Some ''t''"
  by (simp_all add: example_sv_def generate_service_hashmap_def example_defs digest_def)

lemma example_sv_wf: "server_wf zero_sha example_sv"
  by (rule server_from_wf [OF example_sv_from])

lemma example_changes:
  "fst (fst (do_control_channel_handshake bincode_fixint zero_sha (replicate 32 5) (replicate 32 0) (example_sv, example_conn))) \<noteq> example_sv"
proof -
  let ?cfg = "snd (hd (sc_services example_server_checked))"
  let ?c = "example_conn\<lparr>tx := tx example_conn @ enc (hello_codec bincode_fixint) (ControlChannelHello CURRENT_PROTO_VERSION (replicate 32 5)),
             wr_left := wr_left example_conn - 2, rx := []\<rparr>"
  let ?f = "control_handshake_finish bincode_fixint zero_sha (replicate 32 0) ?cfg (as_bytes ''t'' @ replicate 32 5) (replicate 32 0) (example_sv, ?c)"
  have run: "do_control_channel_handshake bincode_fixint zero_sha (replicate 32 5) (replicate 32 0) (example_sv, example_conn) = ?f"
    using example_service
    by (intro control_handshake_read [OF bincode_fixint_ok sha_ok_const]) (simp_all add: example_conn_def HASH_WIDTH_IN_BYTES_def)
  obtain sv' c' r where f: "?f = ((sv', c'), r)" by (metis prod.collapse)
  have wf: "mm_wf (sv_channels example_sv)"
    using example_sv_wf by (simp add: server_wf_def)
  have "sv_next sv' = sv_next example_sv + 1"
    by (rule finish_cases [OF wf f]) (simp_all add: digest_def example_conn_def)
  then show ?thesis unfolding run f by auto
qed

theorem control_handshake_authenticated_witness:
  "let r = do_control_channel_handshake bincode_fixint zero_sha (replicate 32 5) (replicate 32 0) (example_sv, example_conn)
   in fst (fst r) \<noteq> example_sv \<and> sv_services (fst (fst r)) = sv_services example_sv"
proof -
  let ?r = "do_control_channel_handshake bincode_fixint zero_sha (replicate 32 5) (replicate 32 0) (example_sv, example_conn)"
  have "?r = ((fst (fst ?r), snd (fst ?r)), snd ?r)" by (simp only: prod.collapse)
  from control_handshake_authenticated [OF example_sv_wf this example_changes] example_changes show ?thesis
    by (simp only: Let_def simp_thms)
qed

text \<open>
  C10. A client that answers the nonce with the right digest gets, on a connection that takes
  the writes, the hello and the acknowledgement and nothing else, and its channel replaces the
  one of the same service under the new session key, started with as many data channel requests
  as the service's pool size; the channels of other services stay. A wrong answer gets the
  hello and a refusal, and leaves the server as it was.
\<close>

theorem control_handshake_outcome:
  assumes "bincode_ok B" and "sha_ok sha256" and "server_wf sha256 sv"
    and "length a = HASH_WIDTH_IN_BYTES" and "sv_services sv d = Some cfg" and "ss_token cfg = Some t"
    and "4 \<le> wr_left c" and "rx c = enc (auth_codec B) (Auth a) @ rest"
    and "\<forall>it \<in> mm_abs (sv_channels sv). key2 it = digest sha256 (as_bytes t @ n) \<longrightarrow> fst it = d"
  shows "case do_control_channel_handshake B sha256 n d (sv, c) of ((sv', c'), r) \<Rightarrow>
    if a = digest sha256 (as_bytes t @ n)
    then r = Inr () \<and>
      tx c' = tx c @ enc (hello_codec B) (ControlChannelHello CURRENT_PROTO_VERSION n) @ enc (ack_codec B) AckOk \<and>
      mm_abs (sv_channels sv') =
        insert (d, a, \<lparr>hd_chan = sv_next sv, hd_service = cfg\<rparr>) {it \<in> mm_abs (sv_channels sv). fst it \<noteq> d} \<and>
      map_option ch_requests (sv_chans sv' (sv_next sv)) = Some (unat (ss_pool_size cfg)) \<and>
      mm_get2 (sv_channels sv') a = Inr (Some \<lparr>hd_chan = sv_next sv, hd_service = cfg\<rparr>)
    else r = Inl (FailedAuthentication (ss_name cfg)) \<and> sv' = sv \<and>
      tx c' = tx c @ enc (hello_codec B) (ControlChannelHello CURRENT_PROTO_VERSION n) @ enc (ack_codec B) AuthFailed"
proof -
  let ?c = "c\<lparr>tx := tx c @ enc (hello_codec B) (ControlChannelHello CURRENT_PROTO_VERSION n),
             wr_left := wr_left c - 2, rx := rest\<rparr>"
  let ?f = "control_handshake_finish B sha256 d cfg (as_bytes t @ n) a (sv, ?c)"
  have "2 \<le> wr_left c" using assms(7) by simp
  then have run: "do_control_channel_handshake B sha256 n d (sv, c) = ?f"
    using control_handshake_read [OF assms(1,2,4-6) _ assms(8)] by simp
  obtain sv' c' r where f: "?f = ((sv', c'), r)" by (metis prod.collapse)
  have wf: "mm_wf (sv_channels sv)"
    using assms(3) by (simp add: server_wf_def)
  show ?thesis
  proof (cases "a = digest sha256 (as_bytes t @ n)")
    case False
    then show ?thesis
      unfolding run using assms(7) by (auto simp: control_handshake_finish_def handler_run)
  next
    case True
    show ?thesis
    proof (cases rule: finish_cases [OF wf f, case_names denied lost installed])
      case denied
      with True show ?thesis by simp
    next
      case lost
      with assms(7) show ?thesis by simp
    next
      case (installed m c'')
      have "a \<notin> key2 ` {it \<in> mm_abs (sv_channels sv). fst it \<noteq> d}"
        using assms(9) True by auto
      with installed(8) have abs: "mm_abs m = insert (d, a, \<lparr>hd_chan = sv_next sv, hd_service = cfg\<rparr>)
          {it \<in> mm_abs (sv_channels sv). fst it \<noteq> d}"
        by (simp add: Let_def)
      with mm.get2_found [OF installed(6)]
      have get: "mm_get2 m a = Inr (Some \<lparr>hd_chan = sv_next sv, hd_service = cfg\<rparr>)" by blast
      have "tx c' = tx c @ enc (hello_codec B) (ControlChannelHello CURRENT_PROTO_VERSION n) @ enc (ack_codec B) AckOk"
        using installed(3,4) by simp
      moreover have "sv_channels sv' = m" "map_option ch_requests (sv_chans sv' (sv_next sv)) = Some (unat (ss_pool_size cfg))"
        using installed(5) by (simp_all add: new_channel_def)
      ultimately show ?thesis
        unfolding run f using abs get True installed(7) by (simp only: prod.case if_True simp_thms)
    qed
  qed
qed

theorem control_handshake_outcome_witness:
  "snd (do_control_channel_handshake bincode_fixint zero_sha (replicate 32 5) (replicate 32 0) (example_sv, example_conn)) = Inr ()"
proof -
  have "mm_abs (sv_channels example_sv) = {}"
    by (simp add: example_sv_def mm.items_emp)
  then show ?thesis
    using control_handshake_outcome [OF bincode_fixint_ok sha_ok_const example_sv_wf,
        of "replicate 32 0" "replicate 32 0" "snd (hd (sc_services example_server_checked))" "''t''" example_conn "[]" "replicate 32 5"]
      example_service
    by (simp add: HASH_WIDTH_IN_BYTES_def digest_def example_conn_def case_prod_beta)
qed

section \<open>Hot reload\<close>

text \<open>The services of a server by name, which is what the events of the watcher speak of.\<close>

definition services_of :: "(bytes \<Rightarrow> bytes) \<Rightarrow> server \<Rightarrow> (string \<rightharpoonup> server_service_config)" where
  "services_of sha256 sv name = sv_services sv (digest sha256 (as_bytes name))"

definition digest_inj_on :: "(bytes \<Rightarrow> bytes) \<Rightarrow> string set \<Rightarrow> bool" where
  "digest_inj_on sha256 N \<longleftrightarrow> inj_on (\<lambda>k. digest sha256 (as_bytes k)) N"

fun event_names :: "config_change \<Rightarrow> string set" where
  "event_names (ServerChange (SAdd cfg)) = {ss_name cfg}"
| "event_names (ServerChange (SDelete s)) = {s}"
| "event_names _ = {}"

fun reload_all :: "(bytes \<Rightarrow> bytes) \<Rightarrow> config_change list \<Rightarrow> server \<Rightarrow> server_error + server" where
  "reload_all sha256 [] sv = Inr sv"
| "reload_all sha256 (e # es) sv = rbind (handle_hot_reload sha256 e sv) (reload_all sha256 es)"

lemma reload_services:
  assumes "mm_wf (sv_channels sv)" and "handle_hot_reload sha256 e sv = Inr sv'"
  shows "sv_services sv' = (case e of
      ServerChange (SAdd cfg) \<Rightarrow> (sv_services sv)(digest sha256 (as_bytes (ss_name cfg)) \<mapsto> cfg)
    | ServerChange (SDelete s) \<Rightarrow> (sv_services sv)(digest sha256 (as_bytes s) := None)
    | _ \<Rightarrow> sv_services sv)"
  using assms(2)
  by (auto simp: handle_hot_reload_def drop_channel_def Let_def
      split: config_change.splits server_service_change.splits sum.splits)

lemma drop_channel_abs:
  assumes "mm_wf (sv_channels sv)" and "drop_channel d sv = Inr sv'"
  shows "mm_wf (sv_channels sv') \<and> mm_abs (sv_channels sv') = {it \<in> mm_abs (sv_channels sv). fst it \<noteq> d} \<and>
    sv_services sv' = sv_services sv"
  by (rule drop_channel_run [OF assms(1), of d]) (use assms(2) in auto)

lemma reload_channels:
  assumes "mm_wf (sv_channels sv)" and "handle_hot_reload sha256 e sv = Inr sv'"
  shows "mm_wf (sv_channels sv') \<and> mm_abs (sv_channels sv') = {it \<in> mm_abs (sv_channels sv).
    fst it \<notin> (\<lambda>k. digest sha256 (as_bytes k)) ` event_names e}"
proof (cases "event_names e = {}")
  case True
  then have "sv' = sv"
    using assms(2) by (cases e rule: event_names.cases) (auto simp: handle_hot_reload_def)
  then show ?thesis using assms(1) True by simp
next
  case False
  then obtain k sv2 where k: "event_names e = {k}" "drop_channel (digest sha256 (as_bytes k)) sv2 = Inr sv'"
      "sv_channels sv2 = sv_channels sv"
    using assms(2) by (cases e rule: event_names.cases) (auto simp: handle_hot_reload_def Let_def)
  with drop_channel_abs [of sv2] assms(1) show ?thesis by auto
qed

lemma services_of_reload:
  assumes "digest_inj_on sha256 N" and "event_names e \<subseteq> N" and "k \<in> N"
    and "mm_wf (sv_channels sv)" and "handle_hot_reload sha256 e sv = Inr sv'"
  shows "services_of sha256 sv' k = server_table_apply e (services_of sha256 sv) k"
proof -
  have "digest sha256 (as_bytes k) = digest sha256 (as_bytes j) \<longleftrightarrow> k = j" if "j \<in> N" for j
    using assms(1,3) that by (auto simp: digest_inj_on_def inj_on_def)
  then show ?thesis
    using reload_services [OF assms(4,5)] assms(2)
    by (cases e rule: event_names.cases) (auto simp: services_of_def)
qed

lemma server_table_apply_cong: "t k = u k \<Longrightarrow> server_table_apply e t k = server_table_apply e u k"
  by (cases e rule: event_names.cases) auto

lemma fold_table_cong: "t k = u k \<Longrightarrow> fold server_table_apply es t k = fold server_table_apply es u k"
proof (induction es arbitrary: t u)
  case (Cons e es)
  have "server_table_apply e t k = server_table_apply e u k"
    by (rule server_table_apply_cong) (rule Cons.prems)
  then have "fold server_table_apply es (server_table_apply e t) k = fold server_table_apply es (server_table_apply e u) k"
    by (rule Cons.IH)
  then show ?case by simp
qed simp

text \<open>
  Hot reload implements the events: it always succeeds, and afterwards the services, read
  by name, are what applying the events to the table of services gives, as long as the digests
  of the names involved do not collide. The control channels of the services named by the events
  are closed and all others are kept.
\<close>

lemma reload_all_table:
  assumes "digest_inj_on sha256 N" and "\<Union> (event_names ` set es) \<subseteq> N" and "mm_wf (sv_channels sv)"
  shows "\<exists>sv'. reload_all sha256 es sv = Inr sv' \<and> mm_wf (sv_channels sv') \<and>
    (\<forall>k \<in> N. services_of sha256 sv' k = fold server_table_apply es (services_of sha256 sv) k) \<and>
    mm_abs (sv_channels sv') = {it \<in> mm_abs (sv_channels sv).
      fst it \<notin> (\<lambda>k. digest sha256 (as_bytes k)) ` \<Union> (event_names ` set es)}"
  using assms(2,3)
proof (induction es arbitrary: sv)
  case Nil
  then show ?case by simp
next
  case (Cons e es)
  obtain sv1 where sv1: "handle_hot_reload sha256 e sv = Inr sv1"
    using reload_run [OF Cons.prems(2)] by blast
  note ch = reload_channels [OF Cons.prems(2) sv1]
  obtain sv' where sv': "reload_all sha256 es sv1 = Inr sv'" "mm_wf (sv_channels sv')"
      "\<forall>k \<in> N. services_of sha256 sv' k = fold server_table_apply es (services_of sha256 sv1) k"
      "mm_abs (sv_channels sv') = {it \<in> mm_abs (sv_channels sv1).
        fst it \<notin> (\<lambda>k. digest sha256 (as_bytes k)) ` \<Union> (event_names ` set es)}"
    using Cons.IH [of sv1] Cons.prems(1) ch by auto
  have one: "services_of sha256 sv1 k = server_table_apply e (services_of sha256 sv) k" if "k \<in> N" for k
    using services_of_reload [OF assms(1) _ that Cons.prems(2) sv1] Cons.prems(1) by simp
  have "\<forall>k \<in> N. services_of sha256 sv' k = fold server_table_apply (e # es) (services_of sha256 sv) k"
  proof
    fix k
    assume k: "k \<in> N"
    have "services_of sha256 sv' k = fold server_table_apply es (services_of sha256 sv1) k"
      using sv'(3) k by blast
    also have "\<dots> = fold server_table_apply es (server_table_apply e (services_of sha256 sv)) k"
      by (rule fold_table_cong) (rule one [OF k])
    finally show "services_of sha256 sv' k = fold server_table_apply (e # es) (services_of sha256 sv) k" by simp
  qed
  moreover have "mm_abs (sv_channels sv') = {it \<in> mm_abs (sv_channels sv).
      fst it \<notin> (\<lambda>k. digest sha256 (as_bytes k)) ` \<Union> (event_names ` set (e # es))}"
    using sv'(4) ch by auto
  moreover have "reload_all sha256 (e # es) sv = Inr sv'"
    by (simp add: sv1 sv'(1))
  ultimately show ?case
    using sv'(2) by blast
qed

lemma generate_service_hashmap_get:
  assumes "hm_wf xs" and "inj_on h (insert k (fst ` set xs))" and "\<forall>(n, s) \<in> set xs. P s"
  shows "fold (\<lambda>(name, s) ret. if P s then ret(h name \<mapsto> s) else ret) xs m (h k) =
    (case hm_get xs k of None \<Rightarrow> m (h k) | Some s \<Rightarrow> Some s)"
  using assms
proof (induction xs arbitrary: m)
  case Nil
  then show ?case by (simp add: hm_get_def)
next
  case (Cons x xs)
  obtain n s where x: "x = (n, s)" by force
  have "inj_on h (insert k (fst ` set xs))"
    using Cons.prems(2) by (rule inj_on_subset) auto
  then have IH: "fold (\<lambda>(name, s) ret. if P s then ret(h name \<mapsto> s) else ret) xs m' (h k) =
      (case hm_get xs k of None \<Rightarrow> m' (h k) | Some s \<Rightarrow> Some s)" for m'
    using Cons.IH Cons.prems(1,3) by (simp add: hm_wf_def)
  have P: "P s" using Cons.prems(3) x by simp
  show ?case
  proof (cases "n = k")
    case True
    then have "hm_get xs k = None"
      using Cons.prems(1) x by (simp add: hm_get_None_iff hm_wf_def)
    then show ?thesis
      using IH [of "m(h k \<mapsto> s)"] x P True by (simp add: hm_get_def)
  next
    case False
    then have "h n \<noteq> h k"
      using Cons.prems(2) x by (auto simp: inj_on_def)
    then show ?thesis
      using IH [of "m(h n \<mapsto> s)"] x P False by (simp add: hm_get_def split: option.split)
  qed
qed

definition section_names :: "server_config \<Rightarrow> string set" where
  "section_names c = fst ` set (sc_services c)"

definition all_enabled :: "server_config \<Rightarrow> bool" where
  "all_enabled c \<longleftrightarrow> (\<forall>(k, s) \<in> set (sc_services c). ss_is_enabled s)"

lemma services_of_generated:
  assumes "sv_services sv = generate_service_hashmap sha256 c" and "hm_wf (sc_services c)"
    and "all_enabled c" and "digest_inj_on sha256 N" and "section_names c \<subseteq> N" and "k \<in> N"
  shows "services_of sha256 sv k = hm_get (sc_services c) k"
proof -
  have "inj_on (\<lambda>k. digest sha256 (as_bytes k)) (insert k (fst ` set (sc_services c)))"
    using assms(4-6) unfolding digest_inj_on_def section_names_def by (rule_tac inj_on_subset) auto
  from generate_service_hashmap_get [OF assms(2) this, of ss_is_enabled Map.empty] assms(3)
  show ?thesis
    unfolding services_of_def assms(1) generate_service_hashmap_def
    by (simp add: all_enabled_def split: option.split)
qed

lemma server_event_names:
  assumes "section_events server_instance server_eq (Some a) (Some b) = Some es"
    and "\<forall>(k, s) \<in> set (sc_services b). ss_name s = k"
  shows "\<Union> (event_names ` set es) \<subseteq> section_names a \<union> section_names b"
proof -
  have "es = [] \<or> calculate_instance_config_events server_instance a b = Some es"
    using assms(1) by (auto simp: section_events_def split: if_splits)
  then have ev: "set es \<subseteq> {ServerChange (SDelete k) |k. k \<in> section_names a} \<union>
      {ServerChange (SAdd c) |c. \<exists>k. (k, c) \<in> set (sc_services b)}"
    by (auto simp: calculate_instance_config_events_def server_instance_def Let_def section_names_def
        split: if_splits) (metis fst_conv image_eqI)
  have "ss_name c \<in> section_names b" if "(k, c) \<in> set (sc_services b)" for k c
    using that assms(2) unfolding section_names_def by force
  with ev show ?thesis by fastforce
qed

lemma client_event_names:
  assumes "section_events client_instance client_eq old new = Some es"
  shows "\<Union> (event_names ` set es) = {}"
  using client_events_form [OF assms] by fastforce

lemma calculated_event_names:
  assumes "calculate_events old new = Some es" and "cfg_server old = Some a" and "cfg_server new = Some b"
    and "server_keyed new"
  shows "\<Union> (event_names ` set es) \<subseteq> section_names a \<union> section_names b"
  using assms(1)
proof (cases rule: calculate_events_cases)
  case general
  then show ?thesis by simp
next
  case (changes v w)
  have "\<Union> (event_names ` set v) \<subseteq> section_names a \<union> section_names b"
    using changes(2) assms(2-4) by (intro server_event_names) (auto simp: server_keyed_def)
  then show ?thesis
    using client_event_names [OF changes(3)] changes(1) by auto
qed

lemma fold_receive_apply:
  assumes "\<forall>e \<in> set es. \<forall>g. e \<noteq> General g"
  shows "fold server_receive es t = fold server_table_apply es t"
proof (rule fold_cong [OF refl refl])
  fix e
  assume "e \<in> set es"
  with assms show "server_receive e = server_table_apply e"
    by (cases e) (auto simp: fun_eq_iff)
qed


text \<open>A digest without collisions among short names, and a reload that deletes the only service.\<close>

definition pad_sha :: "bytes \<Rightarrow> bytes" where
  "pad_sha bs = take 32 (bs @ replicate 32 0)"

definition example_emptied :: config where
  "example_emptied = example_reload\<lparr>cfg_server := Some (example_server_checked\<lparr>sc_services := []\<rparr>)\<rparr>"

lemma example_emptied_events:
  "calculate_events example_reload example_emptied = Some [ServerChange (SDelete ''ssh'')]"
  by (simp add: calculate_events_def example_emptied_def example_reload_def example_config_checked_def config_eq_def
      section_events_def calculate_instance_config_events_def server_instance_def server_eq_def hm_eq_def
      example_server_checked_def hm_get_def)


section \<open>Where reload and handshakes do not fit together\<close>

lemma reload_add_services:
  assumes "handle_hot_reload sha256 (ServerChange (SAdd cfg)) sv = Inr sv'"
  shows "sv_services sv' (digest sha256 (as_bytes (ss_name cfg))) = Some cfg"
  using assms by (auto simp: handle_hot_reload_def drop_channel_def Let_def split: sum.splits)

lemma read_hello_ok:
  assumes "bincode_ok B" and "sha_ok sha256" and "hello_wf h" and "hello_version h = CURRENT_PROTO_VERSION"
    and "rx c = enc (hello_codec B) h @ rest"
  shows "read_hello B sha256 c = (c\<lparr>rx := rest\<rparr>, Inr h)"
  using read_packet_ok [OF assms(5) hello_len(1) [OF assms(1-3), symmetric] hello_len(2) [OF assms(1-3)]] assms(4)
  by (simp add: read_hello_eq sbind_def sm_defs)

lemma handle_connection_control:
  assumes "bincode_ok B" and "sha_ok sha256" and "length d = HASH_WIDTH_IN_BYTES"
    and "rx c = enc (hello_codec B) (ControlChannelHello CURRENT_PROTO_VERSION d) @ rest"
  shows "handle_connection B sha256 n (sv, c) = do_control_channel_handshake B sha256 n d (sv, c\<lparr>rx := rest\<rparr>)"
  using read_hello_ok [OF assms(1,2) _ _ assms(4)] assms(3)
  by (simp add: handle_connection_def sbind_def on_conn_run smap_err_def)

text \<open>
  C39. Reload does not look at the enabled flag: a disabled service without a token of its own
  passes validation, and when a reload adds it, the first client that says hello for it, before
  any authentication, makes the server panic.
\<close>

theorem reload_disabled_panics:
  assumes "bincode_ok B" and "sha_ok sha256"
    and "validate_server_service c0 name s = Inr cfg" and "\<not> ss_is_enabled s" and "ss_token s = None"
    and "handle_hot_reload sha256 (ServerChange (SAdd cfg)) sv = Inr sv'"
    and "rx c = enc (hello_codec B) (ControlChannelHello CURRENT_PROTO_VERSION (digest sha256 (as_bytes name))) @ rest"
    and "2 \<le> wr_left c"
  shows "snd (handle_connection B sha256 n (sv', c)) = Inl Panic"
proof -
  have cfg: "ss_name cfg = name" "ss_token cfg = None"
    using assms(3-5) by (simp_all add: result_iff)
  then have "sv_services sv' (digest sha256 (as_bytes name)) = Some cfg"
    using reload_add_services [OF assms(6)] by simp
  then show ?thesis
    using handle_connection_control [OF assms(1,2) digest_length [OF assms(2)] assms(7)] cfg(2) assms(8)
    by (simp add: do_control_channel_handshake_def control_handshake_begin_def handler_run numeral_2_eq_2)
qed

theorem reload_disabled_panics_witness:
  "let cfg = (ss_with_name ''web'')\<lparr>ss_enabled := Some False\<rparr>;
       r = handle_hot_reload zero_sha (ServerChange (SAdd cfg)) example_sv;
       c = \<lparr>rx = enc (hello_codec bincode_fixint) (ControlChannelHello CURRENT_PROTO_VERSION (replicate 32 0)), tx = [], wr_left = 2\<rparr>
   in (\<exists>sv'. r = Inr sv' \<and> snd (handle_connection bincode_fixint zero_sha (replicate 32 5) (sv', c)) = Inl Panic)"
proof -
  let ?s = "(ss_with_name [])\<lparr>ss_enabled := Some False\<rparr>" and ?cfg = "(ss_with_name ''web'')\<lparr>ss_enabled := Some False\<rparr>"
  have val: "validate_server_service default_server_config ''web'' ?s = Inr ?cfg"
    by (simp add: result_iff ss_is_enabled_def ss_with_name_def)
  have "mm_wf (sv_channels example_sv)"
    using example_sv_wf by (simp add: server_wf_def)
  then obtain sv' where sv': "handle_hot_reload zero_sha (ServerChange (SAdd ?cfg)) example_sv = Inr sv'"
    using reload_run by blast
  show ?thesis
    using reload_disabled_panics [OF bincode_fixint_ok sha_ok_const val _ _ sv', of
        "\<lparr>rx = enc (hello_codec bincode_fixint) (ControlChannelHello CURRENT_PROTO_VERSION (replicate 32 0)), tx = [], wr_left = 2\<rparr>" "[]" "replicate 32 5"] sv'
    by (simp add: Let_def ss_is_enabled_def ss_with_name_def digest_def)
qed

text \<open>
  A handshake that was waiting for the client's answer while its service was deleted by a
  reload still installs its channel: the service is no longer in the table, and the client
  stays connected under it until something removes the channel.
\<close>

theorem late_finish_after_delete:
  assumes "server_wf sha256 sv"
    and "control_handshake_begin B n (digest sha256 (as_bytes name)) (sv, c) = ((sv1, c1), Inr (cfg, secret))"
    and "handle_hot_reload sha256 (ServerChange (SDelete name)) sv1 = Inr sv2"
    and "control_handshake_finish B sha256 (digest sha256 (as_bytes name)) cfg secret (digest sha256 secret) (sv2, c2) =
      ((sv3, c3), r)"
    and "2 \<le> wr_left c2" and "digest sha256 secret \<notin> key2 ` mm_abs (sv_channels sv)"
  shows "r = Inr () \<and> sv_services sv3 (digest sha256 (as_bytes name)) = None \<and>
    (digest sha256 (as_bytes name), digest sha256 secret, \<lparr>hd_chan = sv_next sv2, hd_service = cfg\<rparr>) \<in> mm_abs (sv_channels sv3)"
proof -
  have "mm_wf (sv_channels sv1)"
    using assms(1) begin_Inr [OF assms(2)] by (simp add: server_wf_def)
  note ch = reload_channels [OF this assms(3)] and sv = reload_services [OF this assms(3)]
  from ch have wf: "mm_wf (sv_channels sv2)" by blast
  have "digest sha256 secret \<notin> key2 ` mm_abs (sv_channels sv2)"
    using assms(6) ch begin_Inr [OF assms(2)] by auto
  then show ?thesis
    using sv assms(5) by (cases rule: finish_cases [OF wf assms(4)]) (auto simp: Let_def)
qed

theorem late_finish_after_delete_witness:
  "let d = digest zero_sha (as_bytes ''ssh'');
       b = control_handshake_begin bincode_fixint (replicate 32 5) d (example_sv, example_conn)
   in \<exists>cfg secret sv2 sv3 c3.
        b = ((example_sv, snd (fst b)), Inr (cfg, secret)) \<and>
        handle_hot_reload zero_sha (ServerChange (SDelete ''ssh'')) example_sv = Inr sv2 \<and>
        control_handshake_finish bincode_fixint zero_sha d cfg secret (digest zero_sha secret) (sv2, snd (fst b)) =
          ((sv3, c3), Inr ()) \<and> sv_services sv3 d = None"
proof -
  let ?d = "digest zero_sha (as_bytes ''ssh'')" and ?cfg = "snd (hd (sc_services example_server_checked))"
    and ?secret = "as_bytes ''t'' @ replicate 32 5"
  let ?c1 = "example_conn\<lparr>tx := tx example_conn @ enc (hello_codec bincode_fixint) (ControlChannelHello CURRENT_PROTO_VERSION (replicate 32 5)),
    wr_left := wr_left example_conn - 2\<rparr>"
  have b: "control_handshake_begin bincode_fixint (replicate 32 5) ?d (example_sv, example_conn) =
      ((example_sv, ?c1), Inr (?cfg, ?secret))"
    using example_service by (intro begin_ok) (simp_all add: digest_def example_conn_def)
  have mm: "mm_wf (sv_channels example_sv)" "mm_abs (sv_channels example_sv) = {}"
    by (simp_all add: example_sv_def mm.invar_emp mm.items_emp)
  obtain sv2 where sv2: "handle_hot_reload zero_sha (ServerChange (SDelete ''ssh'')) example_sv = Inr sv2"
    using reload_run [OF mm(1)] by blast
  obtain sv3 c3 r where f: "control_handshake_finish bincode_fixint zero_sha ?d ?cfg ?secret (digest zero_sha ?secret) (sv2, ?c1) =
      ((sv3, c3), r)"
    by (metis prod.collapse)
  show ?thesis
    using late_finish_after_delete [OF example_sv_wf b sv2 f] mm(2) f b sv2
    by (simp add: Let_def example_conn_def)
qed

section \<open>Visitors\<close>

text \<open>What a visitor is told, as a function of the server, its answer and the nonce.\<close>

definition visitor_verdict :: "(bytes \<Rightarrow> bytes) \<Rightarrow> server \<Rightarrow> service_digest \<Rightarrow> nonce \<Rightarrow> digest \<Rightarrow> ack option" where
  "visitor_verdict sha256 sv d n a =
     (case sv_services sv d of
        None \<Rightarrow> Some ServiceNotExist
      | Some cfg \<Rightarrow>
          if ss_service_type cfg \<notin> {Stcp, Sudp, Xtcp} then Some ServiceNotExist
          else case ss_secret_key cfg of
            None \<Rightarrow> None
          | Some key \<Rightarrow>
              if a \<noteq> digest sha256 (as_bytes key @ n) then Some SecretKeyMismatch
              else if d \<in> fst ` mm_abs (sv_channels sv) then Some AckOk else Some ServiceNotReady)"

lemma get1_in_abs:
  assumes "mm_wf m"
  shows "mm_get1 m k = Inr None \<longleftrightarrow> k \<notin> fst ` mm_abs m"
proof
  assume "mm_get1 m k = Inr None"
  then show "k \<notin> fst ` mm_abs m"
    using mm.get1_found [OF assms] by fastforce
next
  assume "k \<notin> fst ` mm_abs m"
  then show "mm_get1 m k = Inr None"
    by (intro mm.get1_missing [OF assms]) (force simp: image_iff)
qed

text \<open>The handshake of a visitor of a secret service, up to the comparison of its answer.\<close>

lemma visitor_read:
  fixes n :: nonce
  assumes "bincode_ok B" and "sha_ok sha256" and "length a = HASH_WIDTH_IN_BYTES" and "sv_services sv d = Some cfg"
    and "ss_service_type cfg \<in> {Stcp, Sudp, Xtcp}" and "ss_secret_key cfg = Some key"
    and "4 \<le> wr_left c" and "tx c = []" and "rx c = enc (auth_codec B) (Auth a)"
  defines "c2 \<equiv> c\<lparr>tx := enc (hello_codec B) (ControlChannelHello CURRENT_PROTO_VERSION n), wr_left := wr_left c - 2, rx := []\<rparr>"
  shows "do_visitor_handshake B sha256 n d (sv, c) =
    (if digest sha256 (as_bytes key @ n) \<noteq> a then
       sbind (send_ack B SecretKeyMismatch) (\<lambda>_. sfail (VisitorKeyMismatch (ss_name cfg))) (sv, c2)
     else sbind (get_channel1 d) (\<lambda>r. case r of
         Some handle \<Rightarrow> sbind (send_ack B AckOk) (\<lambda>_. sbind flush_conn (\<lambda>_. request_channel (hd_chan handle)))
       | None \<Rightarrow> sbind (send_ack B ServiceNotReady) (\<lambda>_. sfail (NoClientConnected (ss_name cfg)))) (sv, c2))"
proof -
  let ?c = "c\<lparr>tx := enc (hello_codec B) (ControlChannelHello CURRENT_PROTO_VERSION n), wr_left := wr_left c - 2\<rparr>"
  have "read_auth B sha256 ?c = (?c\<lparr>rx := []\<rparr>, Inr (Auth a))"
    by (rule read_auth_ok [OF assms(1,2)]) (simp_all add: assms(3,9))
  then show ?thesis
    using assms(4-8) unfolding c2_def
    by (simp add: do_visitor_handshake_def sbind_def send_run flush_run get_server_run sm_defs on_conn_run numeral_2_eq_2)
qed

text \<open>
  C27. A visitor that answers the nonce is told the truth: that the service is unknown or not a
  secret one, that its key is wrong, that no client is connected, or that it is admitted, which
  happens only for the digest of the service's secret key and the nonce. The table of services
  and the channels are as before, and only an admitted visitor makes the server ask the client
  for one more data channel.
\<close>

theorem visitor_handshake_verdict:
  assumes "bincode_ok B" and "sha_ok sha256" and "server_wf sha256 sv" and "length a = HASH_WIDTH_IN_BYTES"
    and "4 \<le> wr_left c" and "tx c = []" and "rx c = enc (auth_codec B) (Auth a)"
  shows "case do_visitor_handshake B sha256 n d (sv, c) of ((sv', c'), r) \<Rightarrow>
    (case visitor_verdict sha256 sv d n a of
       None \<Rightarrow> tx c' = []
     | Some ServiceNotExist \<Rightarrow> tx c' = enc (ack_codec B) ServiceNotExist
     | Some v \<Rightarrow> tx c' = enc (hello_codec B) (ControlChannelHello CURRENT_PROTO_VERSION n) @ enc (ack_codec B) v) \<and>
    (sv' \<noteq> sv \<longrightarrow> visitor_verdict sha256 sv d n a = Some AckOk \<and>
       (\<exists>i ch. sv_chans sv i = Some ch \<and>
          sv' = sv\<lparr>sv_chans := (sv_chans sv)(i \<mapsto> ch\<lparr>ch_requests := ch_requests ch + 1\<rparr>)\<rparr>))"
proof (cases "\<exists>cfg key. sv_services sv d = Some cfg \<and> ss_service_type cfg \<in> {Stcp, Sudp, Xtcp} \<and> ss_secret_key cfg = Some key")
  case False
  with assms(5,6) show ?thesis
    by (cases "sv_services sv d") (auto simp: do_visitor_handshake_def handler_run visitor_verdict_def)
next
  case True
  then obtain cfg key where cfg: "sv_services sv d = Some cfg" "ss_service_type cfg \<in> {Stcp, Sudp, Xtcp}" "ss_secret_key cfg = Some key"
    by blast
  have wf: "mm_wf (sv_channels sv)"
    using assms(3) by (simp add: server_wf_def)
  have verdict: "visitor_verdict sha256 sv d n a = Some (if a \<noteq> digest sha256 (as_bytes key @ n) then SecretKeyMismatch
      else if d \<in> fst ` mm_abs (sv_channels sv) then AckOk else ServiceNotReady)"
    using cfg by (simp add: visitor_verdict_def)
  note run = visitor_read [OF assms(1,2,4) cfg assms(5-7), of n]
  obtain r where r: "mm_get1 (sv_channels sv) d = Inr r"
    using mm.get1_total [OF wf] by blast
  have found: "r = None \<longleftrightarrow> d \<notin> fst ` mm_abs (sv_channels sv)"
    using get1_in_abs [OF wf, of d] r by simp
  show ?thesis
  proof (cases "digest sha256 (as_bytes key @ n) = a")
    case False
    then show ?thesis
      unfolding run verdict using assms(5) by (simp add: handler_run)
  next
    case eq: True
    then show ?thesis
      unfolding run verdict using r found assms(5)
      by (cases r) (auto simp: handler_run get_channel1_def request_channel_def request_on_def split: option.splits if_splits)
  qed
qed

theorem visitor_handshake_verdict_witness:
  "let cfg = (ss_with_name ''s'')\<lparr>ss_service_type := Stcp, ss_secret_key := Some ''k''\<rparr>;
       sv = example_sv\<lparr>sv_services := [replicate 32 0 \<mapsto> cfg]\<rparr>;
       r = do_visitor_handshake bincode_fixint zero_sha (replicate 32 5) (replicate 32 0) (sv, example_conn)
   in tx (snd (fst r)) = enc (hello_codec bincode_fixint) (ControlChannelHello CURRENT_PROTO_VERSION (replicate 32 5)) @
        enc (ack_codec bincode_fixint) ServiceNotReady"
proof -
  let ?cfg = "(ss_with_name ''s'')\<lparr>ss_service_type := Stcp, ss_secret_key := Some ''k''\<rparr>"
  let ?sv = "example_sv\<lparr>sv_services := [replicate 32 0 \<mapsto> ?cfg]\<rparr>"
  have "server_wf zero_sha ?sv"
    using example_sv_wf by (simp add: server_wf_def)
  moreover have "visitor_verdict zero_sha ?sv (replicate 32 0) (replicate 32 5) (replicate 32 0) = Some ServiceNotReady"
    by (simp add: visitor_verdict_def digest_def example_sv_def mm.items_emp)
  ultimately show ?thesis
    using visitor_handshake_verdict [OF bincode_fixint_ok sha_ok_const, of ?sv "replicate 32 0" example_conn "replicate 32 5" "replicate 32 0"]
    by (simp add: Let_def example_conn_def HASH_WIDTH_IN_BYTES_def case_prod_beta)
qed

end
