(* ===== verification/Server_Pools.thy ===== *)
theory Server_Pools
  imports Server "HOL-Library.Sublist"
begin

text \<open>
  The server's pools of data channels: the TCP pool loses and reorders no visitor and asks for
  exactly the data channels it needs, the UDP pool forwards datagrams with their boundaries in
  both directions, and the control channel sends the client the commands that the requests and
  the heartbeat call for.
\<close>

section \<open>The TCP pool\<close>

text \<open>
  What can happen to a pool, in any order. \<open>ReqClosed\<close> is the end of the control channel loop,
  \<open>DataClosed\<close> and \<open>PoolShutdown\<close> the removal of the handle, as the two tasks notice it.
\<close>

datatype pool_event = Visitor nat | DataChannel conn | Turn | ReqClosed | DataClosed | PoolShutdown

fun pool_step :: "bincode \<Rightarrow> pool_event \<Rightarrow> tcp_pool \<Rightarrow> tcp_pool" where
  "pool_step B (Visitor v) p = pool_accept v p"
| "pool_step B (DataChannel c) p = pool_offer c p"
| "pool_step B Turn p = pool_turn B p"
| "pool_step B ReqClosed p = p\<lparr>tp_req_open := False\<rparr>"
| "pool_step B DataClosed p = p\<lparr>tp_data_open := False\<rparr>"
| "pool_step B PoolShutdown p = pool_shutdown p"

definition pool_run :: "bincode \<Rightarrow> pool_event list \<Rightarrow> tcp_pool \<Rightarrow> tcp_pool" where
  "pool_run B es p = fold (pool_step B) es p"

fun arrivals :: "pool_event list \<Rightarrow> nat list" where
  "arrivals [] = []"
| "arrivals (Visitor v # es) = v # arrivals es"
| "arrivals (_ # es) = arrivals es"

fun offers :: "pool_event list \<Rightarrow> conn list" where
  "offers [] = []"
| "offers (DataChannel c # es) = c # offers es"
| "offers (_ # es) = offers es"

lemma arrivals_snoc: "arrivals (es @ [e]) = arrivals es @ (case e of Visitor v \<Rightarrow> [v] | _ \<Rightarrow> [])"
  by (induction es rule: arrivals.induct) (auto split: pool_event.splits)

lemma offers_snoc: "offers (es @ [e]) = offers es @ (case e of DataChannel c \<Rightarrow> [c] | _ \<Rightarrow> [])"
  by (induction es rule: offers.induct) (auto split: pool_event.splits)

lemma write_and_flush_run:
  "write_and_flush bs c = (if wr_left c = 0 then (c, Inl WriteFailed)
     else if wr_left c = 1 then (c\<lparr>tx := tx c @ bs, wr_left := 0\<rparr>, Inl WriteFailed)
     else (c\<lparr>tx := tx c @ bs, wr_left := wr_left c - 2\<rparr>, Inr ()))"
  by (auto simp: write_and_flush_def sbind_def write_all_def flush_def)

text \<open>What a pool has done after the events \<open>es\<close>.\<close>

definition started :: "bincode \<Rightarrow> conn \<Rightarrow> conn" where
  "started B c = c\<lparr>tx := tx c @ enc (d_cmd_codec B) StartForwardTcp, wr_left := wr_left c - 2\<rparr>"

definition pool_inv :: "bincode \<Rightarrow> nat \<Rightarrow> pool_event list \<Rightarrow> tcp_pool \<Rightarrow> bool" where
  "pool_inv B n es p \<longleftrightarrow>
     tp_requested p = n + tp_accepted p + tp_broken p \<and>
     subseq (map fst (tp_pairs p) @ tp_visitors p) (arrivals es) \<and>
     (tp_running p \<longrightarrow> length (tp_pairs p) + length (tp_visitors p) = tp_accepted p) \<and>
     length (tp_visitors p) \<le> CHAN_SIZE + 2 \<and>
     (\<exists>used. used @ tp_data p = offers es \<and> subseq (map snd (tp_pairs p)) (map (started B) used) \<and>
        (tp_running p \<longrightarrow> length used = length (tp_pairs p) + tp_broken p))"

lemma pool_inv_new: "pool_inv B n [] (tcp_pool_new n)"
  by (simp add: pool_inv_def tcp_pool_new_def)

lemma pool_accept_inv:
  assumes "pool_inv B n es p"
  shows "pool_inv B n (es @ [Visitor v]) (pool_accept v p)"
proof -
  have keep: "subseq (map fst (tp_pairs p) @ tp_visitors p) (arrivals es @ [v])"
    using assms by (auto simp: pool_inv_def intro: list_emb_prefix)
  have "subseq ((map fst (tp_pairs p) @ tp_visitors p) @ [v]) (arrivals es @ [v])"
    by (rule list_emb_append_mono) (use assms in \<open>simp_all add: pool_inv_def\<close>)
  with assms keep show ?thesis
    by (auto simp: pool_inv_def pool_accept_def arrivals_snoc offers_snoc)
qed

lemma pool_offer_inv: "pool_inv B n es p \<Longrightarrow> pool_inv B n (es @ [DataChannel c]) (pool_offer c p)"
  by (fastforce simp: pool_inv_def pool_offer_def arrivals_snoc offers_snoc)

lemma pool_turn_inv:
  assumes "pool_inv B n es p"
  shows "pool_inv B n (es @ [Turn]) (pool_turn B p)"
proof (cases "\<exists>v vs c cs. tp_running p \<and> tp_visitors p = v # vs \<and> tp_data p = c # cs")
  case False
  with assms show ?thesis
    by (auto simp: pool_inv_def pool_turn_def arrivals_snoc offers_snoc split: list.splits)
next
  case True
  then obtain v vs c cs where t: "tp_running p" "tp_visitors p = v # vs" "tp_data p = c # cs" by blast
  obtain used where used: "used @ tp_data p = offers es" "subseq (map snd (tp_pairs p)) (map (started B) used)"
      "length used = length (tp_pairs p) + tp_broken p"
    using assms t(1) by (auto simp: pool_inv_def)
  have more: "subseq (map snd (tp_pairs p) @ [started B c]) (map (started B) used @ [started B c])"
    "subseq (map snd (tp_pairs p)) (map (started B) used @ [started B c])"
    using list_emb_append_mono [OF used(2), of "[started B c]" "[started B c]"] used(2)
    by (simp_all add: list_emb_prefix)
  then show ?thesis
    using assms t used(1,3) unfolding pool_inv_def
    by (auto simp: pool_turn_def arrivals_snoc offers_snoc write_and_flush_run started_def
        intro!: exI [of _ "used @ [c]"])
qed

lemma pool_step_inv [wf_intros]: "pool_inv B n es p \<Longrightarrow> pool_inv B n (es @ [e]) (pool_step B e p)"
  by (cases e) (auto simp: pool_accept_inv pool_offer_inv pool_turn_inv pool_shutdown_def,
    auto simp: pool_inv_def arrivals_snoc offers_snoc)

lemma pool_run_inv: "pool_inv B n es (pool_run B es (tcp_pool_new n))"
proof (induction es rule: rev_induct)
  case Nil
  show ?case by (simp add: pool_run_def pool_inv_new)
next
  case (snoc e es)
  then show ?case
    using pool_step_inv [OF snoc, of e] by (simp add: pool_run_def)
qed

text \<open>
  C13. Whatever happens to a TCP pool, in any order: it has requested the initial channels, one
  for every visitor it accepted and one for every data channel that broke; visitors are paired
  in the order of their arrival, each with a different data channel in the order these were
  offered, after the command to forward; and while it runs, every visitor it accepted is paired
  or still waiting.
\<close>

theorem tcp_pool_faithful:
  fixes B n es
  defines "p \<equiv> pool_run B es (tcp_pool_new n)"
  shows "tp_requested p = n + tp_accepted p + tp_broken p \<and>
    subseq (map fst (tp_pairs p) @ tp_visitors p) (arrivals es) \<and>
    subseq (map snd (tp_pairs p)) (map (started B) (offers es)) \<and>
    (tp_running p \<longrightarrow> length (tp_pairs p) + length (tp_visitors p) = tp_accepted p) \<and>
    length (tp_visitors p) \<le> CHAN_SIZE + 2"
proof -
  have inv: "pool_inv B n es p"
    unfolding p_def by (rule pool_run_inv)
  then obtain used where "used @ tp_data p = offers es" "subseq (map snd (tp_pairs p)) (map (started B) used)"
    by (auto simp: pool_inv_def)
  then have "subseq (map snd (tp_pairs p)) (map (started B) (offers es))"
    by (metis list_emb_prefix map_append)
  with inv show ?thesis
    by (simp add: pool_inv_def)
qed

theorem tcp_pool_faithful_witness:
  "let c = \<lparr>rx = [], tx = [], wr_left = 0\<rparr>; c' = \<lparr>rx = [], tx = [], wr_left = 2\<rparr>;
       es = [Visitor 7, DataChannel c, Visitor 8, DataChannel c', Turn, Turn];
       p = pool_run bincode_fixint es (tcp_pool_new 1)
   in tp_requested p = 1 + tp_accepted p + tp_broken p \<and> tp_requested p = 4 \<and> map fst (tp_pairs p) = [7] \<and> tp_visitors p = [8] \<and>
      length (tp_pairs p) + length (tp_visitors p) = tp_accepted p"
  using tcp_pool_faithful [of bincode_fixint "[Visitor 7, DataChannel \<lparr>rx = [], tx = [], wr_left = 0\<rparr>, Visitor 8,
      DataChannel \<lparr>rx = [], tx = [], wr_left = 2\<rparr>, Turn, Turn]" 1]
  by (simp add: pool_run_def pool_accept_def pool_offer_def pool_turn_def write_and_flush_run tcp_pool_new_def CHAN_SIZE_def)

text \<open>
  A running TCP pool with enough working data channels pairs every waiting visitor, one per
  turn, in order.
\<close>

theorem tcp_pool_drains:
  assumes "tp_running p" and "list_all (\<lambda>c. 2 \<le> wr_left c) (tp_data p)" and "length (tp_visitors p) \<le> length (tp_data p)"
  shows "(pool_turn B ^^ length (tp_visitors p)) p =
    p\<lparr>tp_visitors := [], tp_data := drop (length (tp_visitors p)) (tp_data p),
      tp_pairs := tp_pairs p @ zip (tp_visitors p) (map (started B) (tp_data p))\<rparr>"
  using assms
proof (induction "tp_visitors p" arbitrary: p)
  case Nil
  then show ?case by simp
next
  case (Cons v vs)
  then obtain c cs where data: "tp_data p = c # cs" "2 \<le> wr_left c"
    by (cases "tp_data p") auto
  have vis: "tp_visitors p = v # vs" using Cons.hyps(2) by simp
  let ?q = "p\<lparr>tp_visitors := vs, tp_data := cs, tp_pairs := tp_pairs p @ [(v, started B c)]\<rparr>"
  have turn: "pool_turn B p = ?q"
    using Cons.prems(1) data vis by (simp add: pool_turn_def write_and_flush_run started_def)
  have "(pool_turn B ^^ length (tp_visitors ?q)) ?q =
      ?q\<lparr>tp_visitors := [], tp_data := drop (length (tp_visitors ?q)) (tp_data ?q),
        tp_pairs := tp_pairs ?q @ zip (tp_visitors ?q) (map (started B) (tp_data ?q))\<rparr>"
    by (rule Cons.hyps(1)) (use Cons.prems vis data in simp_all)
  then show ?case
    by (simp add: vis data funpow_Suc_right turn del: funpow.simps)
qed

theorem tcp_pool_drains_witness:
  "let c = \<lparr>rx = [], tx = [], wr_left = 2\<rparr>; p = (tcp_pool_new 1)\<lparr>tp_visitors := [7, 8], tp_data := [c, c]\<rparr>
   in tp_visitors ((pool_turn bincode_fixint ^^ 2) p) = [] \<and> map fst (tp_pairs ((pool_turn bincode_fixint ^^ 2) p)) = [7, 8]"
  using tcp_pool_drains [of "(tcp_pool_new 1)\<lparr>tp_visitors := [7, 8],
      tp_data := [\<lparr>rx = [], tx = [], wr_left = 2\<rparr>, \<lparr>rx = [], tx = [], wr_left = 2\<rparr>]\<rparr>" bincode_fixint]
  by (simp add: tcp_pool_new_def numeral_2_eq_2 del: funpow.simps)

section \<open>The UDP pool\<close>

fun from_visitors :: "udp_event list \<Rightarrow> udp_traffic list" where
  "from_visitors [] = []"
| "from_visitors (FromVisitor a d # es) = \<lparr>t_from = a, t_data = take UDP_BUFFER_SIZE d\<rparr> # from_visitors es"
| "from_visitors (_ # es) = from_visitors es"

fun from_client :: "udp_event list \<Rightarrow> nat" where
  "from_client [] = 0"
| "from_client (FromClient ok # es) = Suc (from_client es)"
| "from_client (_ # es) = from_client es"

fun forwarding :: "udp_event \<Rightarrow> bool" where
  "forwarding (FromVisitor a d) = plain_addr a"
| "forwarding (FromClient ok) = ok"
| "forwarding _ = False"

definition udp_pool_run :: "bincode \<Rightarrow> udp_event list \<Rightarrow> udp_pool \<Rightarrow> udp_pool" where
  "udp_pool_run B es p = fold (udp_pool_step B) es p"

lemma udp_pool_run_ok:
  assumes "bincode_ok B" and "list_all forwarding es" and "up_running p"
    and "3 * length es \<le> wr_left (up_conn p)" and "from_client es \<le> length ts"
    and "\<forall>t \<in> set ts. plain_addr (t_from t) \<and> length (t_data t) < 2 ^ 16"
    and "rx (up_conn p) = concat (map (udp_frame B) ts) @ rest"
  shows "up_running (udp_pool_run B es p) \<and>
    tx (up_conn (udp_pool_run B es p)) = tx (up_conn p) @ concat (map (udp_frame B) (from_visitors es)) \<and>
    up_sent (udp_pool_run B es p) = up_sent p @ map (\<lambda>t. (t_from t, t_data t)) (take (from_client es) ts)"
  using assms(2-7) unfolding udp_pool_run_def
proof (induction es arbitrary: p ts)
  case Nil
  then show ?case by simp
next
  case (Cons e es)
  show ?case
  proof (cases e)
    case (FromVisitor a d)
    let ?t = "\<lparr>t_from = a, t_data = take UDP_BUFFER_SIZE d\<rparr>"
    have "udp_pool_step B e p = p\<lparr>up_conn := (up_conn p)\<lparr>tx := tx (up_conn p) @ udp_frame B ?t,
        wr_left := wr_left (up_conn p) - 3\<rparr>, up_running := True\<rparr>"
      using Cons.prems FromVisitor by (simp add: udp_pool_step_def udp_write_slice_eq udp_write_ok)
    with Cons.IH [of "udp_pool_step B e p" ts] Cons.prems FromVisitor show ?thesis by simp
  next
    case (FromClient ok)
    then obtain t ts' where ts: "ts = t # ts'"
      using Cons.prems(4) by (cases ts) auto
    have "udp_recv B (up_conn p) = ((up_conn p)\<lparr>rx := concat (map (udp_frame B) ts') @ rest\<rparr>, Inr t)"
      using udp_recv_frame [OF assms(1), of t "up_conn p" "concat (map (udp_frame B) ts') @ rest"] Cons.prems(5,6) ts
      by simp
    then have "udp_pool_step B e p = p\<lparr>up_conn := (up_conn p)\<lparr>rx := concat (map (udp_frame B) ts') @ rest\<rparr>,
        up_sent := up_sent p @ [(t_from t, t_data t)]\<rparr>"
      using Cons.prems(1,2) FromClient by (simp add: udp_pool_step_def)
    with Cons.IH [of "udp_pool_step B e p" ts'] Cons.prems FromClient ts show ?thesis by simp
  qed (use Cons.prems(1) in simp_all)
qed

text \<open>
  The UDP pool keeps datagrams apart in both directions, however they interleave: what the
  client reads from the data channel is the visitors' datagrams in order, each with its sender
  and cut to the buffer of 2048 bytes, and what the visitors get is the datagrams the client
  framed, in order, each to its address.
\<close>

theorem udp_pool_forwards:
  assumes "bincode_ok B" and "list_all forwarding es" and "up_running p"
    and "3 * length es \<le> wr_left (up_conn p)" and "from_client es = length ts"
    and "\<forall>t \<in> set ts. plain_addr (t_from t) \<and> length (t_data t) < 2 ^ 16"
    and "rx (up_conn p) = concat (map (udp_frame B) ts)" and "tx (up_conn p) = []" and "up_sent p = []"
    and "rx d = tx (up_conn (udp_pool_run B es p))"
  shows "up_running (udp_pool_run B es p) \<and>
    udp_recv_n B (length (from_visitors es)) d = (d\<lparr>rx := []\<rparr>, Inr (from_visitors es)) \<and>
    up_sent (udp_pool_run B es p) = map (\<lambda>t. (t_from t, t_data t)) ts"
proof -
  have run: "up_running (udp_pool_run B es p) \<and>
    tx (up_conn (udp_pool_run B es p)) = tx (up_conn p) @ concat (map (udp_frame B) (from_visitors es)) \<and>
    up_sent (udp_pool_run B es p) = up_sent p @ map (\<lambda>t. (t_from t, t_data t)) (take (from_client es) ts)"
    by (rule udp_pool_run_ok [OF assms(1-4) _ assms(6), of "[]"]) (simp_all add: assms(5,7))
  have "\<forall>t \<in> set (from_visitors es). plain_addr (t_from t) \<and> length (t_data t) < 2 ^ 16"
    using assms(2) by (induction es rule: from_visitors.induct) (auto simp: UDP_BUFFER_SIZE_def)
  then show ?thesis
    using udp_recv_n_frames [OF assms(1), of "from_visitors es" d "[]"] run assms(5,8-10) by simp
qed

theorem udp_pool_forwards_witness:
  "let t = \<lparr>t_from = V4 1 80, t_data = [1, 2]\<rparr>;
       p = \<lparr>up_conn = \<lparr>rx = udp_frame bincode_fixint t, tx = [], wr_left = 6\<rparr>, up_sent = [], up_running = True\<rparr>;
       es = [FromVisitor (V4 2 90) [3], FromClient True];
       d = \<lparr>rx = tx (up_conn (udp_pool_run bincode_fixint es p)), tx = [], wr_left = 0\<rparr>
   in udp_recv_n bincode_fixint 1 d = (d\<lparr>rx := []\<rparr>, Inr [\<lparr>t_from = V4 2 90, t_data = [3]\<rparr>]) \<and>
      up_sent (udp_pool_run bincode_fixint es p) = [(V4 1 80, [1, 2])]"
  using udp_pool_forwards [OF bincode_fixint_ok, of "[FromVisitor (V4 2 90) [3], FromClient True]"
      "\<lparr>up_conn = \<lparr>rx = udp_frame bincode_fixint \<lparr>t_from = V4 1 80, t_data = [1, 2]\<rparr>, tx = [], wr_left = 6\<rparr>,
        up_sent = [], up_running = True\<rparr>" "[\<lparr>t_from = V4 1 80, t_data = [1, 2]\<rparr>]" "\<lparr>rx = _, tx = [], wr_left = 0\<rparr>"]
  by (simp add: Let_def UDP_BUFFER_SIZE_def del: udp_recv_n.simps)

end
