(* ===== verification/Helper.thy ===== *)
theory Helper
  imports Protocol Float64 Config_Types
begin

text \<open>
  Addresses and socket options: \<^verbatim>\<open>helper.rs\<close>, \<^verbatim>\<open>constants.rs\<close>, \<^verbatim>\<open>transport/mod.rs\<close> and
  \<^verbatim>\<open>transport/tcp.rs\<close>. Name resolution is a parameter, a function from an address string to the
  addresses it resolves to, or an error. A connection attempt is modelled by what is dialled.
\<close>

section \<open>Resolution\<close>

datatype helper_error = LookupFailed | NoAddress | BadPort | MissingSemicolon | NoProxyHost | NoProxyPort | UnknownScheme

type_synonym resolver = "string \<Rightarrow> helper_error + socket_addr list"

definition to_socket_addr :: "resolver \<Rightarrow> string \<Rightarrow> helper_error + socket_addr" where
  "to_socket_addr lookup_host addr =
     rbind (lookup_host addr) (\<lambda>as. ok_or (case as of [] \<Rightarrow> None | a # _ \<Rightarrow> Some a) NoAddress)"

text \<open>The \<^verbatim>\<open>expect\<close> of the missing colon is the error \<open>MissingSemicolon\<close>.\<close>

definition host_port_pair :: "string \<Rightarrow> helper_error + string \<times> u16" where
  "host_port_pair s =
     (if CHR '':'' \<notin> set s then Inl MissingSemicolon
      else let port = rsplit_first CHR '':'' s in
        rbind (ok_or (parse_u16 port) BadPort) (\<lambda>p. Inr (take (length s - length port - 1) s, p)))"

fun is_ipv6 :: "socket_addr \<Rightarrow> bool" where
  "is_ipv6 (V4 _ _) = False"
| "is_ipv6 (V6 _ _ _ _) = True"

text \<open>\<^verbatim>\<open>udp_connect\<close>: the peer the socket is connected to and the address it is bound to.\<close>

definition udp_connect :: "resolver \<Rightarrow> string \<Rightarrow> bool \<Rightarrow> helper_error + socket_addr \<times> string" where
  "udp_connect lookup_host addr prefer_ipv6 =
     (if \<not> prefer_ipv6 then
        rbind (to_socket_addr lookup_host addr) (\<lambda>socket_addr.
          Inr (socket_addr, case socket_addr of V4 _ _ \<Rightarrow> ''0.0.0.0:0'' | V6 _ _ _ _ \<Rightarrow> '':::0''))
      else
        rbind (lookup_host addr) (\<lambda>all_host_addresses.
          case find is_ipv6 all_host_addresses of
            Some socket_addr_ipv6 \<Rightarrow> Inr (socket_addr_ipv6, '':::0'')
          | None \<Rightarrow>
              (case find (\<lambda>x. \<not> is_ipv6 x) all_host_addresses of
                 None \<Rightarrow> Inl NoAddress
               | Some socket_addr_ipv4 \<Rightarrow> Inr (socket_addr_ipv4, ''0.0.0.0:0''))))"

section \<open>Cached addresses\<close>

record addr_maybe_cached =
  am_addr :: string
  am_socket_addr :: "socket_addr option"

definition addr_new :: "string \<Rightarrow> addr_maybe_cached" where
  "addr_new addr = \<lparr>am_addr = addr, am_socket_addr = None\<rparr>"

definition addr_resolve :: "resolver \<Rightarrow> addr_maybe_cached \<Rightarrow> helper_error + addr_maybe_cached" where
  "addr_resolve lookup_host a =
     rbind (to_socket_addr lookup_host (am_addr a)) (\<lambda>s. Inr (a\<lparr>am_socket_addr := Some s\<rparr>))"

section \<open>Dialling\<close>

type_synonym proxy_auth = "(string \<times> string) option"

datatype dial =
    Direct socket_addr
  | DirectName string
  | Socks5 "string \<times> u16" "string \<times> u16" proxy_auth
  | HttpConnect "string \<times> u16" "string \<times> u16" proxy_auth

definition tcp_connect_with_proxy :: "addr_maybe_cached \<Rightarrow> url option \<Rightarrow> helper_error + dial" where
  "tcp_connect_with_proxy addr proxy =
     (case proxy of
        Some url \<Rightarrow>
          rbind (ok_or (url_host_str url) NoProxyHost) (\<lambda>h.
          rbind (ok_or (url_port url) NoProxyPort) (\<lambda>p.
          let auth = (if url_username url \<noteq> [] \<or> url_password url \<noteq> None
                      then Some (url_username url, case_option [] id (url_password url)) else None) in
          if url_scheme url = ''socks5'' then
            rbind (host_port_pair (am_addr addr)) (\<lambda>target. Inr (Socks5 (h, p) target auth))
          else if url_scheme url = ''http'' then
            rbind (host_port_pair (am_addr addr)) (\<lambda>target. Inr (HttpConnect (h, p) target auth))
          else Inl UnknownScheme))
      | None \<Rightarrow>
          Inr (case am_socket_addr addr of Some s \<Rightarrow> Direct s | None \<Rightarrow> DirectName (am_addr addr)))"

section \<open>Socket options\<close>

record keepalive =
  ka_secs :: u64
  ka_interval :: u64

record socket_opts =
  so_nodelay :: "bool option"
  so_keepalive :: "keepalive option"

definition socket_opts_none :: socket_opts where
  "socket_opts_none = \<lparr>so_nodelay = None, so_keepalive = None\<rparr>"

definition for_control_channel :: socket_opts where
  "for_control_channel = socket_opts_none\<lparr>so_nodelay := Some True\<rparr>"

definition from_cfg :: "tcp_config \<Rightarrow> socket_opts" where
  "from_cfg cfg =
     \<lparr>so_nodelay = Some (tcp_nodelay cfg),
      so_keepalive = Some \<lparr>ka_secs = tcp_keepalive_secs cfg, ka_interval = tcp_keepalive_interval cfg\<rparr>\<rparr>"

definition from_client_cfg :: "client_service_config \<Rightarrow> socket_opts" where
  "from_client_cfg cfg = socket_opts_none\<lparr>so_nodelay := cs_nodelay cfg\<rparr>"

definition from_server_cfg :: "server_service_config \<Rightarrow> socket_opts" where
  "from_server_cfg cfg = socket_opts_none\<lparr>so_nodelay := ss_nodelay cfg\<rparr>"

text \<open>
  The options of a TCP socket, and what \<^verbatim>\<open>SocketOpts::apply\<close> makes of them; \<open>set_ok\<close> says which
  of the two system calls succeed, keepalive first. Failures are logged and otherwise ignored.
\<close>

record tcp_socket =
  ts_nodelay :: bool
  ts_keepalive :: "keepalive option"

definition socket_opts_apply :: "bool \<times> bool \<Rightarrow> socket_opts \<Rightarrow> tcp_socket \<Rightarrow> tcp_socket" where
  "socket_opts_apply set_ok opts s =
     (let s = (case so_keepalive opts of
                 Some v \<Rightarrow> if fst set_ok then s\<lparr>ts_keepalive := Some v\<rparr> else s
               | None \<Rightarrow> s)
      in case so_nodelay opts of
           Some nodelay \<Rightarrow> if snd set_ok then s\<lparr>ts_nodelay := nodelay\<rparr> else s
         | None \<Rightarrow> s)"

section \<open>The TCP transport\<close>

record tcp_transport =
  tt_socket_opts :: socket_opts
  tt_cfg :: tcp_config

definition tcp_transport_new :: "transport_config \<Rightarrow> tcp_transport" where
  "tcp_transport_new config = \<lparr>tt_socket_opts = from_cfg (tr_tcp config), tt_cfg = tr_tcp config\<rparr>"

text \<open>A socket as it is accepted or connected, with the options that the system gives it in \<open>s\<close>.\<close>

definition tcp_transport_accept :: "bool \<times> bool \<Rightarrow> tcp_transport \<Rightarrow> tcp_socket \<Rightarrow> tcp_socket" where
  "tcp_transport_accept set_ok t s = socket_opts_apply set_ok (tt_socket_opts t) s"

definition tcp_transport_connect ::
  "bool \<times> bool \<Rightarrow> tcp_transport \<Rightarrow> addr_maybe_cached \<Rightarrow> tcp_socket \<Rightarrow> helper_error + dial \<times> tcp_socket" where
  "tcp_transport_connect set_ok t addr s =
     rbind (tcp_connect_with_proxy addr (tcp_proxy (tt_cfg t))) (\<lambda>d.
     Inr (d, socket_opts_apply set_ok (tt_socket_opts t) s))"

definition tcp_transport_hint :: "bool \<times> bool \<Rightarrow> socket_opts \<Rightarrow> tcp_socket \<Rightarrow> tcp_socket" where
  "tcp_transport_hint set_ok opts s = socket_opts_apply set_ok opts s"

section \<open>The interface of a transport\<close>

text \<open>
  What the server and the client rely on of every implementation of the trait \<^verbatim>\<open>Transport\<close> with
  regard to the socket below: an accepted socket has the options of the TCP section, whatever
  runs on top. \<open>accept\<close> is the part of it that sets the options.
\<close>

locale transport =
  fixes new :: "transport_config \<Rightarrow> 'e + 't"
    and accept :: "bool \<times> bool \<Rightarrow> 't \<Rightarrow> tcp_socket \<Rightarrow> tcp_socket"
  assumes accept_opts: "new config = Inr t \<Longrightarrow> accept set_ok t s = socket_opts_apply set_ok (from_cfg (tr_tcp config)) s"
begin

text \<open>
  A control channel never delays small packets, a data channel does what its service says and
  otherwise what the TCP section says; both keep the configured keepalive.
\<close>

lemma control_channel_socket:
  "new config = Inr t \<Longrightarrow>
   tcp_transport_hint (True, True) for_control_channel (accept (True, True) t s) =
     s\<lparr>ts_nodelay := True, ts_keepalive := so_keepalive (from_cfg (tr_tcp config))\<rparr>"
  by (simp add: accept_opts tcp_transport_hint_def socket_opts_apply_def for_control_channel_def socket_opts_none_def from_cfg_def)

lemma data_channel_socket:
  "new config = Inr t \<Longrightarrow>
   tcp_transport_hint (True, True) (from_server_cfg cfg) (accept (True, True) t s) =
     s\<lparr>ts_nodelay := (case ss_nodelay cfg of Some b \<Rightarrow> b | None \<Rightarrow> tcp_nodelay (tr_tcp config)),
       ts_keepalive := so_keepalive (from_cfg (tr_tcp config))\<rparr>"
  by (simp add: accept_opts tcp_transport_hint_def socket_opts_apply_def from_server_cfg_def socket_opts_none_def from_cfg_def
      split: option.split)

text \<open>A system call that fails leaves its option alone and does not keep the other from being set.\<close>

lemma accept_partial:
  "new config = Inr t \<Longrightarrow>
   ts_nodelay (accept (ka_ok, nd_ok) t s) = (if nd_ok then tcp_nodelay (tr_tcp config) else ts_nodelay s) \<and>
   ts_keepalive (accept (ka_ok, nd_ok) t s) = (if ka_ok then so_keepalive (from_cfg (tr_tcp config)) else ts_keepalive s)"
  by (simp add: accept_opts socket_opts_apply_def from_cfg_def)

end

interpretation tcp: transport "\<lambda>config. Inr (tcp_transport_new config) :: helper_error + tcp_transport" tcp_transport_accept
  by unfold_locales (auto simp: tcp_transport_accept_def tcp_transport_new_def)

section \<open>Backoff\<close>

text \<open>
  The parameters of an exponential backoff that the program sets (\<^verbatim>\<open>constants.rs\<close>), over the
  defaults of its crate, times in milliseconds. \<open>next\<close> is the crate's \<^verbatim>\<open>next_backoff\<close> after a time
  of trying; what is relied on is that it gives up only at a time limit.
\<close>

record exponential_backoff =
  eb_randomization_factor :: f64
  eb_multiplier :: f64
  eb_max_interval :: nat
  eb_max_elapsed_time :: "nat option"

definition listen_backoff :: "exponential_backoff \<Rightarrow> exponential_backoff" where
  "listen_backoff dflt = dflt\<lparr>eb_max_elapsed_time := None, eb_max_interval := 1000\<rparr>"

definition run_control_chan_backoff :: "exponential_backoff \<Rightarrow> u64 \<Rightarrow> exponential_backoff" where
  "run_control_chan_backoff dflt interval =
     dflt\<lparr>eb_randomization_factor := f64_round (1 / 5), eb_max_elapsed_time := None, eb_multiplier := f64_round 3, eb_max_interval := unat interval * 1000\<rparr>"

definition backoff_ok :: "(exponential_backoff \<Rightarrow> nat \<Rightarrow> nat option) \<Rightarrow> bool" where
  "backoff_ok next \<longleftrightarrow> (\<forall>b elapsed. next b elapsed = None \<longrightarrow> (\<exists>limit. eb_max_elapsed_time b = Some limit \<and> limit \<le> elapsed))"

text \<open>\<^verbatim>\<open>backoff::future::retry_notify\<close>: attempts, each with how long it was tried until then.\<close>

fun retry_notify ::
  "(exponential_backoff \<Rightarrow> nat \<Rightarrow> nat option) \<Rightarrow> exponential_backoff \<Rightarrow> ('a option \<times> nat) list \<Rightarrow> (unit + 'a) option" where
  "retry_notify next b [] = None"
| "retry_notify next b ((Some x, _) # as) = Some (Inr x)"
| "retry_notify next b ((None, elapsed) # as) =
     (case next b elapsed of None \<Rightarrow> Some (Inl ()) | Some _ \<Rightarrow> retry_notify next b as)"

lemma backoff_limit: "backoff_ok next \<Longrightarrow> next b elapsed = None \<Longrightarrow> \<exists>limit. eb_max_elapsed_time b = Some limit \<and> limit \<le> elapsed"
  by (simp add: backoff_ok_def)

lemma backoff_unlimited: "backoff_ok next \<Longrightarrow> eb_max_elapsed_time b = None \<Longrightarrow> next b elapsed \<noteq> None"
  using backoff_limit by fastforce

text \<open>An operation that is retried fails for good only after its time limit, and never without one.\<close>

lemma retry_notify_fails:
  assumes "backoff_ok next" and "retry_notify next b as = Some (Inl ())"
  shows "\<exists>limit elapsed. eb_max_elapsed_time b = Some limit \<and> (None, elapsed) \<in> set as \<and> limit \<le> elapsed"
  using assms(2)
proof (induction "as")
  case (Cons a "as")
  then obtain elapsed where a: "a = (None, elapsed)" by (cases a; cases "fst a") auto
  show ?case
  proof (cases "next b elapsed")
    case None
    from backoff_limit [OF assms(1) this] show ?thesis by (auto simp: a)
  next
    case (Some d)
    with Cons a show ?thesis by auto
  qed
qed simp

section \<open>Retrying with a deadline\<close>

text \<open>
  \<^verbatim>\<open>retry_notify_with_deadline\<close> with a backoff that has no time limit: the attempts one after
  the other until one succeeds, or the shutdown signal comes between two of them.
\<close>

datatype 'a attempt = Attempt "'a option" | Deadline

fun retry_notify_with_deadline :: "'a attempt list \<Rightarrow> (unit + 'a) option" where
  "retry_notify_with_deadline [] = None"
| "retry_notify_with_deadline (Deadline # _) = Some (Inl ())"
| "retry_notify_with_deadline (Attempt (Some x) # _) = Some (Inr x)"
| "retry_notify_with_deadline (Attempt None # as) = retry_notify_with_deadline as"

section \<open>Properties\<close>

text \<open>
  A UDP forwarder is connected to an address of the host and bound to the wildcard address
  of the same family. When IPv6 is preferred it is the first IPv6 address if there is one, and
  the first address otherwise; it fails exactly when the lookup fails or gives nothing.
\<close>

theorem udp_connect_choice:
  "udp_connect lookup_host addr prefer_ipv6 =
     (case lookup_host addr of
        Inl e \<Rightarrow> Inl e
      | Inr as \<Rightarrow>
          (case (if prefer_ipv6 then filter is_ipv6 as else []) @ as of
             [] \<Rightarrow> Inl NoAddress
           | a # _ \<Rightarrow> Inr (a, if is_ipv6 a then '':::0'' else ''0.0.0.0:0'')))"
proof (cases "lookup_host addr")
  case (Inl e)
  then show ?thesis by (simp add: udp_connect_def to_socket_addr_def)
next
  case (Inr as)
  have v6: "find is_ipv6 as = (case filter is_ipv6 as of [] \<Rightarrow> None | a # _ \<Rightarrow> Some a)"
    by (induction as) auto
  show ?thesis
  proof (cases prefer_ipv6)
    case False
    then show ?thesis
      by (cases as) (auto simp: udp_connect_def to_socket_addr_def Inr split: socket_addr.splits)
  next
    case True
    show ?thesis
    proof (cases "filter is_ipv6 as")
      case Nil
      then have v4: "\<forall>a \<in> set as. \<not> is_ipv6 a" by (simp add: filter_empty_conv)
      have none: "find is_ipv6 as = None" by (simp add: v6 Nil)
      have some: "find (\<lambda>x. \<not> is_ipv6 x) as = (case as of [] \<Rightarrow> None | a # _ \<Rightarrow> Some a)"
        using v4 by (cases as) simp_all
      show ?thesis
        unfolding udp_connect_def Inr rbind.simps none some
        using True Nil v4 by (simp split: list.split)
    next
      case (Cons a bs)
      then have "a \<in> set (filter is_ipv6 as)" by simp
      then have "is_ipv6 a" by simp
      then show ?thesis
        unfolding udp_connect_def Inr rbind.simps v6 using True Cons by simp
    qed
  qed
qed

lemma host_port_pair_ok:
  assumes "unat port = n"
  shows "host_port_pair (host @ '':'' @ show_nat n) = Inr (host, port)"
proof -
  have "n \<le> 65535"
    using unsigned_less [of port, where 'a = nat] assms by simp
  then have "parse_u16 (show_nat n) = Some port"
    using assms by (auto simp: parse_u16_def parse_show_nat)
  then show ?thesis
    by (simp add: host_port_pair_def rsplit_first_append [OF show_nat_no_colon])
qed

text \<open>
  Behind a proxy the client dials the proxy and asks it for exactly the host and port of
  the remote address, an IPv6 host included, with the credentials of the proxy's URL if it has
  any; without a proxy it dials the resolved address, or the name if it is not resolved.
\<close>

theorem tcp_connect_target:
  assumes "am_addr addr = host @ '':'' @ show_nat (unat port)"
  shows "tcp_connect_with_proxy addr None =
      Inr (case am_socket_addr addr of Some s \<Rightarrow> Direct s | None \<Rightarrow> DirectName (am_addr addr)) \<and>
    tcp_connect_with_proxy addr (Some \<lparr>url_scheme = ''socks5'', url_host_str = Some h, url_port = Some p,
        url_username = user, url_password = pw\<rparr>) =
      Inr (Socks5 (h, p) (host, port) (if user = [] \<and> pw = None then None else Some (user, case_option [] id pw))) \<and>
    tcp_connect_with_proxy addr (Some \<lparr>url_scheme = ''http'', url_host_str = Some h, url_port = Some p,
        url_username = user, url_password = pw\<rparr>) =
      Inr (HttpConnect (h, p) (host, port) (if user = [] \<and> pw = None then None else Some (user, case_option [] id pw)))"
  using host_port_pair_ok [OF refl, of host port] assms by (simp add: tcp_connect_with_proxy_def)

theorem tcp_connect_target_witness:
  "tcp_connect_with_proxy (addr_new ''::1:80'') (Some \<lparr>url_scheme = ''http'', url_host_str = Some ''proxy'',
      url_port = Some 8080, url_username = ''u'', url_password = None\<rparr>) =
   Inr (HttpConnect (''proxy'', 8080) (''::1'', 80) (Some (''u'', [])))"
proof -
  have "show_nat 8 = ''8''" "show_nat 80 = ''80''"
    by code_simp+
  then have "am_addr (addr_new ''::1:80'') = ''::1'' @ '':'' @ show_nat (unat (80 :: u16))"
    by (simp add: addr_new_def)
  from tcp_connect_target [OF this, of "''proxy''" 8080 "''u''" None] show ?thesis by simp
qed

end
