(* ===== verification/Client.thy ===== *)
theory Client
  imports Helper Config_Watcher
begin

text \<open>
  The client (\<^verbatim>\<open>client.rs\<close>): starting services, hot reload, the control channel with its
  handshake and its loop, data channels for TCP and UDP, and visitors.

  A control channel task lives exactly while its handle is in the map: dropping the handle
  drops the sender of its shutdown signal, which the task takes for the signal. Connecting is
  a parameter: the connection that the transport gives, or none. The panics of the code (the
  unwraps of a missing token and of a missing retry interval) are the error \<open>CPanic\<close>.
\<close>

section \<open>State\<close>

datatype client_error =
    CProto proto_error
  | CIo io_error
  | Resolve helper_error
  | ConnectFailed
  | UnexpectedHello
  | Refused ack
  | HeartbeatTimedOut
  | UnexpectedForward data_channel_cmd service_type
  | NoSecretKeyConfigured
  | CPanic
  | CTransportFailed
  | MissingClientConfig
  | CFeatureNotCompiled

definition UDP_SENDQ_SIZE :: nat where "UDP_SENDQ_SIZE = 1024"

text \<open>\<^verbatim>\<open>ControlChannel\<close>, without the receiver of the shutdown signal and the transport.\<close>

record control_task =
  ct_digest :: digest
  ct_service :: client_service_config
  ct_remote_addr :: string
  ct_heartbeat_timeout :: u64

text \<open>The task of a visitor; \<open>vt_stop\<close> says that its handle is gone.\<close>

record visitor_task =
  vt_listen_addr :: string
  vt_server_name :: string
  vt_secret_key :: "string option"
  vt_stop :: bool

record client =
  cl_config :: client_config
  cl_handles :: "string \<rightharpoonup> control_task"
  cl_visitors :: "visitor_task list"

section \<open>Starting\<close>

definition run_client_transport ::
  "(transport_type \<Rightarrow> bool) \<Rightarrow> config \<Rightarrow> client_error + transport_type \<times> client_config" where
  "run_client_transport compiled config =
     rbind (ok_or (cfg_client config) MissingClientConfig) (\<lambda>cfg.
     case tr_transport_type (cc_transport cfg) of
       TTcp \<Rightarrow> Inr (TTcp, cfg)
     | TKcp \<Rightarrow> Inl CFeatureNotCompiled
     | TQuic \<Rightarrow> Inl CFeatureNotCompiled
     | t \<Rightarrow> if compiled t then Inr (t, cfg) else Inl CFeatureNotCompiled)"

definition client_from :: "(transport_config \<Rightarrow> bool) \<Rightarrow> client_config \<Rightarrow> client_error + client" where
  "client_from transport_new cfg =
     rbind (require (transport_new (cc_transport cfg)) CTransportFailed) (\<lambda>_.
     Inr \<lparr>cl_config = cfg, cl_handles = Map.empty, cl_visitors = []\<rparr>)"

definition control_channel_handle_new ::
  "(bytes \<Rightarrow> bytes) \<Rightarrow> client_service_config \<Rightarrow> string \<Rightarrow> u64 \<Rightarrow> client_error + control_task" where
  "control_channel_handle_new sha256 service remote_addr heartbeat_timeout =
     rbind (ok_or (cs_retry_interval service) CPanic) (\<lambda>_.
     Inr \<lparr>ct_digest = digest sha256 (as_bytes (cs_name service)), ct_service = service,
          ct_remote_addr = remote_addr, ct_heartbeat_timeout = heartbeat_timeout\<rparr>)"

definition visitor_handle_new :: "client_service_config \<Rightarrow> visitor_task" where
  "visitor_handle_new service =
     \<lparr>vt_listen_addr = (case cs_bind_addr service of Some a \<Rightarrow> a | None \<Rightarrow> ''127.0.0.1'') @ '':'' @
        show_nat (case cs_bind_port service of Some p \<Rightarrow> unat p | None \<Rightarrow> 0),
      vt_server_name = (case cs_server_name service of Some n \<Rightarrow> n | None \<Rightarrow> cs_name service),
      vt_secret_key = cs_secret_key service,
      vt_stop = False\<rparr>"

text \<open>\<^verbatim>\<open>drop\<close> of a \<^verbatim>\<open>VisitorHandle\<close>.\<close>

definition drop_visitor_handle :: "visitor_task \<Rightarrow> visitor_task" where
  "drop_visitor_handle v = v\<lparr>vt_stop := True\<rparr>"

text \<open>
  The body of the loop over the services in \<^verbatim>\<open>Client::run\<close>. The handle of a visitor is a local
  variable of the block that creates it.
\<close>

definition start_service :: "(bytes \<Rightarrow> bytes) \<Rightarrow> string \<times> client_service_config \<Rightarrow> client \<Rightarrow> client_error + client" where
  "start_service sha256 ns cl =
     (case ns of (name, service) \<Rightarrow>
        if \<not> cs_is_enabled service then Inr cl
        else if (case cc_start (cl_config cl) of Some start \<Rightarrow> name \<notin> set start | None \<Rightarrow> False) then Inr cl
        else if cs_is_visitor service then
          Inr (cl\<lparr>cl_visitors := cl_visitors cl @ [drop_visitor_handle (visitor_handle_new service)]\<rparr>)
        else
          rbind (control_channel_handle_new sha256 service (cc_remote_addr (cl_config cl))
            (cc_heartbeat_timeout (cl_config cl))) (\<lambda>handle.
          Inr (cl\<lparr>cl_handles := (cl_handles cl)(name \<mapsto> handle)\<rparr>)))"

fun start_services :: "(bytes \<Rightarrow> bytes) \<Rightarrow> (string \<times> client_service_config) list \<Rightarrow> client \<Rightarrow> client_error + client" where
  "start_services sha256 [] cl = Inr cl"
| "start_services sha256 (ns # nss) cl = rbind (start_service sha256 ns cl) (start_services sha256 nss)"

definition client_start :: "(bytes \<Rightarrow> bytes) \<Rightarrow> client \<Rightarrow> client_error + client" where
  "client_start sha256 cl = start_services sha256 (cc_services (cl_config cl)) cl"

definition handle_hot_reload :: "(bytes \<Rightarrow> bytes) \<Rightarrow> config_change \<Rightarrow> client \<Rightarrow> client_error + client" where
  "handle_hot_reload sha256 e cl =
     (case e of
        ClientChange (CAdd cfg) \<Rightarrow>
          if \<not> cs_is_enabled cfg then Inr cl
          else
            rbind (control_channel_handle_new sha256 cfg (cc_remote_addr (cl_config cl))
              (cc_heartbeat_timeout (cl_config cl))) (\<lambda>handle.
            Inr (cl\<lparr>cl_handles := (cl_handles cl)(cs_name cfg \<mapsto> handle)\<rparr>))
      | ClientChange (CDelete s) \<Rightarrow> Inr (cl\<lparr>cl_handles := (cl_handles cl)(s := None)\<rparr>)
      | _ \<Rightarrow> Inr cl)"

datatype client_input = ClientShutdown | ClientReload config_change

text \<open>The loop of \<^verbatim>\<open>Client::run\<close>: shutdown drains the handles. The flag says whether the loop still runs.\<close>

definition client_step :: "(bytes \<Rightarrow> bytes) \<Rightarrow> client_input \<Rightarrow> client \<times> bool \<Rightarrow> client_error + client \<times> bool" where
  "client_step sha256 i s =
     (case s of (cl, running) \<Rightarrow>
        if \<not> running then Inr s
        else case i of
          ClientShutdown \<Rightarrow> Inr (cl\<lparr>cl_handles := Map.empty\<rparr>, False)
        | ClientReload e \<Rightarrow> rbind (handle_hot_reload sha256 e cl) (\<lambda>cl'. Inr (cl', True)))"

section \<open>The control channel\<close>

definition cwrite :: "bytes \<Rightarrow> (conn, client_error, unit) sm" where
  "cwrite bs = sbind (smap_err CIo (write_all bs)) (\<lambda>_. smap_err CIo flush)"

text \<open>The handshake: hello, the server's nonce, the digest of token and nonce, the acknowledgement.\<close>

definition client_handshake :: "bincode \<Rightarrow> (bytes \<Rightarrow> bytes) \<Rightarrow> control_task \<Rightarrow> (conn, client_error, digest) sm" where
  "client_handshake B sha256 t =
     sbind (cwrite (enc (hello_codec B) (ControlChannelHello CURRENT_PROTO_VERSION (ct_digest t)))) (\<lambda>_.
     sbind (smap_err CProto (read_hello B sha256)) (\<lambda>h.
     sbind (case h of ControlChannelHello _ d \<Rightarrow> sret d | _ \<Rightarrow> sfail UnexpectedHello) (\<lambda>nonce.
     sbind (slift (ok_or (cs_token (ct_service t)) CPanic)) (\<lambda>token.
     let session_key = digest sha256 (as_bytes token @ nonce) in
     sbind (cwrite (enc (auth_codec B) (Auth session_key))) (\<lambda>_.
     sbind (smap_err CProto (read_ack B sha256)) (\<lambda>a.
     case a of AckOk \<Rightarrow> sret session_key | v \<Rightarrow> sfail (Refused v)))))))"

record data_channel_args =
  da_session_key :: digest
  da_remote_addr :: addr_maybe_cached
  da_socket_opts :: socket_opts
  da_service :: client_service_config

definition control_channel_open ::
  "resolver \<Rightarrow> (addr_maybe_cached \<Rightarrow> conn option) \<Rightarrow> bincode \<Rightarrow> (bytes \<Rightarrow> bytes) \<Rightarrow> control_task \<Rightarrow>
   client_error + data_channel_args \<times> conn" where
  "control_channel_open lookup_host connect B sha256 t =
     rbind (map_err Resolve (addr_resolve lookup_host (addr_new (ct_remote_addr t)))) (\<lambda>remote_addr.
     rbind (ok_or (connect remote_addr) ConnectFailed) (\<lambda>c.
     case client_handshake B sha256 t c of
       (c', r) \<Rightarrow> rbind r (\<lambda>session_key.
         Inr (\<lparr>da_session_key = session_key, da_remote_addr = remote_addr,
               da_socket_opts = from_client_cfg (ct_service t), da_service = ct_service t\<rparr>, c'))))"

text \<open>
  The loop: a command arrives, the heartbeat timer of this turn elapses, or the shutdown signal
  comes. \<open>cc_spawned\<close> counts the data channels that were started.
\<close>

datatype loop_event = Command | HeartbeatElapsed | ShutdownSent

record client_channel =
  ch_stream :: conn
  ch_timeout :: u64
  ch_spawned :: nat
  ch_done :: "(client_error + unit) option"

definition client_channel_new :: "u64 \<Rightarrow> conn \<Rightarrow> client_channel" where
  "client_channel_new timeout c = \<lparr>ch_stream = c, ch_timeout = timeout, ch_spawned = 0, ch_done = None\<rparr>"

definition client_channel_step :: "bincode \<Rightarrow> (bytes \<Rightarrow> bytes) \<Rightarrow> loop_event \<Rightarrow> client_channel \<Rightarrow> client_channel" where
  "client_channel_step B sha256 e ch =
     (if ch_done ch \<noteq> None then ch
      else case e of
        Command \<Rightarrow>
          (case read_control_cmd B sha256 (ch_stream ch) of
             (c, Inl err) \<Rightarrow> ch\<lparr>ch_stream := c, ch_done := Some (Inl (CProto err))\<rparr>
           | (c, Inr CreateDataChannel) \<Rightarrow> ch\<lparr>ch_stream := c, ch_spawned := ch_spawned ch + 1\<rparr>
           | (c, Inr HeartBeat) \<Rightarrow> ch\<lparr>ch_stream := c\<rparr>)
      | HeartbeatElapsed \<Rightarrow>
          if ch_timeout ch = 0 then ch else ch\<lparr>ch_done := Some (Inl HeartbeatTimedOut)\<rparr>
      | ShutdownSent \<Rightarrow> ch\<lparr>ch_done := Some (Inr ())\<rparr>)"

text \<open>
  The task around it, which runs the channel again after an error. An attempt is the result of
  \<^verbatim>\<open>run\<close>, whether the shutdown signal was sent or its sender dropped meanwhile, and the pause
  the backoff gives. Without an answer the task still runs; \<open>Some False\<close> is the panic.
\<close>

record run_attempt =
  at_result :: "client_error + unit"
  at_stopped :: bool
  at_backoff :: "nat option"

fun control_task_run :: "run_attempt list \<Rightarrow> bool option" where
  "control_task_run [] = None"
| "control_task_run (a # as) =
     (case at_result a of
        Inr _ \<Rightarrow> Some True
      | Inl CPanic \<Rightarrow> Some False
      | Inl _ \<Rightarrow>
          if at_stopped a then Some True
          else (case at_backoff a of Some _ \<Rightarrow> control_task_run as | None \<Rightarrow> Some False))"

section \<open>Data channels\<close>

text \<open>
  A data channel first connects, retrying for ten seconds: \<open>attempts\<close> are the connections that the
  transport gave, with the time of trying until then.
\<close>

definition data_channel_connect ::
  "(exponential_backoff \<Rightarrow> nat \<Rightarrow> nat option) \<Rightarrow> exponential_backoff \<Rightarrow> (conn option \<times> nat) list \<Rightarrow> (client_error + conn) option" where
  "data_channel_connect next dflt attempts =
     map_option (map_err (\<lambda>_. ConnectFailed))
       (retry_notify next (dflt\<lparr>eb_max_interval := 100, eb_max_elapsed_time := Some 10000\<rparr>) attempts)"

definition do_data_channel_handshake :: "bincode \<Rightarrow> data_channel_args \<Rightarrow> (conn, client_error, unit) sm" where
  "do_data_channel_handshake B args =
     cwrite (enc (hello_codec B) (DataChannelHello CURRENT_PROTO_VERSION (da_session_key args)))"

text \<open>What the data channel then forwards to: the local TCP service, or the local UDP service.\<close>

datatype forward = ForwardTcp string | ForwardUdp string bool

definition run_data_channel :: "bincode \<Rightarrow> (bytes \<Rightarrow> bytes) \<Rightarrow> data_channel_args \<Rightarrow> (conn, client_error, forward) sm" where
  "run_data_channel B sha256 args =
     sbind (do_data_channel_handshake B args) (\<lambda>_.
     sbind (smap_err CProto (read_data_cmd B sha256)) (\<lambda>cmd.
     let s = da_service args in
     case cmd of
       StartForwardTcp \<Rightarrow>
         if cs_service_type s \<notin> {Tcp, Http, Https, Tcpmux, Stcp}
         then sfail (UnexpectedForward cmd (cs_service_type s)) else sret (ForwardTcp (cs_local_addr s))
     | StartForwardUdp \<Rightarrow>
         if cs_service_type s \<notin> {Udp, Sudp}
         then sfail (UnexpectedForward cmd (cs_service_type s))
         else sret (ForwardUdp (cs_local_addr s) (cs_prefer_ipv6 s))
     | StartForwardHttp \<Rightarrow> sret (ForwardTcp (cs_local_addr s))
     | StartForwardStcp \<Rightarrow> sret (ForwardTcp (cs_local_addr s))))"

text \<open>\<^verbatim>\<open>run_data_channel_for_tcp\<close>: the two connections between which bytes are then copied.\<close>

definition run_data_channel_for_tcp :: "(string \<Rightarrow> conn option) \<Rightarrow> conn \<Rightarrow> string \<Rightarrow> client_error + conn \<times> conn" where
  "run_data_channel_for_tcp connect c local_addr =
     rbind (ok_or (connect local_addr) ConnectFailed) (\<lambda>local. Inr (c, local))"

section \<open>Visitors\<close>

definition handle_visitor_connection ::
  "bincode \<Rightarrow> (bytes \<Rightarrow> bytes) \<Rightarrow> string \<Rightarrow> string option \<Rightarrow> (conn, client_error, unit) sm" where
  "handle_visitor_connection B sha256 server_name secret_key =
     sbind (cwrite (enc (hello_codec B) (VisitorHello CURRENT_PROTO_VERSION (digest sha256 (as_bytes server_name))))) (\<lambda>_.
     sbind (smap_err CProto (read_hello B sha256)) (\<lambda>h.
     sbind (case h of ControlChannelHello _ d \<Rightarrow> sret d | _ \<Rightarrow> sfail UnexpectedHello) (\<lambda>nonce.
     sbind (slift (ok_or secret_key NoSecretKeyConfigured)) (\<lambda>key.
     sbind (cwrite (enc (auth_codec B) (Auth (digest sha256 (as_bytes key @ nonce))))) (\<lambda>_.
     sbind (smap_err CProto (read_ack B sha256)) (\<lambda>a.
     case a of AckOk \<Rightarrow> sret () | v \<Rightarrow> sfail (Refused v)))))))"

text \<open>The visitor's connection as a whole: resolving, connecting and the handshake; what is left is copying.\<close>

definition visitor_connection_open ::
  "resolver \<Rightarrow> (addr_maybe_cached \<Rightarrow> conn option) \<Rightarrow> bincode \<Rightarrow> (bytes \<Rightarrow> bytes) \<Rightarrow> string \<Rightarrow> string \<Rightarrow> string option \<Rightarrow> client_error + conn" where
  "visitor_connection_open lookup_host connect B sha256 remote_addr server_name secret_key =
     rbind (map_err Resolve (addr_resolve lookup_host (addr_new remote_addr))) (\<lambda>remote.
     rbind (ok_or (connect remote) ConnectFailed) (\<lambda>c.
     case handle_visitor_connection B sha256 server_name secret_key c of (c', r) \<Rightarrow> rbind r (\<lambda>_. Inr c')))"

text \<open>
  One turn of the loop of a visitor: a local connection is accepted, if one is there and the
  choice between the ready branches falls on it, or the loop ends. None means that it waits.
\<close>

definition visitor_turn :: "visitor_task \<Rightarrow> bool \<Rightarrow> bool \<Rightarrow> bool option" where
  "visitor_turn v connection_ready prefer_accept =
     (if connection_ready \<and> (prefer_accept \<or> \<not> vt_stop v) then Some True
      else if vt_stop v then Some False else None)"

end
