(* ===== verification/Handshake.thy ===== *)
theory Handshake
  imports Server_Props Client
begin

text \<open>
  The two ends of a connection together. A run of both ends over one connection is a pair of
  connections in which each receives exactly what the other has written; the theorems say what
  both ends conclude in every such run.
\<close>

section \<open>Output only grows\<close>

text \<open>Computations on a connection, alone or beside a server, whose output extends what was written before.\<close>

definition appends :: "('s \<Rightarrow> bytes) \<Rightarrow> ('s, 'e, 'a) sm \<Rightarrow> bool" where
  "appends out m \<longleftrightarrow> (\<forall>s. \<exists>X. out (fst (m s)) = out s @ X)"

lemma appends_sbind:
  assumes "appends out m" and "\<And>x. appends out (f x)"
  shows "appends out (sbind m f)"
  unfolding appends_def
proof
  fix s
  obtain s' r where m: "m s = (s', r)" by force
  obtain X where X: "out s' = out s @ X"
    using assms(1) m unfolding appends_def by (metis fst_conv)
  show "\<exists>X. out (fst (sbind m f s)) = out s @ X"
  proof (cases r)
    case (Inl e)
    then show ?thesis using X by (simp add: sbind_def m)
  next
    case (Inr x)
    obtain Y where "out (fst (f x s')) = out s' @ Y"
      using assms(2) unfolding appends_def by blast
    then show ?thesis using X by (simp add: sbind_def m Inr)
  qed
qed

lemma appends_pure: "(\<And>s. out (fst (m s)) = out s) \<Longrightarrow> appends out m"
  by (simp add: appends_def)

lemma appends_smap_err: "appends out m \<Longrightarrow> appends out (smap_err f m)"
  by (simp add: appends_def smap_err_def split: prod.split) (metis fst_conv)

lemma appends_write: "appends tx (write_all bs)" and appends_flush: "appends tx flush"
  by (auto simp: appends_def write_all_tx)

lemma appends_read_packet: "appends tx (read_packet C n w)"
  by (rule appends_pure) (rule read_packet_tx)

lemma appends_read_hello: "appends tx (read_hello B sha256)"
  by (rule appends_pure) (rule read_hello_tx)

lemma appends_sret: "appends out (sret x)" and appends_sfail: "appends out (sfail e)" and appends_slift: "appends out (slift r)"
  by (simp_all add: appends_def sm_defs)

lemma appends_cwrite: "appends tx (cwrite bs)"
  unfolding cwrite_def by (intro appends_sbind appends_smap_err appends_write appends_flush)

lemmas appends_intros = appends_sbind appends_smap_err appends_cwrite appends_read_hello appends_read_packet
  appends_sret appends_sfail appends_slift

lemma cwrite_ok: "2 \<le> wr_left c \<Longrightarrow> cwrite bs c = (c\<lparr>tx := tx c @ bs, wr_left := wr_left c - 2\<rparr>, Inr ())"
  by (simp add: cwrite_def sbind_def smap_err_def write_all_def flush_def numeral_2_eq_2)

abbreviation control_hello :: "bincode \<Rightarrow> bytes \<Rightarrow> bytes" where
  "control_hello B d \<equiv> enc (hello_codec B) (ControlChannelHello CURRENT_PROTO_VERSION d)"

section \<open>The client's side\<close>

lemma client_first_hello:
  assumes "2 \<le> wr_left c"
  shows "\<exists>X. tx (fst (client_handshake B sha256 t c)) = tx c @ control_hello B (ct_digest t) @ X"
proof -
  let ?c = "c\<lparr>tx := tx c @ control_hello B (ct_digest t), wr_left := wr_left c - 2\<rparr>"
  define rest where "rest = (\<lambda>_ :: unit.
     sbind (smap_err CProto (read_hello B sha256)) (\<lambda>h.
     sbind (case h of ControlChannelHello _ d \<Rightarrow> sret d | _ \<Rightarrow> sfail UnexpectedHello) (\<lambda>nonce.
     sbind (slift (ok_or (cs_token (ct_service t)) CPanic)) (\<lambda>token.
     let session_key = digest sha256 (as_bytes token @ nonce) in
     sbind (cwrite (enc (auth_codec B) (Auth session_key))) (\<lambda>_.
     sbind (smap_err CProto (read_ack B sha256)) (\<lambda>a.
     case a of AckOk \<Rightarrow> sret session_key | v \<Rightarrow> sfail (Refused v)))))))"
  have "appends tx (rest ())"
    unfolding rest_def Let_def read_ack_def
    by (intro appends_intros) (auto intro: appends_intros split: hello.split ack.split)
  then obtain X where "tx (fst (rest () ?c)) = tx ?c @ X"
    unfolding appends_def by blast
  moreover have "client_handshake B sha256 t c = rest () ?c"
    using assms by (simp add: client_handshake_def rest_def sbind_run [OF cwrite_ok])
  ultimately show ?thesis by simp
qed

lemma client_after_nonce:
  assumes "bincode_ok B" and "sha_ok sha256" and "length n = HASH_WIDTH_IN_BYTES" and "cs_token (ct_service t) = Some tok"
    and "4 \<le> wr_left c" and "rx c = control_hello B n @ Y"
  defines "key \<equiv> digest sha256 (as_bytes tok @ n)"
  defines "c' \<equiv> c\<lparr>tx := tx c @ control_hello B (ct_digest t) @ enc (auth_codec B) (Auth key), wr_left := wr_left c - 4, rx := Y\<rparr>"
  shows "client_handshake B sha256 t c =
    (fst (read_ack B sha256 c'), rbind (map_err CProto (snd (read_ack B sha256 c')))
       (\<lambda>a. if a = AckOk then Inr key else Inl (Refused a)))"
proof -
  let ?c1 = "c\<lparr>tx := tx c @ control_hello B (ct_digest t), wr_left := wr_left c - 2\<rparr>"
  have hello: "read_hello B sha256 ?c1 = (?c1\<lparr>rx := Y\<rparr>, Inr (ControlChannelHello CURRENT_PROTO_VERSION n))"
    by (rule read_hello_ok [OF assms(1,2)]) (simp_all add: assms(3,6))
  have auth: "cwrite (enc (auth_codec B) (Auth key)) (?c1\<lparr>rx := Y\<rparr>) = (c', Inr ())"
    using assms(5) by (simp add: cwrite_ok c'_def)
  show ?thesis
    using assms(4,5) auth unfolding key_def
    by (auto simp: client_handshake_def sbind_def cwrite_ok smap_err_def hello sret_def slift_def sfail_def Let_def
        split: prod.splits sum.splits ack.splits)
qed

lemma client_conclusion:
  assumes "bincode_ok B" and "sha_ok sha256" and "length n = HASH_WIDTH_IN_BYTES" and "cs_token (ct_service t) = Some tok"
    and "4 \<le> wr_left c" and "rx c = control_hello B n @ enc (ack_codec B) a"
  shows "snd (client_handshake B sha256 t c) =
    (if a = AckOk then Inr (digest sha256 (as_bytes tok @ n)) else Inl (Refused a))"
  unfolding client_after_nonce [OF assms]
  by (subst read_ack_ok [OF assms(1), of _ a "[]"]; simp)+

lemma client_auth_sent:
  assumes "bincode_ok B" and "sha_ok sha256" and "length n = HASH_WIDTH_IN_BYTES" and "cs_token (ct_service t) = Some tok"
    and "4 \<le> wr_left c" and "rx c = control_hello B n @ Y"
  shows "tx (fst (client_handshake B sha256 t c)) =
    tx c @ control_hello B (ct_digest t) @ enc (auth_codec B) (Auth (digest sha256 (as_bytes tok @ n)))"
  unfolding client_after_nonce [OF assms] by (simp add: read_ack_def read_packet_tx)

section \<open>The server's side\<close>

lemma server_unknown:
  assumes "sv_services sv d = None" and "3 \<le> wr_left c"
  shows "do_control_channel_handshake B sha256 n d (sv, c) =
    ((sv, c\<lparr>tx := tx c @ control_hello B n @ enc (ack_codec B) ServiceNotExist, wr_left := wr_left c - 3\<rparr>), Inl NoSuchService)"
  using assms by (simp add: do_control_channel_handshake_def control_handshake_begin_def handler_run numeral_3_eq_3)

lemma server_answered:
  assumes "bincode_ok B" and "sha_ok sha256" and "server_wf sha256 sv" and "length a = HASH_WIDTH_IN_BYTES"
    and "sv_services sv d = Some cfg" and "ss_token cfg = Some t" and "4 \<le> wr_left c" and "rx c = enc (auth_codec B) (Auth a)"
    and "do_control_channel_handshake B sha256 n d (sv, c) = ((sv', c'), r)"
  shows "if a = digest sha256 (as_bytes t @ n)
    then r = Inr () \<and> tx c' = tx c @ control_hello B n @ enc (ack_codec B) AckOk \<and>
      (a \<notin> key2 ` {it \<in> mm_abs (sv_channels sv). fst it \<noteq> d} \<longrightarrow>
        (d, a, \<lparr>hd_chan = sv_next sv, hd_service = cfg\<rparr>) \<in> mm_abs (sv_channels sv'))
    else r = Inl (FailedAuthentication (ss_name cfg)) \<and> tx c' = tx c @ control_hello B n @ enc (ack_codec B) AuthFailed \<and> sv' = sv"
proof -
  let ?c = "c\<lparr>tx := tx c @ control_hello B n, wr_left := wr_left c - 2, rx := []\<rparr>"
  have wf: "mm_wf (sv_channels sv)" using assms(3) by (simp add: server_wf_def)
  have f: "control_handshake_finish B sha256 d cfg (as_bytes t @ n) a (sv, ?c) = ((sv', c'), r)"
    using control_handshake_read [OF assms(1,2,4-6), of c "[]" n] assms(7-9) by simp
  show ?thesis
  proof (cases "a = digest sha256 (as_bytes t @ n)")
    case False
    with f assms(7) show ?thesis
      by (auto simp: control_handshake_finish_def handler_run split: if_splits)
  next
    case True
    then show ?thesis
      using assms(7) by (cases rule: finish_cases [OF wf f]) (auto simp: Let_def)
  qed
qed

lemma appends_handler_pure: "(\<And>sc. tx (snd (fst (m sc))) = tx (snd sc)) \<Longrightarrow> appends (\<lambda>sc. tx (snd sc)) m"
  by (simp add: appends_def)

lemma appends_on_conn: "appends tx m \<Longrightarrow> appends (\<lambda>sc. tx (snd sc)) (on_conn m)"
  by (simp add: appends_def on_conn_def split: prod.split) (metis fst_conv)

lemma appends_finish: "appends (\<lambda>sc. tx (snd sc)) (control_handshake_finish B sha256 d cfg secret a)"
proof -
  have "appends (\<lambda>sc. tx (snd sc)) (remove_channel d)" "appends (\<lambda>sc. tx (snd sc)) (Server.control_channel_handle_new cfg)"
    "appends (\<lambda>sc. tx (snd sc)) (insert_channel d k h)" for k h
    by (auto intro!: appends_handler_pure simp: remove_channel_def Server.control_channel_handle_new_def insert_channel_def Let_def
        split: sum.split)
  then show ?thesis
    unfolding control_handshake_finish_def Let_def send_ack_def send_def flush_conn_def
    by (auto intro!: appends_sbind appends_on_conn appends_smap_err appends_write appends_flush appends_sfail)
qed

lemma server_first_hello:
  assumes "sv_services sv d = Some cfg" and "ss_token cfg = Some t" and "2 \<le> wr_left c"
  shows "\<exists>Y. tx (snd (fst (do_control_channel_handshake B sha256 n d (sv, c)))) = tx c @ control_hello B n @ Y"
proof -
  let ?c = "c\<lparr>tx := tx c @ control_hello B n, wr_left := wr_left c - 2\<rparr>"
  let ?rest = "sbind (on_conn (smap_err Proto (read_auth B sha256)))
    (\<lambda>a. case a of Auth x \<Rightarrow> control_handshake_finish B sha256 d cfg (as_bytes t @ n) x)"
  have "appends (\<lambda>sc. tx (snd sc)) ?rest"
    by (intro appends_sbind appends_on_conn appends_smap_err)
      (auto simp: read_auth_def appends_read_packet appends_finish split: auth.split)
  then obtain Y where "tx (snd (fst (?rest (sv, ?c)))) = tx ?c @ Y"
    unfolding appends_def by (metis snd_conv)
  moreover have "do_control_channel_handshake B sha256 n d (sv, c) = ?rest (sv, ?c)"
    by (simp add: do_control_channel_handshake_def sbind_def begin_ok [OF assms])
  ultimately show ?thesis by simp
qed

section \<open>Agreement\<close>

text \<open>
  One run of a client and the server over one connection: each end receives what the other
  writes, starts with nothing written, and can write as often as it needs to.
\<close>

definition connected :: "conn \<Rightarrow> conn \<Rightarrow> conn \<Rightarrow> conn \<Rightarrow> bool" where
  "connected cc sc cc' sc' \<longleftrightarrow>
     tx cc = [] \<and> tx sc = [] \<and> 4 \<le> wr_left cc \<and> 4 \<le> wr_left sc \<and> rx sc = tx cc' \<and> rx cc = tx sc'"

lemma connected_auth:
  assumes "bincode_ok B" and "sha_ok sha256" and "length n = HASH_WIDTH_IN_BYTES"
    and "length (ct_digest t) = HASH_WIDTH_IN_BYTES" and "cs_token (ct_service t) = Some tok"
    and "\<And>cfg. sv_services sv (ct_digest t) = Some cfg \<Longrightarrow> ss_token cfg \<noteq> None"
    and "connected cc sc cc' sc'" and "client_handshake B sha256 t cc = (cc', rc)"
    and "handle_connection B sha256 n (sv, sc) = ((sv', sc'), r)"
  shows "do_control_channel_handshake B sha256 n (ct_digest t)
      (sv, sc\<lparr>rx := enc (auth_codec B) (Auth (digest sha256 (as_bytes tok @ n)))\<rparr>) = ((sv', sc'), r)"
proof -
  let ?d = "ct_digest t" and ?auth = "enc (auth_codec B) (Auth (digest sha256 (as_bytes tok @ n)))"
  obtain X where X: "tx cc' = control_hello B ?d @ X"
    using client_first_hello [of cc B sha256 t] assms(7,8) by (auto simp: connected_def)
  then have run: "do_control_channel_handshake B sha256 n ?d (sv, sc\<lparr>rx := X\<rparr>) = ((sv', sc'), r)"
    using handle_connection_control [OF assms(1,2,4), of sc X n sv] assms(7,9) by (simp add: connected_def)
  have "\<exists>Y. tx sc' = control_hello B n @ Y"
  proof (cases "sv_services sv ?d")
    case None
    then show ?thesis
      using server_unknown [OF None, of "sc\<lparr>rx := X\<rparr>" B sha256 n] run assms(7) by (auto simp: connected_def)
  next
    case (Some cfg)
    with assms(6) obtain t' where "ss_token cfg = Some t'" by blast
    from server_first_hello [OF Some this, of "sc\<lparr>rx := X\<rparr>" B sha256 n] run assms(7) show ?thesis
      by (simp add: connected_def)
  qed
  then obtain Y where "rx cc = control_hello B n @ Y"
    using assms(7) by (auto simp: connected_def)
  from client_auth_sent [OF assms(1,2,3,5) _ this] assms(7,8) X have "X = ?auth"
    by (simp add: connected_def)
  with run show ?thesis by simp
qed

text \<open>
  C3. Client and server agree on the outcome of a control channel handshake. If the service is
  unknown the client learns so; if the tokens disagree, up to a collision of digests, both ends
  see the authentication fail and the server is unchanged; otherwise both succeed, the server
  registers the channel of the service under the session key that the client then uses for its
  data channels, unless another service already holds that key.
\<close>

theorem handshake_agreement:
  assumes "bincode_ok B" and "sha_ok sha256" and "server_wf sha256 sv" and "tokens_set sv"
    and "length n = HASH_WIDTH_IN_BYTES" and "cs_token service = Some tok"
    and "Client.control_channel_handle_new sha256 service remote hb = Inr t"
    and "connected cc sc cc' sc'" and "client_handshake B sha256 t cc = (cc', rc)"
    and "handle_connection B sha256 n (sv, sc) = ((sv', sc'), r)"
  shows "case sv_services sv (digest sha256 (as_bytes (cs_name service))) of
      None \<Rightarrow> rc = Inl (Refused ServiceNotExist) \<and> r = Inl NoSuchService \<and> sv' = sv
    | Some cfg \<Rightarrow>
        let key = digest sha256 (as_bytes tok @ n); d = digest sha256 (as_bytes (cs_name service)) in
        if key = digest sha256 (as_bytes (the (ss_token cfg)) @ n)
        then rc = Inr key \<and> r = Inr () \<and>
          (key \<notin> key2 ` {it \<in> mm_abs (sv_channels sv). fst it \<noteq> d} \<longrightarrow>
            (d, key, \<lparr>hd_chan = sv_next sv, hd_service = cfg\<rparr>) \<in> mm_abs (sv_channels sv'))
        else rc = Inl (Refused AuthFailed) \<and> r = Inl (FailedAuthentication (ss_name cfg)) \<and> sv' = sv"
proof -
  let ?d = "digest sha256 (as_bytes (cs_name service))" and ?key = "digest sha256 (as_bytes tok @ n)"
  have t: "ct_digest t = ?d" "ct_service t = service"
    using assms(7) by (auto simp: Client.control_channel_handle_new_def result_iff)
  have dl: "length (ct_digest t) = HASH_WIDTH_IN_BYTES"
    by (simp add: t digest_length [OF assms(2)])
  have tok: "cs_token (ct_service t) = Some tok" using assms(6) t by simp
  have run: "do_control_channel_handshake B sha256 n ?d (sv, sc\<lparr>rx := enc (auth_codec B) (Auth ?key)\<rparr>) = ((sv', sc'), r)"
    using connected_auth [OF assms(1,2,5) dl tok _ assms(8,9,10)] tokens_setD [OF assms(4)] t by simp
  have ends: "tx sc = []" "4 \<le> wr_left cc" "4 \<le> wr_left sc" "rx cc = tx sc'"
    using assms(8) by (simp_all add: connected_def)
  have client: "rc = (if a = AckOk then Inr ?key else Inl (Refused a))"
    if "tx sc' = control_hello B n @ enc (ack_codec B) a" for a
    using client_conclusion [OF assms(1,2,5) tok ends(2), of a] ends(4) assms(9) that by simp
  show ?thesis
  proof (cases "sv_services sv ?d")
    case None
    then show ?thesis
      using server_unknown [OF None, of "sc\<lparr>rx := enc (auth_codec B) (Auth ?key)\<rparr>" B sha256 n] run ends
        client [of ServiceNotExist] by auto
  next
    case (Some cfg)
    then obtain t' where t': "ss_token cfg = Some t'"
      using tokens_setD [OF assms(4)] by blast
    from server_answered [OF assms(1-3) digest_length [OF assms(2)] Some t' _ _ run] ends
    show ?thesis
      using client [of AckOk] client [of AuthFailed] by (simp add: Some t' Let_def split: if_splits)
  qed
qed

definition example_client_service :: client_service_config where
  "example_client_service = (cs_with_name ''ssh'')\<lparr>cs_token := Some ''t'', cs_retry_interval := Some 1\<rparr>"

definition example_task :: control_task where
  "example_task = \<lparr>ct_digest = replicate 32 0, ct_service = example_client_service, ct_remote_addr = ''s:1'', ct_heartbeat_timeout = 40\<rparr>"

definition client_end :: conn where
  "client_end = \<lparr>rx = control_hello bincode_fixint (replicate 32 5) @ enc (ack_codec bincode_fixint) AckOk, tx = [], wr_left = 4\<rparr>"

definition server_end :: conn where
  "server_end = \<lparr>rx = control_hello bincode_fixint (replicate 32 0) @ enc (auth_codec bincode_fixint) (Auth (replicate 32 0)),
     tx = [], wr_left = 4\<rparr>"

lemma example_connected:
  "connected client_end server_end (fst (client_handshake bincode_fixint zero_sha example_task client_end))
     (snd (fst (handle_connection bincode_fixint zero_sha (replicate 32 5) (example_sv, server_end))))"
proof -
  let ?n = "replicate 32 5" and ?z = "replicate 32 0"
  have len: "length ?n = HASH_WIDTH_IN_BYTES" "length ?z = HASH_WIDTH_IN_BYTES"
    by (simp_all add: HASH_WIDTH_IN_BYTES_def)
  have tok: "cs_token (ct_service example_task) = Some ''t''"
    by (simp add: example_task_def example_client_service_def)
  have "tx (fst (client_handshake bincode_fixint zero_sha example_task client_end)) = rx server_end"
    using client_auth_sent [OF bincode_fixint_ok sha_ok_const len(1) tok, of client_end]
    by (simp add: client_end_def server_end_def digest_def example_task_def)
  moreover have "tx (snd (fst (handle_connection bincode_fixint zero_sha ?n (example_sv, server_end)))) = rx client_end"
  proof -
    let ?c = "server_end\<lparr>rx := enc (auth_codec bincode_fixint) (Auth ?z)\<rparr>"
    obtain sv' c' r where run: "do_control_channel_handshake bincode_fixint zero_sha ?n ?z (example_sv, ?c) = ((sv', c'), r)"
      by (metis prod.collapse)
    have "tx c' = tx ?c @ control_hello bincode_fixint ?n @ enc (ack_codec bincode_fixint) AckOk"
      using server_answered [OF bincode_fixint_ok sha_ok_const example_sv_wf len(2) Server_Props.example_service _ _ run]
      by (simp add: server_end_def digest_def)
    moreover have "handle_connection bincode_fixint zero_sha ?n (example_sv, server_end) = ((sv', c'), r)"
      using handle_connection_control [OF bincode_fixint_ok sha_ok_const len(2), of server_end _ ?n example_sv] run
      by (simp add: server_end_def)
    ultimately show ?thesis by (simp add: client_end_def server_end_def)
  qed
  ultimately show ?thesis
    by (simp add: connected_def client_end_def server_end_def)
qed

theorem handshake_agreement_witness:
  "snd (client_handshake bincode_fixint zero_sha example_task client_end) = Inr (replicate 32 0) \<and>
   snd (handle_connection bincode_fixint zero_sha (replicate 32 5) (example_sv, server_end)) = Inr ()"
proof -
  have new: "Client.control_channel_handle_new zero_sha example_client_service ''s:1'' 40 = Inr example_task"
    by (simp add: Client.control_channel_handle_new_def example_client_service_def example_task_def digest_def cs_with_name_def)
  have tok: "cs_token example_client_service = Some ''t''" by (simp add: example_client_service_def)
  have n: "length (replicate 32 5 :: bytes) = HASH_WIDTH_IN_BYTES" by (simp add: HASH_WIDTH_IN_BYTES_def)
  have c: "client_handshake bincode_fixint zero_sha example_task client_end =
      (fst (client_handshake bincode_fixint zero_sha example_task client_end), snd (client_handshake bincode_fixint zero_sha example_task client_end))"
    by simp
  have s: "handle_connection bincode_fixint zero_sha (replicate 32 5) (example_sv, server_end) =
      ((fst (fst (handle_connection bincode_fixint zero_sha (replicate 32 5) (example_sv, server_end))),
        snd (fst (handle_connection bincode_fixint zero_sha (replicate 32 5) (example_sv, server_end)))),
       snd (handle_connection bincode_fixint zero_sha (replicate 32 5) (example_sv, server_end)))"
    by simp
  have "tokens_set example_sv"
    by (rule server_from_tokens [OF example_server_valid example_sv_from])
  from handshake_agreement [OF bincode_fixint_ok sha_ok_const example_sv_wf this n tok new example_connected c s]
  show ?thesis
    using Server_Props.example_service by (simp add: digest_def Let_def)
qed

section \<open>Commands\<close>

text \<open>The commands that a running control channel of the server writes, given its pending requests.\<close>

fun sent_commands :: "bool \<Rightarrow> nat \<Rightarrow> run_event list \<Rightarrow> control_channel_cmd list" where
  "sent_commands hb k [] = []"
| "sent_commands hb k (Requested # es) =
     (if k = 0 then sent_commands hb k es else CreateDataChannel # sent_commands hb (k - 1) es)"
| "sent_commands hb k (HeartbeatDue # es) =
     (if hb then HeartBeat # sent_commands hb k es else sent_commands hb k es)"
| "sent_commands hb k (_ # es) = []"

definition channel_run :: "bincode \<Rightarrow> run_event list \<Rightarrow> channel \<Rightarrow> channel" where
  "channel_run B es ch = fold (control_channel_step B) es ch"

definition client_loop :: "bincode \<Rightarrow> (bytes \<Rightarrow> bytes) \<Rightarrow> loop_event list \<Rightarrow> client_channel \<Rightarrow> client_channel" where
  "client_loop B sha256 es ch = fold (client_channel_step B sha256) es ch"

lemma write_and_flush_ok:
  "2 \<le> wr_left c \<Longrightarrow> write_and_flush bs c = (c\<lparr>tx := tx c @ bs, wr_left := wr_left c - 2\<rparr>, Inr ())"
  by (simp add: write_and_flush_def sbind_def write_all_def flush_def numeral_2_eq_2)

lemma stopped_channel: "\<not> ch_running ch \<Longrightarrow> fold (control_channel_step B) es ch = ch"
  by (induction es) (simp_all add: control_channel_step_def)

lemma control_channel_end:
  "ch_running ch \<Longrightarrow> control_channel_step B RequestsClosed ch = ch\<lparr>ch_running := False\<rparr>"
  "ch_running ch \<Longrightarrow> control_channel_step B ShutdownReceived ch = ch\<lparr>ch_running := False\<rparr>"
  by (simp_all add: control_channel_step_def)

lemma channel_run_sent:
  assumes "ch_running ch" and "2 * length es \<le> wr_left (ch_conn ch)"
  shows "tx (ch_conn (channel_run B es ch)) = tx (ch_conn ch) @
    concat (map (enc (c_cmd_codec B)) (sent_commands (ch_heartbeat_interval ch \<noteq> 0) (ch_requests ch) es))"
  using assms unfolding channel_run_def
proof (induction es arbitrary: ch)
  case Nil
  then show ?case by simp
next
  case (Cons e es)
  show ?case
  proof (cases e)
    case Requested
    show ?thesis
    proof (cases "ch_requests ch = 0")
      case True
      then have "control_channel_step B e ch = ch"
        by (simp add: Requested control_channel_step_def)
      with Cons.IH [of ch] Cons.prems True Requested show ?thesis by simp
    next
      case False
      let ?ch = "ch\<lparr>ch_conn := (ch_conn ch)\<lparr>tx := tx (ch_conn ch) @ enc (c_cmd_codec B) CreateDataChannel,
          wr_left := wr_left (ch_conn ch) - 2\<rparr>, ch_requests := ch_requests ch - 1, ch_running := True\<rparr>"
      have "control_channel_step B e ch = ?ch"
        using Cons.prems False by (simp add: Requested control_channel_step_def write_and_flush_ok)
      with Cons.IH [of ?ch] Cons.prems False Requested show ?thesis by simp
    qed
  next
    case HeartbeatDue
    show ?thesis
    proof (cases "ch_heartbeat_interval ch = 0")
      case True
      then have "control_channel_step B e ch = ch"
        by (simp add: HeartbeatDue control_channel_step_def)
      with Cons.IH [of ch] Cons.prems True HeartbeatDue show ?thesis by simp
    next
      case False
      let ?ch = "ch\<lparr>ch_conn := (ch_conn ch)\<lparr>tx := tx (ch_conn ch) @ enc (c_cmd_codec B) HeartBeat,
          wr_left := wr_left (ch_conn ch) - 2\<rparr>, ch_running := True\<rparr>"
      have "control_channel_step B e ch = ?ch"
        using Cons.prems False by (simp add: HeartbeatDue control_channel_step_def write_and_flush_ok)
      with Cons.IH [of ?ch] Cons.prems False HeartbeatDue show ?thesis by simp
    qed
  qed (use Cons.prems in \<open>simp_all add: control_channel_end stopped_channel\<close>)
qed

lemma client_loop_reads:
  assumes "bincode_ok B" and "ch_done ch = None" and "rx (ch_stream ch) = concat (map (enc (c_cmd_codec B)) cmds) @ rest"
  shows "client_loop B sha256 (replicate (length cmds) Command) ch =
    ch\<lparr>ch_stream := (ch_stream ch)\<lparr>rx := rest\<rparr>, ch_spawned := ch_spawned ch + count_list cmds CreateDataChannel\<rparr>"
  using assms(2,3) unfolding client_loop_def
proof (induction cmds arbitrary: ch)
  case Nil
  then show ?case by simp
next
  case (Cons cmd cmds)
  let ?rest = "concat (map (enc (c_cmd_codec B)) cmds) @ rest"
  have "read_control_cmd B sha256 (ch_stream ch) = ((ch_stream ch)\<lparr>rx := ?rest\<rparr>, Inr cmd)"
    by (rule read_control_cmd_ok [OF assms(1)]) (simp add: Cons.prems(2))
  then have step: "client_channel_step B sha256 Command ch = ch\<lparr>ch_stream := (ch_stream ch)\<lparr>rx := ?rest\<rparr>,
      ch_spawned := ch_spawned ch + count_list [cmd] CreateDataChannel\<rparr>"
    using Cons.prems(1) by (cases cmd) (simp_all add: client_channel_step_def)
  show ?case
    using Cons.IH [of "client_channel_step B sha256 Command ch"] Cons.prems(1) by (simp add: step)
qed

text \<open>
  The control channel carries the requests: over a connection that does not break, a client
  that takes in what the server's control channel has written has started exactly one data
  channel for every request that the channel served, heartbeats start none, and the client is
  still running.
\<close>

theorem commands_reach_client:
  assumes "bincode_ok B" and "ch_running ch" and "2 * length es \<le> wr_left (ch_conn ch)" and "tx (ch_conn ch) = []"
    and "rx c = tx (ch_conn (channel_run B es ch))"
    and "cmds = sent_commands (ch_heartbeat_interval ch \<noteq> 0) (ch_requests ch) es"
  shows "client_loop B sha256 (replicate (length cmds) Command) (client_channel_new timeout c) =
    (client_channel_new timeout (c\<lparr>rx := []\<rparr>))\<lparr>ch_spawned := count_list cmds CreateDataChannel\<rparr>"
  using client_loop_reads [OF assms(1), of "client_channel_new timeout c" cmds "[]"]
    channel_run_sent [OF assms(2,3)] assms(4-6)
  by (simp add: client_channel_new_def)

theorem commands_reach_client_witness:
  "let ch = \<lparr>ch_conn = \<lparr>rx = [], tx = [], wr_left = 6\<rparr>, ch_heartbeat_interval = 30, ch_pool = Parked, ch_data = [],
         ch_requests = 1, ch_running = True, ch_pool_open = True\<rparr>;
       es = [Requested, HeartbeatDue, Requested];
       c = \<lparr>rx = tx (ch_conn (channel_run bincode_fixint es ch)), tx = [], wr_left = 0\<rparr>
   in ch_spawned (client_loop bincode_fixint zero_sha [Command, Command] (client_channel_new 40 c)) = 1"
  using commands_reach_client [OF bincode_fixint_ok, of
      "\<lparr>ch_conn = \<lparr>rx = [], tx = [], wr_left = 6\<rparr>, ch_heartbeat_interval = 30, ch_pool = Parked, ch_data = [],
         ch_requests = 1, ch_running = True, ch_pool_open = True\<rparr>" "[Requested, HeartbeatDue, Requested]" _ "[CreateDataChannel, HeartBeat]" zero_sha 40]
  by (simp add: Let_def)

section \<open>Data channels\<close>

lemma data_channel_run:
  assumes "bincode_ok B" and "sha_ok sha256" and "server_wf sha256 sv"
    and "(d, key, h) \<in> mm_abs (sv_channels sv)" and "sv_chans sv (hd_chan h) = Some ch"
    and "rx sc = enc (hello_codec B) (DataChannelHello CURRENT_PROTO_VERSION key) @ rest"
  shows "handle_connection B sha256 n (sv, sc) =
      (if \<not> ch_pool_open ch then ((sv, sc\<lparr>rx := rest\<rparr>), Inl StaleControlChannel)
       else ((if length (ch_data ch) < 4096
        then sv\<lparr>sv_chans := (sv_chans sv)(hd_chan h \<mapsto> ch\<lparr>ch_data := ch_data ch @ [sc\<lparr>rx := rest\<rparr>]\<rparr>)\<rparr> else sv,
        sc\<lparr>rx := rest\<rparr>), Inr ()))"
proof -
  have wf: "mm_wf (sv_channels sv)" using assms(3) by (simp add: server_wf_def)
  have "length key = HASH_WIDTH_IN_BYTES"
    using assms(3,4) digest_length [OF assms(2)] by (fastforce simp: server_wf_def session_key_of_def)
  then have "read_hello B sha256 sc = (sc\<lparr>rx := rest\<rparr>, Inr (DataChannelHello CURRENT_PROTO_VERSION key))"
    using read_hello_ok [OF assms(1,2) _ _ assms(6)] by simp
  then show ?thesis
    using mm.get2_found [OF wf assms(4)] assms(5)
    by (auto simp: handle_connection_def sbind_def on_conn_run smap_err_def Server.do_data_channel_handshake_def
        sret_def CHAN_SIZE_def)
qed

lemma data_channel_hello:
  "2 \<le> wr_left cc \<Longrightarrow> tx cc = [] \<Longrightarrow>
   tx (fst (Client.do_data_channel_handshake B args cc)) = enc (hello_codec B) (DataChannelHello CURRENT_PROTO_VERSION (da_session_key args))"
  by (simp add: Client.do_data_channel_handshake_def cwrite_ok)

text \<open>
  C11. A data channel that a client opens with its session key is handed, with everything that
  follows the hello, to the end of the queue of the control channel registered under that key,
  and nothing else of the server changes. When that queue holds 4096 channels the handshake
  waits instead, and with it the lock of the map is held.
\<close>

theorem data_channel_delivered:
  assumes "bincode_ok B" and "sha_ok sha256" and "server_wf sha256 sv"
    and "(d, da_session_key args, h) \<in> mm_abs (sv_channels sv)" and "sv_chans sv (hd_chan h) = Some ch" and "ch_pool_open ch"
    and "2 \<le> wr_left cc" and "tx cc = []"
    and "rx sc = tx (fst (Client.do_data_channel_handshake B args cc)) @ rest"
  shows "handle_connection B sha256 n (sv, sc) =
      ((if length (ch_data ch) < 4096
        then sv\<lparr>sv_chans := (sv_chans sv)(hd_chan h \<mapsto> ch\<lparr>ch_data := ch_data ch @ [sc\<lparr>rx := rest\<rparr>]\<rparr>)\<rparr> else sv,
        sc\<lparr>rx := rest\<rparr>), Inr ()) \<and>
    snd (Server.do_data_channel_handshake (da_session_key args) (sv, sc\<lparr>rx := rest\<rparr>)) =
      Inr (if length (ch_data ch) < 4096 then Delivered else Waits)"
proof -
  have "rx sc = enc (hello_codec B) (DataChannelHello CURRENT_PROTO_VERSION (da_session_key args)) @ rest"
    using assms(7-9) by (simp add: data_channel_hello)
  moreover have "mm_wf (sv_channels sv)" using assms(3) by (simp add: server_wf_def)
  ultimately show ?thesis
    using data_channel_run [OF assms(1-5)] mm.get2_found [OF _ assms(4)] assms(5,6)
    by (auto simp: Server.do_data_channel_handshake_def CHAN_SIZE_def)
qed

definition example_handle :: handle where
  "example_handle = \<lparr>hd_chan = 0, hd_service = snd (hd (sc_services example_server_checked))\<rparr>"

definition example_channel :: channel where
  "example_channel = new_channel \<lparr>rx = [], tx = [], wr_left = 9\<rparr> (hd_service example_handle) 30"

definition example_args :: data_channel_args where
  "example_args = \<lparr>da_session_key = replicate 32 0, da_remote_addr = addr_new ''s:1'', da_socket_opts = socket_opts_none,
     da_service = example_client_service\<rparr>"

theorem data_channel_delivered_witness:
  "\<exists>m. mm_insert (replicate 32 0) (replicate 32 0) example_handle mm_new = Inr (Inr (), m) \<and>
     (let sv = example_sv\<lparr>sv_channels := m, sv_chans := [0 \<mapsto> example_channel], sv_next := 1\<rparr>;
          cc = \<lparr>rx = [], tx = [], wr_left = 2\<rparr>;
          sc = \<lparr>rx = tx (fst (Client.do_data_channel_handshake bincode_fixint example_args cc)) @ [7], tx = [], wr_left = 9\<rparr>;
          r = handle_connection bincode_fixint zero_sha (replicate 32 5) (sv, sc)
      in map_option ch_data (sv_chans (fst (fst r)) 0) = Some [sc\<lparr>rx := [7]\<rparr>])"
proof -
  obtain m :: "(bytes, bytes, handle) multi_map" where m: "mm_insert (replicate 32 0) (replicate 32 0) example_handle mm_new = Inr (Inr (), m)" "mm_wf m"
      "mm_abs m = insert (replicate 32 0, replicate 32 0, example_handle) (mm_abs mm_new)"
    using mm.ins_fresh [OF mm.invar_emp, of "replicate 32 0 :: bytes" "replicate 32 0 :: bytes" example_handle] by (auto simp: mm.items_emp)
  let ?sv = "example_sv\<lparr>sv_channels := m, sv_chans := [0 \<mapsto> example_channel], sv_next := 1\<rparr>"
  have "session_key_of zero_sha (hd_service example_handle) (replicate 32 0)"
    unfolding session_key_of_def using Server_Props.example_service(2)
    by (intro exI [of _ "''t''"] exI [of _ "replicate 32 0"]) (simp add: example_handle_def digest_def HASH_WIDTH_IN_BYTES_def)
  then have wf: "server_wf zero_sha ?sv"
    using m by (simp add: server_wf_def mm.items_emp example_handle_def)
  let ?cc = "\<lparr>rx = [], tx = [], wr_left = 2\<rparr>"
  let ?sc = "\<lparr>rx = tx (fst (Client.do_data_channel_handshake bincode_fixint example_args ?cc)) @ [7], tx = [], wr_left = 9\<rparr>"
  have "handle_connection bincode_fixint zero_sha (replicate 32 5) (?sv, ?sc) =
      ((?sv\<lparr>sv_chans := (sv_chans ?sv)(0 \<mapsto> example_channel\<lparr>ch_data := ch_data example_channel @ [?sc\<lparr>rx := [7]\<rparr>]\<rparr>)\<rparr>, ?sc\<lparr>rx := [7]\<rparr>), Inr ())"
    using data_channel_delivered [OF bincode_fixint_ok sha_ok_const wf, of "replicate 32 0" example_args example_handle
        example_channel ?cc ?sc "[7]" "replicate 32 5"] m(3)
    by (simp add: example_args_def example_handle_def example_channel_def new_channel_def)
  then show ?thesis
    using m(1) by (intro exI [of _ m]) (simp add: Let_def example_channel_def new_channel_def)
qed

end
