(* ===== verification/Client_Props.thy ===== *)
theory Client_Props
  imports Client
begin

text \<open>
  Properties of the client's services: what starting a validated configuration does, and what
  hot reload and visitors do that they should not.
\<close>

section \<open>Starting\<close>

definition task_for :: "(bytes \<Rightarrow> bytes) \<Rightarrow> client_config \<Rightarrow> client_service_config \<Rightarrow> control_task" where
  "task_for sha256 cfg s =
     \<lparr>ct_digest = digest sha256 (as_bytes (cs_name s)), ct_service = s, ct_remote_addr = cc_remote_addr cfg,
      ct_heartbeat_timeout = cc_heartbeat_timeout cfg\<rparr>"

lemma control_channel_handle_new_Some:
  "cs_retry_interval s \<noteq> None \<Longrightarrow>
   control_channel_handle_new sha256 s (cc_remote_addr cfg) (cc_heartbeat_timeout cfg) = Inr (task_for sha256 cfg s)"
  by (auto simp: control_channel_handle_new_def task_for_def)

lemma start_service_eq:
  assumes "client_selected (cl_config cl) k s \<Longrightarrow> cs_retry_interval s \<noteq> None"
  shows "start_service sha256 (k, s) cl = Inr (
     if \<not> client_selected (cl_config cl) k s then cl
     else if cs_is_visitor s then cl\<lparr>cl_visitors := cl_visitors cl @ [drop_visitor_handle (visitor_handle_new s)]\<rparr>
     else cl\<lparr>cl_handles := (cl_handles cl)(k \<mapsto> task_for sha256 (cl_config cl) s)\<rparr>)"
  using assms
  by (auto simp: start_service_def client_selected_def control_channel_handle_new_Some split: option.splits)

lemma start_services_run:
  assumes "\<forall>(k, s) \<in> set xs. client_selected (cl_config cl) k s \<longrightarrow> cs_retry_interval s \<noteq> None" and "hm_wf xs"
  shows "\<exists>cl'. start_services sha256 xs cl = Inr cl' \<and> cl_config cl' = cl_config cl \<and>
    (\<forall>k. cl_handles cl' k = (case hm_get xs k of
        Some s \<Rightarrow> if client_selected (cl_config cl) k s \<and> \<not> cs_is_visitor s
                  then Some (task_for sha256 (cl_config cl) s) else cl_handles cl k
      | None \<Rightarrow> cl_handles cl k)) \<and>
    cl_visitors cl' = cl_visitors cl @ map (\<lambda>(k, s). drop_visitor_handle (visitor_handle_new s))
      (filter (\<lambda>(k, s). client_selected (cl_config cl) k s \<and> cs_is_visitor s) xs)"
  using assms
proof (induction xs arbitrary: cl)
  case Nil
  then show ?case by (simp add: hm_get_def)
next
  case (Cons x xs)
  obtain k s where x: "x = (k, s)" by force
  define cl1 where "cl1 = (if \<not> client_selected (cl_config cl) k s then cl
     else if cs_is_visitor s then cl\<lparr>cl_visitors := cl_visitors cl @ [drop_visitor_handle (visitor_handle_new s)]\<rparr>
     else cl\<lparr>cl_handles := (cl_handles cl)(k \<mapsto> task_for sha256 (cl_config cl) s)\<rparr>)"
  have one: "start_service sha256 x cl = Inr cl1"
    unfolding x cl1_def using Cons.prems(1) by (intro start_service_eq) (auto simp: x)
  have cfg: "cl_config cl1 = cl_config cl" by (simp add: cl1_def)
  have "k \<notin> fst ` set xs" and wf: "hm_wf xs"
    using Cons.prems(2) by (simp_all add: x hm_wf_def)
  then have get: "hm_get xs k = None" by (simp add: hm_get_None_iff)
  obtain cl' where cl': "start_services sha256 xs cl1 = Inr cl'" "cl_config cl' = cl_config cl1"
      "\<forall>k. cl_handles cl' k = (case hm_get xs k of
          Some s \<Rightarrow> if client_selected (cl_config cl1) k s \<and> \<not> cs_is_visitor s
                    then Some (task_for sha256 (cl_config cl1) s) else cl_handles cl1 k
        | None \<Rightarrow> cl_handles cl1 k)"
      "cl_visitors cl' = cl_visitors cl1 @ map (\<lambda>(k, s). drop_visitor_handle (visitor_handle_new s))
        (filter (\<lambda>(k, s). client_selected (cl_config cl1) k s \<and> cs_is_visitor s) xs)"
    using Cons.IH [of cl1] Cons.prems(1) wf by (auto simp: cfg)
  have "cl_handles cl' j = (case hm_get (x # xs) j of
        Some s \<Rightarrow> if client_selected (cl_config cl) j s \<and> \<not> cs_is_visitor s
                  then Some (task_for sha256 (cl_config cl) s) else cl_handles cl j
      | None \<Rightarrow> cl_handles cl j)" for j
    using cl'(3) get by (cases "j = k") (auto simp: cfg x cl1_def hm_get_def split: option.splits)
  moreover have "cl_visitors cl' = cl_visitors cl @ map (\<lambda>(k, s). drop_visitor_handle (visitor_handle_new s))
      (filter (\<lambda>(k, s). client_selected (cl_config cl) k s \<and> cs_is_visitor s) (x # xs))"
    using cl'(4) by (simp add: cfg x cl1_def)
  ultimately show ?case
    using cl'(1,2) by (simp add: one cfg)
qed

lemma validated_retry:
  assumes "validate_client_config c = Inr cfg" and "(k, s) \<in> set (cc_services cfg)" and "client_selected cfg k s"
  shows "cs_retry_interval s \<noteq> None \<and> cs_token s \<noteq> None \<and> cs_name s = client_service_name cfg k"
proof -
  obtain m where m: "hm_try_map (validate_client_service c) (cc_services c) = Inr m" and cfg: "cfg = c\<lparr>cc_services := m\<rparr>"
    using assms(1) by (auto simp: validate_client_config_iff)
  then obtain v where "validate_client_service c k v = Inr s"
    using hm_try_map_in_set [OF m, of k s] assms(2) by (auto simp: cfg)
  then show ?thesis
    using assms(3)
    by (auto simp: result_iff client_selected_def cs_is_enabled_def client_service_name_def cfg split: if_splits)
qed

text \<open>
  C21. A client started from a validated configuration does not panic and runs exactly one
  control channel, with the service's name, token and the configured address and timeout, for
  every enabled service in the start list that is not a visitor.
\<close>

theorem client_start_selected:
  assumes "validate_client_config c = Inr cfg" and "hm_wf (cc_services cfg)" and "client_from transport_new cfg = Inr cl"
  shows "\<exists>cl'. client_start sha256 cl = Inr cl' \<and>
    (\<forall>k. cl_handles cl' k = (case hm_get (cc_services cfg) k of
        Some s \<Rightarrow> if client_selected cfg k s \<and> \<not> cs_is_visitor s then Some (task_for sha256 cfg s) else None
      | None \<Rightarrow> None)) \<and>
    (\<forall>t \<in> ran (cl_handles cl'). cs_token (ct_service t) \<noteq> None)"
proof -
  have cl: "cl = \<lparr>cl_config = cfg, cl_handles = Map.empty, cl_visitors = []\<rparr>"
    using assms(3) by (auto simp: client_from_def result_iff)
  obtain cl' where cl': "start_services sha256 (cc_services cfg) cl = Inr cl'"
      "\<forall>k. cl_handles cl' k = (case hm_get (cc_services cfg) k of
        Some s \<Rightarrow> if client_selected cfg k s \<and> \<not> cs_is_visitor s then Some (task_for sha256 cfg s) else None
      | None \<Rightarrow> None)"
  proof -
    have sel: "cl_config cl = cfg" "\<And>k. cl_handles cl k = None" by (simp_all add: cl)
    have "\<forall>(k, s) \<in> set (cc_services cfg). client_selected (cl_config cl) k s \<longrightarrow> cs_retry_interval s \<noteq> None"
      using validated_retry [OF assms(1)] by (auto simp: sel(1))
    from start_services_run [OF this assms(2), of sha256] show thesis
      unfolding sel using that by blast
  qed
  have "cs_token (ct_service t) \<noteq> None" if t: "cl_handles cl' k = Some t" for k t
  proof -
    obtain s where "hm_get (cc_services cfg) k = Some s" "client_selected cfg k s" "t = task_for sha256 cfg s"
      using cl'(2) t by (auto split: option.splits if_splits)
    then show ?thesis
      using validated_retry [OF assms(1), of k s] hm_get_in_set [of "cc_services cfg" k s] by (simp add: task_for_def)
  qed
  then show ?thesis
    using cl' cl by (auto simp: client_start_def ran_def)
qed

theorem client_start_selected_witness:
  "\<exists>cl'. client_start (\<lambda>_. replicate 32 0) \<lparr>cl_config = example_client_checked, cl_handles = Map.empty, cl_visitors = []\<rparr> = Inr cl' \<and>
     cl_handles cl' ''ssh'' \<noteq> None \<and> cl_handles cl' ''web'' = None"
proof -
  have wf: "hm_wf (cc_services example_client_checked)"
    by (simp add: hm_wf_def example_client_checked_def)
  have fr: "client_from (\<lambda>_. True) example_client_checked = Inr \<lparr>cl_config = example_client_checked, cl_handles = Map.empty, cl_visitors = []\<rparr>"
    by (simp add: client_from_def)
  have sel: "client_selected example_client_checked ''ssh'' (snd (hd (cc_services example_client_checked)))"
      "\<not> cs_is_visitor (snd (hd (cc_services example_client_checked)))"
    by (simp_all add: example_client_defs default_client_config_def cs_with_name_def)
  have get: "hm_get (cc_services example_client_checked) ''ssh'' = Some (snd (hd (cc_services example_client_checked)))"
      "hm_get (cc_services example_client_checked) ''web'' = None"
    by (simp_all add: hm_get_def example_client_checked_def)
  obtain cl' where cl': "client_start (\<lambda>_. replicate 32 0) \<lparr>cl_config = example_client_checked, cl_handles = Map.empty, cl_visitors = []\<rparr> = Inr cl'"
      "\<forall>k. cl_handles cl' k = (case hm_get (cc_services example_client_checked) k of
        Some s \<Rightarrow> if client_selected example_client_checked k s \<and> \<not> cs_is_visitor s
          then Some (task_for (\<lambda>_. replicate 32 0) example_client_checked s) else None
      | None \<Rightarrow> None)"
    using client_start_selected [OF example_client_valid wf fr, of "\<lambda>_. replicate 32 0"] by blast
  show ?thesis
    using cl'(1) cl'(2) [rule_format, of "''ssh''"] cl'(2) [rule_format, of "''web''"] get sel by simp
qed

section \<open>Where the client goes wrong\<close>

text \<open>
  The handle of a visitor is dropped in the iteration that creates it, so every visitor that
  a client starts ends as soon as it waits for a connection.
\<close>

theorem visitors_end_at_once:
  assumes "client_start sha256 cl = Inr cl'" and "cl_visitors cl = []" and "v \<in> set (cl_visitors cl')"
  shows "vt_stop v \<and> visitor_turn v False b = Some False"
proof -
  have all: "\<forall>v \<in> set (cl_visitors cl). vt_stop v \<Longrightarrow> start_services sha256 xs cl = Inr cl' \<Longrightarrow> \<forall>v \<in> set (cl_visitors cl'). vt_stop v" for xs cl
  proof (induction xs arbitrary: cl)
    case (Cons x xs)
    obtain cl1 where cl1: "start_service sha256 x cl = Inr cl1" "start_services sha256 xs cl1 = Inr cl'"
      using Cons.prems(2) by (auto simp: result_iff)
    moreover have "\<forall>v \<in> set (cl_visitors cl1). vt_stop v"
      using cl1(1) Cons.prems(1)
      by (auto simp: start_service_def drop_visitor_handle_def result_iff split: prod.splits if_splits)
    ultimately show ?case using Cons.IH by blast
  qed simp
  have "vt_stop v"
    using all [of cl "cc_services (cl_config cl)"] assms by (simp add: client_start_def)
  then show ?thesis by (simp add: visitor_turn_def)
qed

text \<open>
  With a user prefix, a reload that changes a service leaves the old one running: services
  are started under their key and reloaded under their name, which carries the prefix. After
  the change two control channels run, the old and the new, for the same digest, so that they
  displace each other at the server; and the deletion of the service by its key leaves the new
  one running.
\<close>

theorem client_reload_duplicates:
  assumes "cc_user cfg = Some user" and "cl_handles cl k = Some t" and "cs_name (ct_service t) = client_service_name cfg k"
    and "ct_digest t = digest sha256 (as_bytes (cs_name (ct_service t)))"
    and "cs_name s = client_service_name cfg k" and "cs_is_enabled s" and "cs_retry_interval s \<noteq> None"
    and "handle_hot_reload sha256 (ClientChange (CAdd s)) cl = Inr cl'"
    and "handle_hot_reload sha256 (ClientChange (CDelete k)) cl' = Inr cl''"
  shows "cl_handles cl' k = Some t \<and>
    (\<exists>t'. cl_handles cl' (cs_name s) = Some t' \<and> ct_service t' = s \<and> ct_digest t' = ct_digest t \<and>
       cl_handles cl'' (cs_name s) = Some t')"
proof -
  have ne: "cs_name s \<noteq> k"
    using assms(1,5) by (auto simp: client_service_name_def dest: arg_cong [where f = length])
  have "cl' = cl\<lparr>cl_handles := (cl_handles cl)(cs_name s \<mapsto> task_for sha256 (cl_config cl) s)\<rparr>"
    using assms(6-8) by (auto simp: handle_hot_reload_def control_channel_handle_new_Some)
  moreover have "cl'' = cl'\<lparr>cl_handles := (cl_handles cl')(k := None)\<rparr>"
    using assms(9) by (simp add: handle_hot_reload_def)
  ultimately show ?thesis
    using ne assms(2-5) by (simp add: task_for_def)
qed

theorem client_reload_duplicates_witness:
  "let s = snd (hd (cc_services example_client_checked)); t = task_for (\<lambda>_. replicate 32 0) example_client_checked s;
       cl = \<lparr>cl_config = example_client_checked, cl_handles = [''ssh'' \<mapsto> t], cl_visitors = []\<rparr>
   in \<exists>cl'. handle_hot_reload (\<lambda>_. replicate 32 0) (ClientChange (CAdd (s\<lparr>cs_local_addr := ''127.0.0.1:23''\<rparr>))) cl = Inr cl' \<and>
        cl_handles cl' ''ssh'' = Some t \<and> cl_handles cl' ''ann.ssh'' \<noteq> None"
proof -
  let ?s = "snd (hd (cc_services example_client_checked))"
  let ?t = "task_for (\<lambda>_. replicate 32 0) example_client_checked ?s"
  let ?cl = "\<lparr>cl_config = example_client_checked, cl_handles = [''ssh'' \<mapsto> ?t], cl_visitors = []\<rparr>"
  let ?new = "?s\<lparr>cs_local_addr := ''127.0.0.1:23''\<rparr>"
  have s: "cs_name ?s = ''ann.ssh''" "cs_retry_interval ?s \<noteq> None" "cs_is_enabled ?s"
    by (simp_all add: example_client_checked_def cs_is_enabled_def cs_with_name_def)
  have user: "cc_user example_client_checked = Some ''ann''"
    by (simp add: example_client_checked_def example_client_def)
  obtain cl' where cl': "handle_hot_reload (\<lambda>_. replicate 32 0) (ClientChange (CAdd ?new)) ?cl = Inr cl'"
    using s by (auto simp: handle_hot_reload_def control_channel_handle_new_def cs_is_enabled_def)
  obtain cl'' where cl'': "handle_hot_reload (\<lambda>_. replicate 32 0) (ClientChange (CDelete ''ssh'')) cl' = Inr cl''"
    by (simp add: handle_hot_reload_def)
  show ?thesis
    using client_reload_duplicates [OF user, of ?cl "''ssh''" ?t "\<lambda>_. replicate 32 0" ?new, OF _ _ _ _ _ _ cl' cl''] cl' s user
    by (auto simp: Let_def task_for_def client_service_name_def cs_is_enabled_def)
qed

section \<open>Retrying\<close>

text \<open>
  A control channel that fails is tried again until it is told to stop: its backoff has no time
  limit, so the panic of a backoff that gives up is not reached.
\<close>

lemma control_task_never_gives_up:
  assumes "backoff_ok next" and "\<forall>a \<in> set as. \<exists>elapsed. at_backoff a = next (run_control_chan_backoff dflt interval) elapsed"
    and "\<forall>a \<in> set as. at_result a \<noteq> Inl CPanic"
  shows "control_task_run as \<noteq> Some False \<and>
    (control_task_run as = None \<longleftrightarrow> (\<forall>a \<in> set as. \<not> is_ok (at_result a) \<and> \<not> at_stopped a))"
  using assms(2,3)
proof (induction "as")
  case (Cons a "as")
  then have "at_backoff a \<noteq> None"
    using backoff_unlimited [OF assms(1), of "run_control_chan_backoff dflt interval"] by (auto simp: run_control_chan_backoff_def)
  moreover have IH: "control_task_run as \<noteq> Some False \<and>
      (control_task_run as = None \<longleftrightarrow> (\<forall>a \<in> set as. \<not> is_ok (at_result a) \<and> \<not> at_stopped a))"
    using Cons by simp
  ultimately show ?case
  proof (cases "at_result a")
    case (Inl e)
    with Cons.prems(2) have "e \<noteq> CPanic" by auto
    with Inl IH \<open>at_backoff a \<noteq> None\<close> show ?thesis by (cases e) auto
  qed simp
qed simp

text \<open>A data channel is given up, and with it the request of the server, only after ten seconds of trying.\<close>

lemma data_channel_given_up:
  assumes "backoff_ok next" and "data_channel_connect next dflt attempts = Some (Inl e)"
  shows "\<exists>elapsed \<ge> 10000. (None, elapsed) \<in> set attempts"
proof -
  have "retry_notify next (dflt\<lparr>eb_max_interval := 100, eb_max_elapsed_time := Some 10000\<rparr>) attempts = Some (Inl ())"
    using assms(2) by (auto simp: data_channel_connect_def elim!: map_err.elims)
  from retry_notify_fails [OF assms(1) this] show ?thesis by auto
qed

end
