(* ===== verification/Client_Udp.thy ===== *)
theory Client_Udp
  imports Client Server
begin

text \<open>
  The client's end of a UDP data channel (\<^verbatim>\<open>run_data_channel_for_udp\<close> and
  \<^verbatim>\<open>run_udp_forwarder\<close> in \<^verbatim>\<open>client.rs\<close>) as a state machine.

  The main loop reads packets and hands each to the forwarder of its sender, which it creates
  when there is none; forwarders exchange datagrams with the local service and queue the
  answers for the writer. All of them share the port map behind a fair read-write lock, and the
  guards matter: the loop looks a sender up under a read guard that it keeps, unless it has to
  create a forwarder, while it takes a second read guard and then waits for room in the
  forwarder's queue; a forwarder that ends takes the write lock to remove its entry, and a
  waiting writer holds up new readers.
\<close>

section \<open>State\<close>

datatype phase = FwRunning | FwLeaving | FwGone

record forwarder =
  fw_from :: socket_addr
  fw_queue :: "bytes list"
  fw_sent :: "bytes list"
  fw_phase :: phase

text \<open>
  Where the main loop is: about to read, with a packet and the first guard, with a packet and
  no guard, or waiting with guards for room in the queue of a forwarder.
\<close>

datatype loop_pc = Reading | Holding udp_traffic | Creating udp_traffic | Sending nat bytes

record udp_channel =
  uc_conn :: conn
  uc_ports :: "socket_addr \<rightharpoonup> nat"
  uc_fwds :: "forwarder list"
  uc_outbound :: "udp_traffic list"
  uc_writing :: bool
  uc_pc :: loop_pc
  uc_running :: bool

definition udp_channel_new :: "conn \<Rightarrow> udp_channel" where
  "udp_channel_new c =
     \<lparr>uc_conn = c, uc_ports = Map.empty, uc_fwds = [], uc_outbound = [],
      uc_writing = True, uc_pc = Reading, uc_running = True\<rparr>"

text \<open>Some forwarder waits for the write lock.\<close>

definition writer_waits :: "udp_channel \<Rightarrow> bool" where
  "writer_waits u \<longleftrightarrow> list_ex (\<lambda>f. fw_phase f = FwLeaving) (uc_fwds u)"

definition fwd :: "nat \<Rightarrow> udp_channel \<Rightarrow> forwarder option" where
  "fwd i u = (if i < length (uc_fwds u) then Some (uc_fwds u ! i) else None)"

definition upd_fwd :: "nat \<Rightarrow> forwarder \<Rightarrow> udp_channel \<Rightarrow> udp_channel" where
  "upd_fwd i f u = u\<lparr>uc_fwds := (uc_fwds u)[i := f]\<rparr>"

definition guard_held :: "udp_channel \<Rightarrow> bool" where
  "guard_held u = (case uc_pc u of Reading \<Rightarrow> False | Holding _ \<Rightarrow> True | Creating _ \<Rightarrow> False | Sending _ _ \<Rightarrow> True)"

section \<open>The main loop\<close>

text \<open>
  A packet is read and its sender looked up; \<open>connect_ok\<close> says whether a socket to the local
  service can be made when a forwarder is missing. The lookup waits for waiting writers, and
  so does the creation.
\<close>

definition main_read :: "bincode \<Rightarrow> bool \<Rightarrow> udp_channel \<Rightarrow> udp_channel" where
  "main_read B connect_ok u =
     (if \<not> uc_running u \<or> uc_pc u \<noteq> Reading \<or> writer_waits u then u
      else case udp_recv B (uc_conn u) of
        (c, Inl _) \<Rightarrow> u\<lparr>uc_conn := c, uc_running := False\<rparr>
      | (c, Inr packet) \<Rightarrow>
          (case uc_ports u (t_from packet) of
             Some _ \<Rightarrow> u\<lparr>uc_conn := c, uc_pc := Holding packet\<rparr>
           | None \<Rightarrow>
               if connect_ok
               then u\<lparr>uc_conn := c, uc_pc := Creating packet,
                      uc_ports := (uc_ports u)(t_from packet \<mapsto> length (uc_fwds u)),
                      uc_fwds := uc_fwds u @
                        [\<lparr>fw_from = t_from packet, fw_queue = [], fw_sent = [], fw_phase = FwRunning\<rparr>]\<rparr>
               else u\<lparr>uc_conn := c, uc_pc := Creating packet\<rparr>))"

text \<open>\<^verbatim>\<open>tx.send(packet.data).await\<close>, whose failure is ignored.\<close>

definition send_to :: "nat \<Rightarrow> bytes \<Rightarrow> udp_channel \<Rightarrow> udp_channel" where
  "send_to i data u =
     (case fwd i u of
        None \<Rightarrow> u\<lparr>uc_pc := Reading\<rparr>
      | Some f \<Rightarrow>
          if fw_phase f = FwGone then u\<lparr>uc_pc := Reading\<rparr>
          else if length (fw_queue f) < UDP_SENDQ_SIZE
          then (upd_fwd i (f\<lparr>fw_queue := fw_queue f @ [data]\<rparr>) u)\<lparr>uc_pc := Reading\<rparr>
          else u\<lparr>uc_pc := Sending i data\<rparr>)"

text \<open>The second guard, the second lookup, and the packet is handed over.\<close>

definition main_deliver :: "udp_channel \<Rightarrow> udp_channel" where
  "main_deliver u =
     (case uc_pc u of
        Reading \<Rightarrow> u
      | Sending i data \<Rightarrow> send_to i data u
      | Holding packet \<Rightarrow>
          if writer_waits u then u
          else (case uc_ports u (t_from packet) of
                  Some i \<Rightarrow> send_to i (t_data packet) u
                | None \<Rightarrow> u\<lparr>uc_pc := Reading\<rparr>)
      | Creating packet \<Rightarrow>
          if writer_waits u then u
          else (case uc_ports u (t_from packet) of
                  Some i \<Rightarrow> send_to i (t_data packet) u
                | None \<Rightarrow> u\<lparr>uc_pc := Reading\<rparr>))"

section \<open>Forwarders\<close>

text \<open>A queued datagram goes to the local service; an error leaves the function at once.\<close>

definition fw_inbound :: "bool \<Rightarrow> nat \<Rightarrow> udp_channel \<Rightarrow> udp_channel" where
  "fw_inbound ok i u =
     (case fwd i u of
        None \<Rightarrow> u
      | Some f \<Rightarrow>
          if fw_phase f \<noteq> FwRunning then u
          else (case fw_queue f of
                  [] \<Rightarrow> u
                | d # ds \<Rightarrow>
                    if ok then upd_fwd i (f\<lparr>fw_queue := ds, fw_sent := fw_sent f @ [d]\<rparr>) u
                    else upd_fwd i (f\<lparr>fw_queue := [], fw_phase := FwGone\<rparr>) u))"

text \<open>An answer of the local service, or the failure to receive one.\<close>

definition fw_outbound :: "bytes option \<Rightarrow> nat \<Rightarrow> udp_channel \<Rightarrow> udp_channel" where
  "fw_outbound r i u =
     (case fwd i u of
        None \<Rightarrow> u
      | Some f \<Rightarrow>
          if fw_phase f \<noteq> FwRunning then u
          else (case r of
                  None \<Rightarrow> upd_fwd i (f\<lparr>fw_phase := FwLeaving\<rparr>) u
                | Some buf \<Rightarrow>
                    if \<not> uc_writing u then upd_fwd i (f\<lparr>fw_queue := [], fw_phase := FwGone\<rparr>) u
                    else if length (uc_outbound u) < UDP_SENDQ_SIZE
                    then u\<lparr>uc_outbound := uc_outbound u @ [\<lparr>t_from = fw_from f, t_data = take UDP_BUFFER_SIZE buf\<rparr>]\<rparr>
                    else u))"

definition fw_timeout :: "nat \<Rightarrow> udp_channel \<Rightarrow> udp_channel" where
  "fw_timeout i u =
     (case fwd i u of
        None \<Rightarrow> u
      | Some f \<Rightarrow> if fw_phase f \<noteq> FwRunning then u else upd_fwd i (f\<lparr>fw_phase := FwLeaving\<rparr>) u)"

text \<open>The end of a forwarder: the write lock, and the entry is removed.\<close>

definition fw_leave :: "nat \<Rightarrow> udp_channel \<Rightarrow> udp_channel" where
  "fw_leave i u =
     (case fwd i u of
        None \<Rightarrow> u
      | Some f \<Rightarrow>
          if fw_phase f \<noteq> FwLeaving \<or> guard_held u then u
          else (upd_fwd i (f\<lparr>fw_queue := [], fw_phase := FwGone\<rparr>) u)\<lparr>uc_ports := (uc_ports u)(fw_from f := None)\<rparr>)"

text \<open>The writer of the data channel.\<close>

definition write_outbound :: "bincode \<Rightarrow> udp_channel \<Rightarrow> udp_channel" where
  "write_outbound B u =
     (if \<not> uc_writing u then u
      else case uc_outbound u of
        [] \<Rightarrow> u
      | t # ts \<Rightarrow>
          (case udp_write B t (uc_conn u) of
             (c, r) \<Rightarrow> u\<lparr>uc_conn := c, uc_outbound := ts, uc_writing := is_ok r\<rparr>))"

section \<open>Runs\<close>

datatype udp_client_event =
    MainRead bool
  | MainDeliver
  | FwInbound bool nat
  | FwOutbound "bytes option" nat
  | FwTimeout nat
  | FwLeave nat
  | WriteOutbound

fun udp_client_step :: "bincode \<Rightarrow> udp_client_event \<Rightarrow> udp_channel \<Rightarrow> udp_channel" where
  "udp_client_step B (MainRead ok) u = main_read B ok u"
| "udp_client_step B MainDeliver u = main_deliver u"
| "udp_client_step B (FwInbound ok i) u = fw_inbound ok i u"
| "udp_client_step B (FwOutbound r i) u = fw_outbound r i u"
| "udp_client_step B (FwTimeout i) u = fw_timeout i u"
| "udp_client_step B (FwLeave i) u = fw_leave i u"
| "udp_client_step B WriteOutbound u = write_outbound B u"

definition udp_client_run :: "bincode \<Rightarrow> udp_client_event list \<Rightarrow> udp_channel \<Rightarrow> udp_channel" where
  "udp_client_run B es u = fold (udp_client_step B) es u"

section \<open>The port map\<close>

text \<open>Every entry leads to a forwarder of that sender, and every forwarder that has not gone has its entry.\<close>

definition uc_inv :: "udp_channel \<Rightarrow> bool" where
  "uc_inv u \<longleftrightarrow>
     (\<forall>a i. uc_ports u a = Some i \<longrightarrow> i < length (uc_fwds u) \<and> fw_from (uc_fwds u ! i) = a) \<and>
     (\<forall>i < length (uc_fwds u). fw_phase (uc_fwds u ! i) \<noteq> FwGone \<longrightarrow> uc_ports u (fw_from (uc_fwds u ! i)) = Some i)"

lemma uc_inv_new: "uc_inv (udp_channel_new c)"
  by (simp add: uc_inv_def udp_channel_new_def)

lemma uc_inv_other [simp]:
  "uc_inv (u\<lparr>uc_conn := c\<rparr>) = uc_inv u" "uc_inv (u\<lparr>uc_pc := pc\<rparr>) = uc_inv u" "uc_inv (u\<lparr>uc_running := b\<rparr>) = uc_inv u"
  "uc_inv (u\<lparr>uc_outbound := ts\<rparr>) = uc_inv u" "uc_inv (u\<lparr>uc_writing := b\<rparr>) = uc_inv u"
  by (simp_all add: uc_inv_def)

lemma uc_inv_upd:
  assumes "uc_inv u" and "fwd i u = Some f" and "fw_from f' = fw_from f" and "fw_phase f = FwGone \<Longrightarrow> fw_phase f' = FwGone"
  shows "uc_inv (upd_fwd i f' u)"
  using assms by (auto simp: uc_inv_def upd_fwd_def fwd_def nth_list_update split: if_splits)

lemma uc_inv_create:
  assumes "uc_inv u" and "uc_ports u a = None"
  shows "uc_inv (u\<lparr>uc_ports := (uc_ports u)(a \<mapsto> length (uc_fwds u)), uc_fwds := uc_fwds u @
    [\<lparr>fw_from = a, fw_queue = [], fw_sent = [], fw_phase = FwRunning\<rparr>]\<rparr>)"
  using assms by (fastforce simp: uc_inv_def nth_append less_Suc_eq split: if_splits)

lemma uc_inv_leave:
  assumes "uc_inv u" and "fwd i u = Some f" and "fw_phase f = FwLeaving"
  shows "uc_inv ((upd_fwd i (f\<lparr>fw_queue := [], fw_phase := FwGone\<rparr>) u)\<lparr>uc_ports := (uc_ports u)(fw_from f := None)\<rparr>)"
proof -
  have i: "i < length (uc_fwds u)" "f = uc_fwds u ! i"
    using assms(2) by (auto simp: fwd_def split: if_splits)
  have "uc_ports u (fw_from f) = Some i"
    using assms(1,3) i by (auto simp: uc_inv_def)
  have entry: "j < length (uc_fwds u) \<and> fw_from (uc_fwds u ! j) = a" if "uc_ports u a = Some j" for a j
    using assms(1) that by (simp add: uc_inv_def)
  have live: "uc_ports u (fw_from (uc_fwds u ! j)) = Some j"
    if "j < length (uc_fwds u)" "fw_phase (uc_fwds u ! j) \<noteq> FwGone" for j
    using assms(1) that by (simp add: uc_inv_def)
  have "fw_from (uc_fwds u ! j) \<noteq> fw_from f" if "j < length (uc_fwds u)" "fw_phase (uc_fwds u ! j) \<noteq> FwGone" "j \<noteq> i" for j
    using live [OF that(1,2)] \<open>uc_ports u (fw_from f) = Some i\<close> that(3) by force
  with entry live i show ?thesis
    by (simp add: uc_inv_def upd_fwd_def nth_list_update) blast
qed

lemma send_to_inv: "uc_inv u \<Longrightarrow> uc_inv (send_to i d u)"
  by (auto simp: send_to_def intro: uc_inv_upd split: option.splits)

lemma main_read_inv:
  assumes "uc_inv u"
  shows "uc_inv (main_read B ok u)"
proof -
  have "uc_inv (u\<lparr>uc_conn := c, uc_pc := Creating p, uc_ports := (uc_ports u)(t_from p \<mapsto> length (uc_fwds u)),
      uc_fwds := uc_fwds u @ [\<lparr>fw_from = t_from p, fw_queue = [], fw_sent = [], fw_phase = FwRunning\<rparr>]\<rparr>)"
    if "uc_ports u (t_from p) = None" for c p
    using uc_inv_create [of "u\<lparr>uc_conn := c, uc_pc := Creating p\<rparr>" "t_from p"] assms that by simp
  then show ?thesis
    using assms by (auto simp: main_read_def split: prod.splits sum.splits option.splits)
qed

lemma udp_client_step_inv [wf_intros]: "uc_inv u \<Longrightarrow> uc_inv (udp_client_step B e u)"
  by (cases e)
    (auto simp: main_read_inv main_deliver_def fw_inbound_def fw_outbound_def fw_timeout_def fw_leave_def
      write_outbound_def intro: uc_inv_upd uc_inv_leave send_to_inv
      split: loop_pc.splits option.splits list.splits prod.splits)

lemma udp_client_run_inv: "uc_inv u \<Longrightarrow> uc_inv (udp_client_run B es u)"
  unfolding udp_client_run_def by (induction es arbitrary: u) (auto intro: udp_client_step_inv)

section \<open>Delivery\<close>

text \<open>Runs in which the local service is reachable and no forwarder ends.\<close>

fun healthy :: "udp_client_event \<Rightarrow> bool" where
  "healthy (MainRead ok) = ok"
| "healthy (FwInbound ok i) = ok"
| "healthy (FwOutbound r i) = (r \<noteq> None)"
| "healthy (FwTimeout i) = False"
| "healthy _ = True"

text \<open>What has gone to the local service for a sender, what is queued, and what the loop still holds.\<close>

definition passed :: "udp_channel \<Rightarrow> socket_addr \<Rightarrow> bytes list" where
  "passed u a = (case uc_ports u a of None \<Rightarrow> [] | Some i \<Rightarrow> fw_sent (uc_fwds u ! i) @ fw_queue (uc_fwds u ! i))"

lemma passed_other [simp]:
  "passed (u\<lparr>uc_conn := c\<rparr>) a = passed u a" "passed (u\<lparr>uc_pc := pc\<rparr>) a = passed u a"
  "passed (u\<lparr>uc_outbound := ts\<rparr>) a = passed u a" "passed (u\<lparr>uc_writing := b\<rparr>) a = passed u a"
  "passed (u\<lparr>uc_running := b\<rparr>) a = passed u a"
  by (simp_all add: passed_def split: option.split)

definition in_hand :: "udp_channel \<Rightarrow> socket_addr \<Rightarrow> bytes list" where
  "in_hand u a =
     (case uc_pc u of
        Reading \<Rightarrow> []
      | Holding t \<Rightarrow> if t_from t = a then [t_data t] else []
      | Creating t \<Rightarrow> if t_from t = a then [t_data t] else []
      | Sending i d \<Rightarrow> if uc_ports u a = Some i then [d] else [])"

definition data_from :: "udp_traffic list \<Rightarrow> socket_addr \<Rightarrow> bytes list" where
  "data_from ts a = map t_data (filter (\<lambda>t. t_from t = a) ts)"

definition pc_ok :: "udp_channel \<Rightarrow> bool" where
  "pc_ok u =
     (case uc_pc u of
        Reading \<Rightarrow> True
      | Holding t \<Rightarrow> uc_ports u (t_from t) \<noteq> None
      | Creating t \<Rightarrow> uc_ports u (t_from t) \<noteq> None
      | Sending i d \<Rightarrow> i < length (uc_fwds u))"

lemma in_hand_other [simp]:
  "in_hand (u\<lparr>uc_conn := c\<rparr>) a = in_hand u a" "in_hand (u\<lparr>uc_outbound := ts\<rparr>) a = in_hand u a"
  "in_hand (u\<lparr>uc_writing := b\<rparr>) a = in_hand u a" "in_hand (upd_fwd i f u) a = in_hand u a"
  by (simp_all add: in_hand_def upd_fwd_def split: loop_pc.split)

lemma pc_ok_other [simp]:
  "pc_ok (u\<lparr>uc_conn := c\<rparr>) = pc_ok u" "pc_ok (u\<lparr>uc_outbound := ts\<rparr>) = pc_ok u"
  "pc_ok (u\<lparr>uc_writing := b\<rparr>) = pc_ok u" "pc_ok (upd_fwd i f u) = pc_ok u"
  by (simp_all add: pc_ok_def upd_fwd_def split: loop_pc.split)

definition delivery_inv :: "bincode \<Rightarrow> udp_traffic list \<Rightarrow> udp_channel \<Rightarrow> bool" where
  "delivery_inv B ts u \<longleftrightarrow>
     uc_inv u \<and> uc_writing u \<and> (\<forall>f \<in> set (uc_fwds u). fw_phase f = FwRunning) \<and>
     pc_ok u \<and>
     (\<exists>seen rem. ts = seen @ rem \<and> rx (uc_conn u) = concat (map (udp_frame B) rem) \<and>
        (\<forall>a. passed u a @ in_hand u a = data_from seen a))"

lemma delivery_inv_new: "rx c = concat (map (udp_frame B) ts) \<Longrightarrow> delivery_inv B ts (udp_channel_new c)"
  unfolding delivery_inv_def
  by (intro conjI exI [of _ "[]"] exI [of _ ts])
    (simp_all add: udp_channel_new_def uc_inv_def passed_def in_hand_def pc_ok_def data_from_def)

lemma no_writer: "\<forall>f \<in> set (uc_fwds u). fw_phase f = FwRunning \<Longrightarrow> \<not> writer_waits u"
  by (auto simp: writer_waits_def list_ex_iff)

lemma in_range: "uc_inv u \<Longrightarrow> uc_ports u a = Some i \<Longrightarrow> i < length (uc_fwds u) \<and> fwd i u = Some (uc_fwds u ! i)"
  by (simp add: uc_inv_def fwd_def)

lemma owner: "uc_inv u \<Longrightarrow> i < length (uc_fwds u) \<Longrightarrow> fw_phase (uc_fwds u ! i) = FwRunning \<Longrightarrow>
    uc_ports u a = Some i \<longleftrightarrow> a = fw_from (uc_fwds u ! i)"
  by (auto simp: uc_inv_def)

text \<open>Replacing a forwarder by one with the same sender and phase changes \<open>passed\<close> for that sender only.\<close>

lemma passed_upd:
  assumes "uc_inv u" and "i < length (uc_fwds u)" and "fw_phase (uc_fwds u ! i) = FwRunning"
  shows "passed (upd_fwd i f u) a = (if a = fw_from (uc_fwds u ! i) then fw_sent f @ fw_queue f else passed u a)"
proof (cases "a = fw_from (uc_fwds u ! i)")
  case True
  with owner [OF assms, of a] assms(2) show ?thesis by (simp add: passed_def upd_fwd_def)
next
  case False
  with owner [OF assms, of a] show ?thesis
    by (auto simp: passed_def upd_fwd_def nth_list_update split: option.splits)
qed

lemma ball_update: "\<forall>x \<in> set xs. P x \<Longrightarrow> P y \<Longrightarrow> \<forall>x \<in> set (xs[i := y]). P x"
  by (metis insert_iff set_update_subset_insert subsetD)

lemma delivery_send_to:
  assumes "uc_inv u" and "uc_writing u" and "\<forall>f \<in> set (uc_fwds u). fw_phase f = FwRunning" and "i < length (uc_fwds u)"
    and "ts = seen @ rem" and "rx (uc_conn u) = concat (map (udp_frame B) rem)"
    and "\<And>a. passed u a @ (if a = fw_from (uc_fwds u ! i) then [d] else []) = data_from seen a"
  shows "delivery_inv B ts (send_to i d u)"
proof -
  let ?f = "uc_fwds u ! i"
  have run: "fw_phase ?f = FwRunning" using assms(3,4) by simp
  have fwd: "fwd i u = Some ?f" using assms(4) by (simp add: fwd_def)
  show ?thesis
  proof (cases "length (fw_queue ?f) < UDP_SENDQ_SIZE")
    case True
    let ?u = "upd_fwd i (?f\<lparr>fw_queue := fw_queue ?f @ [d]\<rparr>) u"
    have send: "send_to i d u = ?u\<lparr>uc_pc := Reading\<rparr>"
      using True run by (simp add: send_to_def fwd)
    have "uc_inv ?u" using assms(1) fwd run by (intro uc_inv_upd) auto
    moreover have "\<forall>f \<in> set (uc_fwds ?u). fw_phase f = FwRunning"
      using ball_update [OF assms(3), of "?f\<lparr>fw_queue := fw_queue ?f @ [d]\<rparr>" i] run by (simp add: upd_fwd_def)
    moreover have "passed ?u a = data_from seen a" for a
      using passed_upd [OF assms(1,4) run] assms(7) [of a] owner [OF assms(1,4) run, of a]
      by (auto simp: passed_def split: if_splits)
    moreover have "uc_writing ?u" "uc_conn ?u = uc_conn u" using assms(2) by (simp_all add: upd_fwd_def)
    ultimately show ?thesis
      unfolding delivery_inv_def send using assms(5,6)
      by (intro conjI exI [of _ seen] exI [of _ rem]) (simp_all add: in_hand_def pc_ok_def)
  next
    case False
    then have send: "send_to i d u = u\<lparr>uc_pc := Sending i d\<rparr>"
      using run by (simp add: send_to_def fwd)
    show ?thesis
      unfolding delivery_inv_def send using assms owner [OF assms(1,4) run]
      by (intro conjI exI [of _ seen] exI [of _ rem]) (simp_all add: in_hand_def pc_ok_def)
  qed
qed

lemma delivery_read:
  assumes "bincode_ok B" and "\<forall>t \<in> set ts. plain_addr (t_from t) \<and> length (t_data t) < 2 ^ 16" and "delivery_inv B ts u"
  shows "delivery_inv B ts (main_read B True u) \<or> \<not> uc_running (main_read B True u)"
proof (cases "uc_running u \<and> uc_pc u = Reading")
  case False
  then have "main_read B True u = u" by (auto simp: main_read_def)
  with assms(3) show ?thesis by simp
next
  case True
  obtain seen rem where inv: "uc_inv u" "uc_writing u" "\<forall>f \<in> set (uc_fwds u). fw_phase f = FwRunning"
      "ts = seen @ rem" "rx (uc_conn u) = concat (map (udp_frame B) rem)" "\<And>a. passed u a = data_from seen a"
    using assms(3) True by (auto simp: delivery_inv_def in_hand_def)
  show ?thesis
  proof (cases rem)
    case Nil
    then have "snd (udp_recv B (uc_conn u)) = Inl (Io UnexpectedEof)"
      using inv(5) by (simp add: udp_recv_def sbind_def read_u8_def read_exact_def smap_err_def)
    then show ?thesis
      using True no_writer [OF inv(3)] by (auto simp: main_read_def split: prod.splits)
  next
    case (Cons t rem')
    let ?c = "(uc_conn u)\<lparr>rx := concat (map (udp_frame B) rem')\<rparr>"
    have recv: "udp_recv B (uc_conn u) = (?c, Inr t)"
      using udp_recv_frame [OF assms(1), of t "uc_conn u" "concat (map (udp_frame B) rem')"] inv(4,5) assms(2) Cons by simp
    have seen: "data_from (seen @ [t]) a = passed u a @ (if t_from t = a then [t_data t] else [])" for a
      using inv(6) [of a] by (simp add: data_from_def)
    show ?thesis
    proof (cases "uc_ports u (t_from t)")
      case (Some i)
      then have "main_read B True u = u\<lparr>uc_conn := ?c, uc_pc := Holding t\<rparr>"
        using True no_writer [OF inv(3)] recv by (simp add: main_read_def)
      then show ?thesis
        unfolding delivery_inv_def using inv(1-4) Cons seen Some
        by (intro disjI1 conjI exI [of _ "seen @ [t]"] exI [of _ rem']) (simp_all add: in_hand_def pc_ok_def)
    next
      case None
      let ?u = "u\<lparr>uc_ports := (uc_ports u)(t_from t \<mapsto> length (uc_fwds u)), uc_fwds := uc_fwds u @
          [\<lparr>fw_from = t_from t, fw_queue = [], fw_sent = [], fw_phase = FwRunning\<rparr>]\<rparr>"
      have read: "main_read B True u = ?u\<lparr>uc_conn := ?c, uc_pc := Creating t\<rparr>"
        using True no_writer [OF inv(3)] recv None by (simp add: main_read_def)
      have "passed ?u a = passed u a" for a
        using None in_range [OF inv(1), of a] by (auto simp: passed_def nth_append split: option.splits)
      then show ?thesis
        unfolding delivery_inv_def read using inv(1-4) Cons seen uc_inv_create [OF inv(1) None]
        by (intro disjI1 conjI exI [of _ "seen @ [t]"] exI [of _ rem']) (simp_all add: in_hand_def pc_ok_def)
    qed
  qed
qed

lemma delivery_deliver:
  assumes "delivery_inv B ts u"
  shows "delivery_inv B ts (main_deliver u)"
proof -
  obtain seen rem where inv: "uc_inv u" "uc_writing u" "\<forall>f \<in> set (uc_fwds u). fw_phase f = FwRunning"
      "ts = seen @ rem" "rx (uc_conn u) = concat (map (udp_frame B) rem)" "\<And>a. passed u a @ in_hand u a = data_from seen a"
    using assms by (auto simp: delivery_inv_def)
  have send: "delivery_inv B ts (send_to i d u)"
    if "i < length (uc_fwds u)" "\<And>a. in_hand u a = (if a = fw_from (uc_fwds u ! i) then [d] else [])" for i d
    using delivery_send_to [OF inv(1-3) that(1) inv(4,5)] inv(6) that(2) by simp
  have packet: "delivery_inv B ts (case uc_ports u (t_from t) of Some i \<Rightarrow> send_to i (t_data t) u | None \<Rightarrow> u\<lparr>uc_pc := Reading\<rparr>)"
    if ne: "uc_ports u (t_from t) \<noteq> None" and hand: "\<And>a. in_hand u a = (if t_from t = a then [t_data t] else [])" for t
  proof -
    obtain i where i: "uc_ports u (t_from t) = Some i" using ne by blast
    then have "i < length (uc_fwds u)" "fw_from (uc_fwds u ! i) = t_from t"
      using inv(1) by (simp_all add: uc_inv_def)
    moreover have "in_hand u a = (if a = t_from t then [t_data t] else [])" for a
      using hand [of a] by auto
    ultimately have "delivery_inv B ts (send_to i (t_data t) u)"
      using send [of i "t_data t"] by simp
    then show ?thesis by (simp add: i)
  qed
  show ?thesis
  proof (cases "uc_pc u")
    case Reading
    with assms show ?thesis by (simp add: main_deliver_def)
  next
    case (Holding t)
    with assms packet [of t] no_writer [OF inv(3)] show ?thesis
      by (simp add: main_deliver_def delivery_inv_def in_hand_def pc_ok_def)
  next
    case (Creating t)
    with assms packet [of t] no_writer [OF inv(3)] show ?thesis
      by (simp add: main_deliver_def delivery_inv_def in_hand_def pc_ok_def)
  next
    case (Sending i d)
    then have "i < length (uc_fwds u)" using assms by (simp add: delivery_inv_def pc_ok_def)
    with Sending inv(1,3) send [of i d] owner [OF inv(1), of i] show ?thesis
      by (simp add: main_deliver_def in_hand_def)
  qed
qed

lemma delivery_upd:
  assumes "delivery_inv B ts u" and "i < length (uc_fwds u)" and "fw_from f = fw_from (uc_fwds u ! i)" and "fw_phase f = FwRunning"
    and "fw_sent f @ fw_queue f = fw_sent (uc_fwds u ! i) @ fw_queue (uc_fwds u ! i)"
  shows "delivery_inv B ts (upd_fwd i f u)"
proof -
  have inv: "uc_inv u" "\<forall>f \<in> set (uc_fwds u). fw_phase f = FwRunning" using assms(1) by (simp_all add: delivery_inv_def)
  then have run: "fw_phase (uc_fwds u ! i) = FwRunning" using assms(2) by simp
  have "uc_inv (upd_fwd i f u)"
    using inv(1) assms(2-4) run by (intro uc_inv_upd [of _ _ "uc_fwds u ! i"]) (auto simp: fwd_def)
  moreover have "passed (upd_fwd i f u) a = passed u a" for a
    using passed_upd [OF inv(1) assms(2) run, of f a] assms(5) owner [OF inv(1) assms(2) run, of a] by (auto simp: passed_def)
  moreover have "\<forall>f \<in> set (uc_fwds (upd_fwd i f u)). fw_phase f = FwRunning"
    using ball_update [OF inv(2), of f i] assms(4) by (simp add: upd_fwd_def)
  ultimately show ?thesis
    using assms(1) by (simp add: delivery_inv_def) (simp add: upd_fwd_def)
qed

lemma udp_write_rx: "rx (fst (udp_write B t c)) = rx c"
  by (simp add: udp_write_def Let_def sbind_def write_all_def sret_def)

lemma delivery_step:
  assumes "bincode_ok B" and "\<forall>t \<in> set ts. plain_addr (t_from t) \<and> length (t_data t) < 2 ^ 16"
    and "delivery_inv B ts u" and "healthy e"
  shows "delivery_inv B ts (udp_client_step B e u) \<or> \<not> uc_running (udp_client_step B e u) \<or> \<not> uc_writing (udp_client_step B e u)"
proof -
  have run: "fw_phase (uc_fwds u ! i) = FwRunning" if "i < length (uc_fwds u)" for i
    using assms(3) that by (simp add: delivery_inv_def)
  show ?thesis
  proof (cases e)
    case (MainRead ok)
    then show ?thesis using delivery_read [OF assms(1-3)] assms(4) by auto
  next
    case MainDeliver
    then show ?thesis using delivery_deliver [OF assms(3)] by simp
  next
    case (FwInbound ok i)
    then show ?thesis
      using assms(3,4) run [of i] delivery_upd [OF assms(3), of i]
      by (auto simp: fw_inbound_def fwd_def split: list.splits option.splits)
  next
    case (FwOutbound r i)
    then show ?thesis
      using assms(3,4) run [of i]
      by (auto simp: fw_outbound_def fwd_def delivery_inv_def split: option.splits)
  next
    case (FwLeave i)
    then show ?thesis
      using assms(3) run [of i] by (auto simp: fw_leave_def fwd_def split: option.splits)
  next
    case WriteOutbound
    have "delivery_inv B ts (u\<lparr>uc_conn := c, uc_outbound := os, uc_writing := True\<rparr>)" if "rx c = rx (uc_conn u)" for c os
      using assms(3) that by (simp add: delivery_inv_def)
    then show ?thesis
      using assms(3) WriteOutbound udp_write_rx [of B _ "uc_conn u"]
      by (auto simp: write_outbound_def split: list.splits prod.splits) (metis fst_conv)
  qed (use assms(4) in simp)
qed

lemma step_stays_down:
  "\<not> uc_running u \<Longrightarrow> \<not> uc_running (udp_client_step B e u)"
  "\<not> uc_writing u \<Longrightarrow> \<not> uc_writing (udp_client_step B e u)"
  by (cases e; auto simp: main_read_def main_deliver_def send_to_def fw_inbound_def fw_outbound_def fw_timeout_def
      fw_leave_def upd_fwd_def write_outbound_def split: loop_pc.splits option.splits list.splits prod.splits sum.splits)+

lemma delivery_run:
  assumes "bincode_ok B" and "\<forall>t \<in> set ts. plain_addr (t_from t) \<and> length (t_data t) < 2 ^ 16"
    and "delivery_inv B ts u" and "list_all healthy es"
    and "uc_running (udp_client_run B es u)" and "uc_writing (udp_client_run B es u)"
  shows "delivery_inv B ts (udp_client_run B es u)"
  using assms(4-6) unfolding udp_client_run_def
proof (induction es rule: rev_induct)
  case Nil
  then show ?case using assms(3) by simp
next
  case (snoc e es)
  let ?u = "fold (udp_client_step B) es u"
  have "uc_running ?u" "uc_writing ?u"
    using snoc.prems(2,3) step_stays_down [of ?u B e] by auto
  then have "delivery_inv B ts ?u" using snoc.IH snoc.prems(1) by simp
  from delivery_step [OF assms(1,2) this, of e] snoc.prems show ?case by simp
qed

text \<open>
  While the local service is reachable and the data channel lasts, the client's end of a
  UDP data channel loses, duplicates and reorders nothing: after any interleaving of its tasks
  the packets read from the server form a prefix of those the server framed, and for every
  sender the datagrams given to the local service, those queued and the one in the loop's hands
  are exactly the packets read from that sender, in order.
\<close>

theorem udp_client_delivers:
  assumes "bincode_ok B" and "\<forall>t \<in> set ts. plain_addr (t_from t) \<and> length (t_data t) < 2 ^ 16"
    and "rx c = concat (map (udp_frame B) ts)" and "list_all healthy es"
    and "u = udp_client_run B es (udp_channel_new c)" and "uc_running u" and "uc_writing u"
  shows "\<exists>seen rem. ts = seen @ rem \<and> rx (uc_conn u) = concat (map (udp_frame B) rem) \<and>
    (\<forall>a. passed u a @ in_hand u a = data_from seen a)"
  using delivery_run [OF assms(1,2) delivery_inv_new [OF assms(3)] assms(4)] assms(5-7)
  by (auto simp: delivery_inv_def)

lemma recv_framed:
  assumes "bincode_ok B" and "plain_addr (t_from t)" and "length (t_data t) < 2 ^ 16" and "rx c = udp_frame B t @ rest"
  shows "udp_recv B c = (c\<lparr>rx := rest\<rparr>, Inr t)"
  using udp_recv_frame [OF assms(1,2,4)] assms(3) by simp

abbreviation ping :: udp_traffic where
  "ping \<equiv> \<lparr>t_from = V4 1 80, t_data = [1]\<rparr>"

definition two_pings :: udp_channel where
  "two_pings = udp_channel_new \<lparr>rx = concat (map (udp_frame bincode_fixint) [ping, ping]), tx = [], wr_left = 9\<rparr>"

lemma two_pings_run:
  "udp_client_run bincode_fixint [MainRead True, MainDeliver, MainRead True] two_pings =
     \<lparr>uc_conn = \<lparr>rx = [], tx = [], wr_left = 9\<rparr>, uc_ports = [V4 1 80 \<mapsto> 0],
      uc_fwds = [\<lparr>fw_from = V4 1 80, fw_queue = [[1]], fw_sent = [], fw_phase = FwRunning\<rparr>],
      uc_outbound = [], uc_writing = True, uc_pc = Holding ping, uc_running = True\<rparr>"
  by (simp add: udp_client_run_def two_pings_def udp_channel_new_def main_read_def main_deliver_def send_to_def writer_waits_def
      fwd_def upd_fwd_def UDP_SENDQ_SIZE_def recv_framed [OF bincode_fixint_ok, of ping])

theorem udp_client_delivers_witness:
  "let u = udp_client_run bincode_fixint [MainRead True, MainDeliver, MainRead True] two_pings
   in passed u (V4 1 80) @ in_hand u (V4 1 80) = [[1], [1]]"
proof -
  let ?u = "udp_client_run bincode_fixint [MainRead True, MainDeliver, MainRead True] two_pings"
  define c where "c = \<lparr>rx = concat (map (udp_frame bincode_fixint) [ping, ping]), tx = [], wr_left = 9\<rparr>"
  have u: "?u = udp_client_run bincode_fixint [MainRead True, MainDeliver, MainRead True] (udp_channel_new c)"
    by (simp only: two_pings_def c_def)
  have "\<exists>seen rem. [ping, ping] = seen @ rem \<and> rx (uc_conn ?u) = concat (map (udp_frame bincode_fixint) rem) \<and>
      (\<forall>a. passed ?u a @ in_hand ?u a = data_from seen a)"
    by (rule udp_client_delivers [OF bincode_fixint_ok _ _ _ u]) (simp_all add: c_def two_pings_run)
  moreover have "rem = []" if "rx (uc_conn ?u) = concat (map (udp_frame bincode_fixint) rem)" for rem
    using that by (cases rem) (simp_all add: two_pings_run udp_frame_def Let_def)
  ultimately have "\<forall>a. passed ?u a @ in_hand ?u a = data_from [ping, ping] a" by force
  then show ?thesis by (simp add: data_from_def)
qed

section \<open>Where the port map goes wrong\<close>

lemma stuck_step:
  fixes B e
  assumes "uc_pc u = Holding t" and "i < length (uc_fwds u)" and "fw_phase (uc_fwds u ! i) = FwLeaving"
  defines "u' \<equiv> udp_client_step B e u"
  shows "uc_pc u' = Holding t \<and> i < length (uc_fwds u') \<and> fw_phase (uc_fwds u' ! i) = FwLeaving \<and> rx (uc_conn u') = rx (uc_conn u)"
proof -
  have w: "writer_waits u"
    using assms(2,3) by (auto simp: writer_waits_def list_ex_iff)
  have "guard_held u" using assms(1) by (simp add: guard_held_def)
  then show ?thesis
    using assms(1-3) w udp_write_rx [of B _ "uc_conn u"] unfolding u'_def
    by (cases e, auto simp: main_read_def main_deliver_def fw_inbound_def fw_outbound_def fw_timeout_def fw_leave_def
        upd_fwd_def fwd_def write_outbound_def nth_list_update split: option.splits list.splits prod.splits, (metis fst_conv)+)
qed

text \<open>
  C16. The data channel deadlocks when a forwarder ends while the main loop, which has found its
  entry, has not yet taken the second read guard: the forwarder waits for the write lock behind
  the loop's first guard and the loop waits for its second guard behind the forwarder. From
  then on, whatever else happens, nothing more is read from the server.
\<close>

theorem udp_client_deadlock:
  assumes "uc_pc u = Holding t" and "i < length (uc_fwds u)" and "fw_phase (uc_fwds u ! i) = FwLeaving"
  shows "uc_pc (udp_client_run B es u) = Holding t \<and> rx (uc_conn (udp_client_run B es u)) = rx (uc_conn u)"
proof -
  have "uc_pc (udp_client_run B es u) = Holding t \<and> i < length (uc_fwds (udp_client_run B es u)) \<and>
      fw_phase (uc_fwds (udp_client_run B es u) ! i) = FwLeaving \<and> rx (uc_conn (udp_client_run B es u)) = rx (uc_conn u)"
    unfolding udp_client_run_def
  proof (induction es rule: rev_induct)
    case Nil
    then show ?case using assms by simp
  next
    case (snoc e es)
    then show ?case using stuck_step [of "fold (udp_client_step B) es u" t i B e] by simp
  qed
  then show ?thesis by simp
qed

theorem udp_client_deadlock_witness:
  "let u = udp_client_run bincode_fixint [MainRead True, MainDeliver, MainRead True, FwTimeout 0] two_pings
   in uc_pc (udp_client_run bincode_fixint [MainDeliver, FwLeave 0, MainDeliver, FwLeave 0] u) = Holding ping"
proof -
  let ?u = "udp_client_run bincode_fixint [MainRead True, MainDeliver, MainRead True, FwTimeout 0] two_pings"
  have "?u = fw_timeout 0 (udp_client_run bincode_fixint [MainRead True, MainDeliver, MainRead True] two_pings)"
    by (simp add: udp_client_run_def)
  then have "?u = \<lparr>uc_conn = \<lparr>rx = [], tx = [], wr_left = 9\<rparr>, uc_ports = [V4 1 80 \<mapsto> 0],
      uc_fwds = [\<lparr>fw_from = V4 1 80, fw_queue = [[1]], fw_sent = [], fw_phase = FwLeaving\<rparr>],
      uc_outbound = [], uc_writing = True, uc_pc = Holding ping, uc_running = True\<rparr>"
    by (simp add: two_pings_run fw_timeout_def fwd_def upd_fwd_def)
  then show ?thesis
    using udp_client_deadlock [of ?u ping 0 bincode_fixint "[MainDeliver, FwLeave 0, MainDeliver, FwLeave 0]"] by (simp add: Let_def)
qed

text \<open>
  A forwarder that fails to send leaves its entry behind: no later packet of that sender
  reaches the local service.
\<close>

lemma gone_step:
  fixes B e
  assumes "uc_inv u" and "uc_ports u a = Some i" and "fw_phase (uc_fwds u ! i) = FwGone"
  defines "u' \<equiv> udp_client_step B e u"
  shows "uc_ports u' a = Some i \<and> fw_phase (uc_fwds u' ! i) = FwGone \<and> fw_sent (uc_fwds u' ! i) = fw_sent (uc_fwds u ! i)"
proof -
  have i: "i < length (uc_fwds u)" using in_range [OF assms(1,2)] by simp
  have other: "fw_from (uc_fwds u ! j) \<noteq> a" if "j < length (uc_fwds u)" "fw_phase (uc_fwds u ! j) \<noteq> FwGone" for j
    using assms(1-3) that by (auto simp: uc_inv_def)
  show ?thesis
    using assms(2,3) i unfolding u'_def
    by (cases e, auto simp: main_read_def main_deliver_def send_to_def fw_inbound_def fw_outbound_def fw_timeout_def fw_leave_def
        upd_fwd_def fwd_def write_outbound_def nth_list_update nth_append
        split: loop_pc.splits option.splits list.splits prod.splits sum.splits) (use other in force)+
qed

theorem udp_client_black_hole:
  assumes "uc_inv u" and "uc_ports u a = Some i" and "fw_phase (uc_fwds u ! i) = FwGone"
  shows "uc_ports (udp_client_run B es u) a = Some i \<and>
    fw_sent (uc_fwds (udp_client_run B es u) ! i) = fw_sent (uc_fwds u ! i)"
proof -
  have "uc_ports (udp_client_run B es u) a = Some i \<and> fw_phase (uc_fwds (udp_client_run B es u) ! i) = FwGone \<and>
      fw_sent (uc_fwds (udp_client_run B es u) ! i) = fw_sent (uc_fwds u ! i)"
  proof (induction es rule: rev_induct)
    case Nil
    then show ?case using assms by (simp add: udp_client_run_def)
  next
    case (snoc e es)
    from gone_step [OF udp_client_run_inv [OF assms(1), of B es], of a i B e] snoc show ?case
      by (simp add: udp_client_run_def)
  qed
  then show ?thesis by simp
qed

end
