(* ===== verification/Run.thy ===== *)
theory Run
  imports Server Client
begin

text \<open>
  The program around the instances (\<^verbatim>\<open>lib.rs\<close>, \<^verbatim>\<open>cli.rs\<close>): the command line, the check of a
  configuration file, key generation, the choice between server and client, and the loop that
  starts an instance, restarts it on general changes and passes service changes on to it.

  The instance is a task of its own. What the loop sees of it is whether it has ended, by
  itself or on request, and with which result; the changes it was sent are recorded in order.
\<close>

section \<open>The command line\<close>

datatype keypair_type = X25519 | X448

record cli =
  cli_config_path :: "string option"
  cli_server :: bool
  cli_client :: bool
  cli_genkey :: "keypair_type option option"
  cli_verify :: bool

definition DEFAULT_CURVE :: keypair_type where
  "DEFAULT_CURVE = X25519"

fun get_str_from_keypair_type :: "keypair_type \<Rightarrow> string" where
  "get_str_from_keypair_type X25519 = ''25519''"
| "get_str_from_keypair_type X448 = ''448''"

section \<open>Commands that end at once\<close>

datatype app_error =
    KeyNotGenerated
  | NoiseNotCompiled
  | NoConfigPath
  | BadConfig config_error
  | ShutdownNotReceived
  | InstanceFailed
  | RunPanic
  | ServerFailed server_error
  | ClientFailed client_error

text \<open>
  \<^verbatim>\<open>genkey\<close> with the crates it calls as parameters: \<open>generate\<close> parses a Noise pattern and makes
  a key pair for it, \<open>encode\<close> is the base64 of the standard alphabet. The result is what is
  printed, line by line.
\<close>

definition genkey ::
  "bool \<Rightarrow> (string \<Rightarrow> (bytes \<times> bytes) option) \<Rightarrow> (bytes \<Rightarrow> string) \<Rightarrow> keypair_type option \<Rightarrow> app_error + string list" where
  "genkey noise_compiled generate encode curve =
     (if \<not> noise_compiled then Inl NoiseNotCompiled
      else
        let curve = (case curve of Some c \<Rightarrow> c | None \<Rightarrow> DEFAULT_CURVE) in
        rbind (ok_or (generate (''Noise_KK_'' @ get_str_from_keypair_type curve @ ''_ChaChaPoly_BLAKE2s'')) KeyNotGenerated)
          (\<lambda>(private, public). Inr [''Private Key:'', encode private, [], ''Public Key:'', encode public]))"

fun show_service_type :: "service_type \<Rightarrow> string" where
  "show_service_type Tcp = ''Tcp''"
| "show_service_type Udp = ''Udp''"
| "show_service_type Http = ''Http''"
| "show_service_type Https = ''Https''"
| "show_service_type Tcpmux = ''Tcpmux''"
| "show_service_type Stcp = ''Stcp''"
| "show_service_type Sudp = ''Sudp''"
| "show_service_type Xtcp = ''Xtcp''"

definition server_report :: "server_config \<Rightarrow> string list" where
  "server_report server =
     [''  Bind: '' @ sc_bind_addr server, ''  Services: '' @ show_nat (length (sc_services server))] @
     map (\<lambda>(name, svc). ''    - '' @ name @ '' ('' @ show_service_type (ss_service_type svc) @ '')'') (sc_services server)"

definition client_report :: "client_config \<Rightarrow> string list" where
  "client_report client =
     [''  Remote: '' @ cc_remote_addr client, ''  Services: '' @ show_nat (length (cc_services client))] @
     map (\<lambda>(name, svc). ''    - '' @ name @ '' ('' @ show_service_type (cs_service_type svc) @ '' -> '' @ cs_local_addr svc @ '')'')
       (cc_services client)"

definition verify_config :: "(string \<Rightarrow> config_error + config) \<Rightarrow> cli \<Rightarrow> app_error + string list" where
  "verify_config load args =
     rbind (ok_or (cli_config_path args) NoConfigPath) (\<lambda>config_path.
     rbind (map_err BadConfig (load config_path)) (\<lambda>config.
     Inr ([''Configuration is valid.''] @
       (case cfg_server config of Some server \<Rightarrow> ''  Mode: server'' # server_report server | None \<Rightarrow> []) @
       (case cfg_client config of Some client \<Rightarrow> ''  Mode: client'' # client_report client | None \<Rightarrow> []))))"

section \<open>Instances\<close>

datatype run_mode = RunServer | RunClient | Undetermine

definition determine_run_mode :: "config \<Rightarrow> cli \<Rightarrow> run_mode" where
  "determine_run_mode config args =
     (if cli_client args \<and> cli_server args then Undetermine
      else if cli_client args then RunClient
      else if cli_server args then RunServer
      else if cfg_client config \<noteq> None \<and> cfg_server config = None then RunClient
      else if cfg_server config \<noteq> None \<and> cfg_client config = None then RunServer
      else Undetermine)"

text \<open>The instance starts with a transport and a section of the configuration, or fails.\<close>

datatype started = ServerOn transport_type server_config | ClientOn transport_type client_config

definition run_instance :: "(transport_type \<Rightarrow> bool) \<Rightarrow> config \<Rightarrow> cli \<Rightarrow> app_error + started" where
  "run_instance compiled config args =
     (case determine_run_mode config args of
        Undetermine \<Rightarrow> Inl RunPanic
      | RunClient \<Rightarrow> rbind (map_err ClientFailed (run_client_transport compiled config)) (\<lambda>(t, cfg). Inr (ClientOn t cfg))
      | RunServer \<Rightarrow> rbind (map_err ServerFailed (run_server_transport compiled config)) (\<lambda>(t, cfg). Inr (ServerOn t cfg)))"

record app_instance =
  in_config :: config
  in_updates :: "config_change list"
  in_alive :: bool

section \<open>The main loop\<close>

text \<open>
  \<open>ap_done\<close> is the result of \<^verbatim>\<open>run\<close> once it has returned. An event is a change from the watcher,
  with the result the running instance gives if this change makes it stop; the end of the
  instance by itself; or the end of the watcher.
\<close>

record app =
  ap_last_instance :: "app_instance option"
  ap_started :: nat
  ap_done :: "(app_error + unit) option"

datatype app_event = Changed config_change bool | InstanceEnded | WatcherGone

definition app_new :: app where
  "app_new = \<lparr>ap_last_instance = None, ap_started = 0, ap_done = None\<rparr>"

definition spawn_instance :: "config \<Rightarrow> app \<Rightarrow> app" where
  "spawn_instance config a =
     a\<lparr>ap_last_instance := Some \<lparr>in_config = config, in_updates = [], in_alive = True\<rparr>, ap_started := ap_started a + 1\<rparr>"

text \<open>
  Sending the shutdown signal fails when nobody holds a receiver any more, that is when the
  instance has ended.
\<close>

definition app_step :: "app_event \<Rightarrow> app \<Rightarrow> app" where
  "app_step e a =
     (if ap_done a \<noteq> None then a
      else case e of
        Changed (General config) ended_ok \<Rightarrow>
          (case ap_last_instance a of
             Some i \<Rightarrow>
               if \<not> in_alive i then a\<lparr>ap_done := Some (Inl ShutdownNotReceived)\<rparr>
               else if \<not> ended_ok
               then a\<lparr>ap_last_instance := Some (i\<lparr>in_alive := False\<rparr>), ap_done := Some (Inl InstanceFailed)\<rparr>
               else spawn_instance config a
           | None \<Rightarrow> spawn_instance config a)
      | Changed ev _ \<Rightarrow>
          (case ap_last_instance a of
             Some i \<Rightarrow> if in_alive i then a\<lparr>ap_last_instance := Some (i\<lparr>in_updates := in_updates i @ [ev]\<rparr>)\<rparr> else a
           | None \<Rightarrow> a)
      | InstanceEnded \<Rightarrow> a\<lparr>ap_last_instance := map_option (\<lambda>i. i\<lparr>in_alive := False\<rparr>) (ap_last_instance a)\<rparr>
      | WatcherGone \<Rightarrow>
          a\<lparr>ap_last_instance := map_option (\<lambda>i. i\<lparr>in_alive := False\<rparr>) (ap_last_instance a), ap_done := Some (Inr ())\<rparr>)"

text \<open>\<^verbatim>\<open>run\<close>: what the arguments ask for, or the loop on the events that come.\<close>

datatype outcome = Printed "string list" | Looped app

definition run ::
  "bool \<Rightarrow> (string \<Rightarrow> (bytes \<times> bytes) option) \<Rightarrow> (bytes \<Rightarrow> string) \<Rightarrow> (string \<Rightarrow> config_error + config) \<Rightarrow>
   cli \<Rightarrow> app_event list \<Rightarrow> app_error + outcome" where
  "run noise_compiled generate encode load args events =
     (case cli_genkey args of
        Some curve \<Rightarrow> rbind (genkey noise_compiled generate encode curve) (\<lambda>ls. Inr (Printed ls))
      | None \<Rightarrow>
          if cli_verify args then rbind (verify_config load args) (\<lambda>ls. Inr (Printed ls))
          else
            rbind (ok_or (cli_config_path args) RunPanic) (\<lambda>config_path.
            rbind (map_err BadConfig (load config_path)) (\<lambda>_.
            Inr (Looped (fold app_step events app_new)))))"

section \<open>The executable\<close>

text \<open>
  The task of \<^verbatim>\<open>main.rs\<close> that waits for the interrupt. It panics when it cannot listen for it or
  when nobody holds a receiver of the shutdown signal; otherwise the watcher, which holds it,
  ends, and the loop finds its events at an end.
\<close>

definition main_interrupt :: "bool \<Rightarrow> bool \<Rightarrow> app_error + app_event" where
  "main_interrupt listening watcher_alive =
     rbind (require listening RunPanic) (\<lambda>_. rbind (require watcher_alive RunPanic) (\<lambda>_. Inr WatcherGone))"

lemma main_interrupt_ends:
  assumes "main_interrupt listening watcher_alive = Inr e" and "ap_done a = None"
  shows "ap_done (app_step e a) = Some (Inr ()) \<and> (\<forall>i. ap_last_instance (app_step e a) = Some i \<longrightarrow> \<not> in_alive i)"
  using assms by (auto simp: main_interrupt_def result_iff app_step_def)

section \<open>The running instance follows the file\<close>

text \<open>Two configurations that differ at most in their services.\<close>

definition same_but_services :: "config \<Rightarrow> config \<Rightarrow> bool" where
  "same_but_services a b \<longleftrightarrow>
     map_option (\<lambda>c. c\<lparr>sc_services := []\<rparr>) (cfg_server a) = map_option (\<lambda>c. c\<lparr>sc_services := []\<rparr>) (cfg_server b) \<and>
     map_option (\<lambda>c. c\<lparr>cc_services := []\<rparr>) (cfg_client a) = map_option (\<lambda>c. c\<lparr>cc_services := []\<rparr>) (cfg_client b)"

lemma same_but_services_refl [simp]: "same_but_services a a"
  by (simp add: same_but_services_def)

lemma same_but_services_trans: "same_but_services a b \<Longrightarrow> same_but_services b c \<Longrightarrow> same_but_services a c"
  by (simp add: same_but_services_def)

lemma config_eq_same: "config_eq a b \<Longrightarrow> same_but_services a b"
  by (cases "cfg_server a"; cases "cfg_server b"; cases "cfg_client a"; cases "cfg_client b")
    (auto simp: config_eq_def same_but_services_def server_eq_def client_eq_def)

lemma section_events_same:
  "section_events server_instance server_eq (Some a) (Some b) = Some es \<Longrightarrow> a\<lparr>sc_services := []\<rparr> = b\<lparr>sc_services := []\<rparr>"
  "section_events client_instance client_eq (Some c) (Some d) = Some es \<Longrightarrow> c\<lparr>cc_services := []\<rparr> = d\<lparr>cc_services := []\<rparr>"
  by (auto simp: section_events_def calculate_instance_config_events_def server_instance_def client_instance_def
      server_eq_def client_eq_def split: if_splits)

lemma change_events_cases:
  assumes "calculate_events old new = Some es"
  obtains "es = [General new]"
  | "\<forall>g. General g \<notin> set es" "same_but_services old new"
proof -
  consider (gen) "es = [General new]"
    | (svc) s c where "section_events server_instance server_eq (cfg_server old) (cfg_server new) = Some s"
        "section_events client_instance client_eq (cfg_client old) (cfg_client new) = Some c" "es = s @ c"
        "(cfg_server old = None) = (cfg_server new = None)" "(cfg_client old = None) = (cfg_client new = None)"
    using assms by (auto simp: calculate_events_def split: if_splits option.splits)
  then show ?thesis
  proof cases
    case svc
    then have "\<forall>g. General g \<notin> set es"
      using server_events_no_general client_events_no_general by auto
    moreover have "same_but_services old new"
      using svc section_events_same
      by (cases "cfg_server old"; cases "cfg_server new"; cases "cfg_client old"; cases "cfg_client new")
        (auto simp: same_but_services_def)
    ultimately show ?thesis by (rule that(2))
  qed (rule that(1))
qed

text \<open>The loop fed with changes, while every instance that is asked to stop does so properly.\<close>

definition app_feed :: "config_change list \<Rightarrow> app" where
  "app_feed sent = fold app_step (map (\<lambda>e. Changed e True) sent) app_new"

definition follows :: "config_change list \<Rightarrow> app_instance \<Rightarrow> bool" where
  "follows sent i \<longleftrightarrow> in_alive i \<and> (\<forall>g. General g \<notin> set (in_updates i)) \<and>
     fold server_receive sent Map.empty = fold server_table_apply (in_updates i) (server_table (in_config i)) \<and>
     fold client_receive sent Map.empty = fold client_table_apply (in_updates i) (client_table (in_config i))"

lemma app_feed_snoc: "app_feed (sent @ [e]) = app_step (Changed e True) (app_feed sent)"
  by (simp add: app_feed_def)

lemma app_feed_general:
  assumes "ap_done (app_feed sent) = None" "\<And>i. ap_last_instance (app_feed sent) = Some i \<Longrightarrow> in_alive i"
  shows "app_feed (sent @ [General g]) = spawn_instance g (app_feed sent)"
  using assms by (auto simp: app_feed_snoc app_step_def split: option.split)

lemma app_feed_service:
  assumes "ap_done (app_feed sent) = None" "ap_last_instance (app_feed sent) = Some i" "in_alive i" "\<forall>g. e \<noteq> General g"
  shows "app_feed (sent @ [e]) = (app_feed sent)\<lparr>ap_last_instance := Some (i\<lparr>in_updates := in_updates i @ [e]\<rparr>)\<rparr>"
  using assms by (cases e) (auto simp: app_feed_snoc app_step_def)

text \<open>After a first general change there is always a live instance, and it has what a receiver of the changes has.\<close>

lemma app_feed_follows:
  "\<exists>i. ap_last_instance (app_feed (General g # sent)) = Some i \<and> ap_done (app_feed (General g # sent)) = None \<and>
     follows (General g # sent) i"
proof (induction sent rule: rev_induct)
  case Nil
  have "app_feed ([] @ [General g]) = spawn_instance g (app_feed [])"
    by (rule app_feed_general) (simp_all add: app_feed_def app_new_def)
  then show ?case
    by (simp add: spawn_instance_def follows_def) (simp add: app_feed_def app_new_def)
next
  case (snoc e sent)
  then obtain i where i: "ap_last_instance (app_feed (General g # sent)) = Some i"
      "ap_done (app_feed (General g # sent)) = None" "follows (General g # sent) i" by blast
  then have alive: "in_alive i" by (simp add: follows_def)
  show ?case
  proof (cases "\<exists>g'. e = General g'")
    case True
    then obtain g' where e: "e = General g'" by blast
    show ?thesis
      using app_feed_general [of "General g # sent" g'] i alive by (simp add: e spawn_instance_def follows_def)
  next
    case False
    have "server_receive e t = server_table_apply e t" "client_receive e u = client_table_apply e u" for t u
      using False by (cases e; simp)+
    then have "follows (General g # sent @ [e]) (i\<lparr>in_updates := in_updates i @ [e]\<rparr>)"
      using i(3) False by (auto simp: follows_def)
    then show ?thesis
      using app_feed_service [OF i(2,1) alive, of e] False i(2) by simp
  qed
qed

text \<open>The configuration of the live instance is that of the last general change.\<close>

fun last_general :: "config_change list \<Rightarrow> config option \<Rightarrow> config option" where
  "last_general [] c = c"
| "last_general (General g # es) c = last_general es (Some g)"
| "last_general (_ # es) c = last_general es c"

lemma last_general_append: "last_general (es @ fs) c = last_general fs (last_general es c)"
  by (induction es c rule: last_general.induct) simp_all

lemma last_general_none: "\<forall>g. General g \<notin> set es \<Longrightarrow> last_general es c = c"
  by (induction es c rule: last_general.induct) auto

lemma app_feed_config:
  "map_option in_config (ap_last_instance (app_feed (General g # sent))) = last_general (General g # sent) None"
proof (induction sent rule: rev_induct)
  case Nil
  show ?case
    using app_feed_general [of "[]" g] by (simp add: app_feed_def app_new_def spawn_instance_def app_step_def)
next
  case (snoc e sent)
  obtain i where i: "ap_last_instance (app_feed (General g # sent)) = Some i"
      "ap_done (app_feed (General g # sent)) = None" "follows (General g # sent) i"
    using app_feed_follows by blast
  then have alive: "in_alive i" by (simp add: follows_def)
  show ?case
    using snoc i alive app_feed_general [of "General g # sent"] app_feed_service [OF i(2,1) alive, of e]
    by (cases e) (auto simp: last_general_append spawn_instance_def)
qed

lemma watcher_general:
  assumes "\<exists>g. last_general (w_sent w) None = Some g \<and> same_but_services g (w_old w)"
  shows "\<exists>g. last_general (w_sent (watcher_step rx_open i w)) None = Some g \<and> same_but_services g (w_old (watcher_step rx_open i w))"
proof (cases "\<exists>c. i = FileChanged (Inr c)")
  case False
  then show ?thesis
    using assms by (auto simp: watcher_step_def split: watcher_input.splits sum.splits)
next
  case True
  then obtain new where i: "i = FileChanged (Inr new)" by blast
  obtain g where g: "last_general (w_sent w) None = Some g" "same_but_services g (w_old w)" using assms by blast
  show ?thesis
  proof (cases "calculate_events (w_old w) new")
    case None
    then have "same_but_services (w_old w) new"
      by (simp add: calculate_events_None_iff config_eq_same)
    then show ?thesis
      using g None by (auto simp: i watcher_step_def intro: same_but_services_trans)
  next
    case (Some es)
    then show ?thesis
    proof (cases rule: change_events_cases)
      case 1
      then show ?thesis using g Some by (auto simp: i watcher_step_def last_general_append)
    next
      case 2
      then show ?thesis
        using g Some by (auto simp: i watcher_step_def last_general_append last_general_none intro: same_but_services_trans)
    qed
  qed
qed

lemma watcher_run_general:
  "\<exists>g. last_general (w_sent (watcher_run is (watcher_new c))) None = Some g \<and>
     same_but_services g (w_old (watcher_run is (watcher_new c)))"
proof -
  have "\<exists>g. last_general (w_sent (fold (watcher_step True) is w)) None = Some g \<and> same_but_services g (w_old (fold (watcher_step True) is w))"
    if "\<exists>g. last_general (w_sent w) None = Some g \<and> same_but_services g (w_old w)" for w
    using that by (induction "is" arbitrary: w) (simp_all add: watcher_general)
  then show ?thesis
    unfolding watcher_run_def by (simp add: watcher_new_def)
qed

lemma watcher_sent_prefix: "\<exists>es. w_sent (watcher_run is (watcher_new c)) = General c # es"
proof -
  have "\<exists>es. w_sent (watcher_step True i w) = w_sent w @ es" for i w
    by (auto simp: watcher_step_def Let_def split: watcher_input.split sum.split)
  then have "\<exists>es. w_sent (fold (watcher_step True) is w) = w_sent w @ es" for w
    by (induction "is" arbitrary: w) (simp, metis append.assoc fold_simps(2))
  from this [of "watcher_new c"] show ?thesis
    by (simp add: watcher_run_def watcher_new_def)
qed

lemma same_run_mode: "same_but_services a b \<Longrightarrow> determine_run_mode a args = determine_run_mode b args"
  by (cases "cfg_server a"; cases "cfg_server b"; cases "cfg_client a"; cases "cfg_client b")
    (auto simp: same_but_services_def determine_run_mode_def)



text \<open>
  An instance that has ended by itself, for instance because its address was in use, is not
  replaced: the next general change, the corrected configuration, ends the program, and changes
  of services are dropped.
\<close>

lemma ended_instance_not_replaced:
  assumes "ap_last_instance a = Some i" "ap_done a = None"
  shows "ap_done (app_step (Changed (General cfg) ok) (app_step InstanceEnded a)) = Some (Inl ShutdownNotReceived) \<and>
    ((\<forall>g. e \<noteq> General g) \<longrightarrow> app_step (Changed e ok) (app_step InstanceEnded a) = app_step InstanceEnded a)"
  using assms by (cases e) (simp_all add: app_step_def)

end
