(* ===== verification/Tunnel.thy ===== *)
theory Tunnel
  imports Handshake Server_Pools
begin

text \<open>
  One TCP service from the visitor to the client: the pool and the control channel of the
  server, the control channel of the client, and the data channels that it opens, as tasks that
  run in any order. Every step is a step of the components' own definitions; this theory only
  connects their queues: what the pool requests goes to the control channel, what that writes
  is what the client reads, and the queue of data channels that the handshake fills is the one
  that the pool empties.
\<close>

section \<open>The composed state\<close>

text \<open>
  \<open>tn_opened\<close> counts the data channels whose task has come to an end of its handshake, \<open>tn_lost\<close>
  those of them that did not reach the server; \<open>tn_arrived\<close> are the visitors that the listener
  accepted.
\<close>

record tunnel =
  tn_server :: server
  tn_pool :: tcp_pool
  tn_client :: client_channel
  tn_opened :: nat
  tn_lost :: nat
  tn_arrived :: "nat list"

definition tunnel_start :: "nat \<Rightarrow> server \<Rightarrow> u64 \<Rightarrow> conn \<Rightarrow> tunnel" where
  "tunnel_start pool_size sv timeout c =
     \<lparr>tn_server = sv, tn_pool = tcp_pool_new pool_size, tn_client = client_channel_new timeout c,
      tn_opened = 0, tn_lost = 0, tn_arrived = []\<rparr>"

text \<open>
  The pool has taken a step to \<open>p\<close>: its requests are in the queue of the control channel, and the
  queue of data channels is closed when the pool has ended.
\<close>

definition after_pool :: "nat \<Rightarrow> channel \<Rightarrow> tcp_pool \<Rightarrow> tunnel \<Rightarrow> tunnel" where
  "after_pool i ch p t = t\<lparr>tn_pool := p,
     tn_server := (tn_server t)\<lparr>sv_chans := (sv_chans (tn_server t))(i \<mapsto> ch\<lparr>ch_data := tp_data p,
       ch_requests := ch_requests ch + (tp_requested p - tp_requested (tn_pool t)), ch_pool_open := tp_running p\<rparr>)\<rparr>\<rparr>"

text \<open>
  The control channel has taken a step to \<open>ch'\<close>: what it wrote is on its way to the client, and the
  pool can request data channels while it runs.
\<close>

definition after_control :: "nat \<Rightarrow> channel \<Rightarrow> channel \<Rightarrow> tunnel \<Rightarrow> tunnel" where
  "after_control i ch ch' t = t\<lparr>tn_pool := (tn_pool t)\<lparr>tp_req_open := ch_running ch'\<rparr>,
     tn_server := (tn_server t)\<lparr>sv_chans := (sv_chans (tn_server t))(i \<mapsto> ch')\<rparr>,
     tn_client := (tn_client t)\<lparr>ch_stream := (ch_stream (tn_client t))\<lparr>rx := rx (ch_stream (tn_client t)) @
       drop (length (tx (ch_conn ch))) (tx (ch_conn ch'))\<rparr>\<rparr>\<rparr>"

text \<open>A data channel of the client was handled by the server.\<close>

definition after_open :: "nat \<Rightarrow> server \<Rightarrow> tunnel \<Rightarrow> tunnel" where
  "after_open i sv t = t\<lparr>tn_server := sv, tn_opened := tn_opened t + 1,
     tn_pool := (tn_pool t)\<lparr>tp_data := (case sv_chans sv i of Some ch \<Rightarrow> ch_data ch | None \<Rightarrow> [])\<rparr>\<rparr>"

section \<open>Steps\<close>

text \<open>
  The steps with \<open>True\<close> are the work that is left to do. Those with \<open>False\<close> come from the environment:
  visitors, heartbeats, data channels that break or never reach the server, and whatever else
  happens in the server as long as this channel stays registered.
\<close>

inductive tunnel_step ::
  "bincode \<Rightarrow> (bytes \<Rightarrow> bytes) \<Rightarrow> service_digest \<Rightarrow> handle \<Rightarrow> data_channel_args \<Rightarrow> bool \<Rightarrow> tunnel \<Rightarrow> tunnel \<Rightarrow> bool"
  for B sha256 d h args where
  visitor: "sv_chans (tn_server t) (hd_chan h) = Some ch \<Longrightarrow>
    tunnel_step B sha256 d h args False t ((after_pool (hd_chan h) ch (pool_accept v (tn_pool t)) t)\<lparr>tn_arrived :=
      tn_arrived t @ (if tp_accepted (pool_accept v (tn_pool t)) = tp_accepted (tn_pool t) then [] else [v])\<rparr>)"
| turn: "sv_chans (tn_server t) (hd_chan h) = Some ch \<Longrightarrow> pool_turn B (tn_pool t) \<noteq> tn_pool t \<Longrightarrow>
    tunnel_step B sha256 d h args True t (after_pool (hd_chan h) ch (pool_turn B (tn_pool t)) t)"
| request: "sv_chans (tn_server t) (hd_chan h) = Some ch \<Longrightarrow> ch_running ch \<Longrightarrow> 0 < ch_requests ch \<Longrightarrow>
    tunnel_step B sha256 d h args True t (after_control (hd_chan h) ch (control_channel_step B Requested ch) t)"
| heartbeat: "sv_chans (tn_server t) (hd_chan h) = Some ch \<Longrightarrow>
    tunnel_step B sha256 d h args False t (after_control (hd_chan h) ch (control_channel_step B HeartbeatDue ch) t)"
| command: "rx (ch_stream (tn_client t)) \<noteq> [] \<Longrightarrow>
    tunnel_step B sha256 d h args True t (t\<lparr>tn_client := client_channel_step B sha256 Command (tn_client t)\<rparr>)"
| opened: "tn_opened t < ch_spawned (tn_client t) \<Longrightarrow>
    sv_chans (tn_server t) (hd_chan h) = Some ch \<Longrightarrow> length (ch_data ch) < CHAN_SIZE * 2 \<Longrightarrow>
    tx cc = [] \<Longrightarrow> 2 \<le> wr_left cc \<Longrightarrow> tx sc = [] \<Longrightarrow>
    rx sc = tx (fst (Client.do_data_channel_handshake B args cc)) @ rest \<Longrightarrow>
    handle_connection B sha256 n (tn_server t, sc) = ((sv', sc'), r) \<Longrightarrow>
    tunnel_step B sha256 d h args (2 \<le> wr_left sc) t (after_open (hd_chan h) sv' t)"
| lost: "tn_opened t < ch_spawned (tn_client t) \<Longrightarrow>
    tunnel_step B sha256 d h args False t (t\<lparr>tn_opened := tn_opened t + 1, tn_lost := tn_lost t + 1\<rparr>)"
| others: "server_wf sha256 sv' \<Longrightarrow> (d, da_session_key args, h) \<in> mm_abs (sv_channels sv') \<Longrightarrow>
    sv_chans sv' (hd_chan h) = sv_chans (tn_server t) (hd_chan h) \<Longrightarrow>
    tunnel_step B sha256 d h args False t (t\<lparr>tn_server := sv'\<rparr>)"

inductive_cases tunnel_step_cases: "tunnel_step B sha256 d h args b t t'"

abbreviation tunnel_work where
  "tunnel_work B sha256 d h args \<equiv> tunnel_step B sha256 d h args True"

abbreviation tunnel_runs where
  "tunnel_runs B sha256 d h args \<equiv> (\<lambda>t t'. \<exists>b. tunnel_step B sha256 d h args b t t')\<^sup>*\<^sup>*"

section \<open>What always holds\<close>

text \<open>
  The queues are the same on both sides. While the control channel runs, every request of the
  pool is still queued, on its way as a command, or a data channel that the client started;
  every data channel that was opened is lost, used or in the queue; and the visitors that were
  accepted are paired or waiting, in the order of their arrival.
\<close>

definition linked :: "channel \<Rightarrow> tcp_pool \<Rightarrow> bool" where
  "linked ch p \<longleftrightarrow> tp_data p = ch_data ch \<and> tp_req_open p = ch_running ch \<and> ch_pool_open ch = tp_running p \<and> tp_data_open p"

definition forwards :: "bincode \<Rightarrow> tcp_pool \<Rightarrow> bool" where
  "forwards B p \<longleftrightarrow> (\<forall>c \<in> set (tp_data p). tx c = []) \<and>
     (\<forall>(v, c) \<in> set (tp_pairs p). tx c = enc (d_cmd_codec B) StartForwardTcp)"

definition accounted :: "nat \<Rightarrow> channel \<Rightarrow> control_channel_cmd list \<Rightarrow> tunnel \<Rightarrow> bool" where
  "accounted n ch cmds t \<longleftrightarrow>
     tp_running (tn_pool t) \<and> tp_listening (tn_pool t) \<and>
     tp_requested (tn_pool t) = ch_requests ch + count_list cmds CreateDataChannel + ch_spawned (tn_client t) \<and>
     tp_requested (tn_pool t) = n + length (tn_arrived t) + tp_broken (tn_pool t) \<and>
     tn_opened t = tn_lost t + length (tp_pairs (tn_pool t)) + tp_broken (tn_pool t) + length (tp_data (tn_pool t)) \<and>
     map fst (tp_pairs (tn_pool t)) @ tp_visitors (tn_pool t) = tn_arrived t"

definition registered :: "(bytes \<Rightarrow> bytes) \<Rightarrow> service_digest \<Rightarrow> handle \<Rightarrow> data_channel_args \<Rightarrow> server \<Rightarrow> bool" where
  "registered sha256 d h args sv \<longleftrightarrow> server_wf sha256 sv \<and> (d, da_session_key args, h) \<in> mm_abs (sv_channels sv)"

definition tunnel_inv ::
  "bincode \<Rightarrow> (bytes \<Rightarrow> bytes) \<Rightarrow> service_digest \<Rightarrow> handle \<Rightarrow> data_channel_args \<Rightarrow> nat \<Rightarrow> tunnel \<Rightarrow> bool" where
  "tunnel_inv B sha256 d h args n t \<longleftrightarrow>
     registered sha256 d h args (tn_server t) \<and> ch_done (tn_client t) = None \<and>
     tn_opened t \<le> ch_spawned (tn_client t) \<and> forwards B (tn_pool t) \<and>
     (\<exists>ch cmds. sv_chans (tn_server t) (hd_chan h) = Some ch \<and> linked ch (tn_pool t) \<and>
        rx (ch_stream (tn_client t)) = concat (map (enc (c_cmd_codec B)) cmds) \<and>
        (ch_running ch \<longrightarrow> accounted n ch cmds t))"

lemma tunnel_invE:
  assumes "tunnel_inv B sha256 d h args n t"
  obtains ch cmds where "registered sha256 d h args (tn_server t)" "ch_done (tn_client t) = None"
    "tn_opened t \<le> ch_spawned (tn_client t)" "forwards B (tn_pool t)"
    "sv_chans (tn_server t) (hd_chan h) = Some ch" "linked ch (tn_pool t)"
    "rx (ch_stream (tn_client t)) = concat (map (enc (c_cmd_codec B)) cmds)" "ch_running ch \<Longrightarrow> accounted n ch cmds t"
  using assms by (auto simp: tunnel_inv_def)

lemma registered_chans:
  "registered sha256 d h args sv \<Longrightarrow> sv_chans sv i \<noteq> None \<Longrightarrow> registered sha256 d h args (sv\<lparr>sv_chans := (sv_chans sv)(i \<mapsto> ch)\<rparr>)"
  using only_chans_wf [OF only_chans_update] by (fastforce simp: registered_def)

lemma pool_accept_open:
  "tp_running p \<Longrightarrow> tp_listening p \<Longrightarrow> tp_req_open p \<Longrightarrow>
   pool_accept v p = (if length (tp_visitors p) \<ge> CHAN_SIZE + 2 then p
     else p\<lparr>tp_requested := tp_requested p + 1, tp_visitors := tp_visitors p @ [v], tp_accepted := tp_accepted p + 1\<rparr>)"
  by (simp add: pool_accept_def)

lemma pool_accept_link:
  "tp_data (pool_accept v p) = tp_data p" "tp_pairs (pool_accept v p) = tp_pairs p" "tp_running (pool_accept v p) = tp_running p"
  "tp_req_open (pool_accept v p) = tp_req_open p" "tp_data_open (pool_accept v p) = tp_data_open p"
  "tp_requested p \<le> tp_requested (pool_accept v p)"
  by (simp_all add: pool_accept_def)

lemma pool_turn_link:
  "tp_req_open (pool_turn B p) = tp_req_open p" "tp_data_open (pool_turn B p) = tp_data_open p"
  "tp_requested p \<le> tp_requested (pool_turn B p)"
  by (auto simp: pool_turn_def split: list.split prod.split)

text \<open>A turn of a pool that is connected to both queues, if it does anything.\<close>

lemma pool_turn_cases [consumes 2]:
  assumes "pool_turn B p \<noteq> p" and "tp_data_open p"
  obtains (ends) "tp_running p" "tp_visitors p = []" "\<not> tp_listening p" "pool_turn B p = p\<lparr>tp_running := False\<rparr>"
  | (pairs) v vs c cs where "tp_running p" "tp_visitors p = v # vs" "tp_data p = c # cs" "2 \<le> wr_left c"
      "pool_turn B p = p\<lparr>tp_visitors := vs, tp_data := cs, tp_pairs := tp_pairs p @ [(v, started B c)]\<rparr>"
  | (broken) v vs c cs where "tp_running p" "tp_visitors p = v # vs" "tp_data p = c # cs" "wr_left c < 2" "tp_req_open p"
      "pool_turn B p = p\<lparr>tp_data := cs, tp_requested := tp_requested p + 1, tp_broken := tp_broken p + 1\<rparr>"
  | (gives_up) c cs where "tp_running p" "tp_data p = c # cs" "wr_left c < 2" "\<not> tp_req_open p"
      "pool_turn B p = p\<lparr>tp_data := cs, tp_running := False\<rparr>"
proof (cases "tp_running p")
  case True
  show ?thesis
  proof (cases "tp_visitors p")
    case Nil
    with True assms ends show ?thesis by (auto simp: pool_turn_def split: if_splits)
  next
    case (Cons v vs)
    then obtain c cs where c: "tp_data p = c # cs"
      using True assms by (cases "tp_data p") (auto simp: pool_turn_def)
    have turn: "pool_turn B p =
        (if 2 \<le> wr_left c then p\<lparr>tp_visitors := vs, tp_data := cs, tp_pairs := tp_pairs p @ [(v, started B c)]\<rparr>
         else if tp_req_open p then p\<lparr>tp_data := cs, tp_requested := tp_requested p + 1, tp_broken := tp_broken p + 1\<rparr>
         else p\<lparr>tp_data := cs, tp_running := False\<rparr>)"
      using True by (auto simp: pool_turn_def Cons c write_and_flush_run started_def)
    show ?thesis
      using pairs [OF True Cons c] broken [OF True Cons c] gives_up [OF True c] turn by (metis not_le)
  qed
qed (use assms in \<open>simp add: pool_turn_def\<close>)

lemma forwards_turn: "forwards B p \<Longrightarrow> tp_data_open p \<Longrightarrow> forwards B (pool_turn B p)"
  by (cases "pool_turn B p = p") (auto elim!: pool_turn_cases simp: forwards_def started_def)

section \<open>Every step keeps it\<close>

lemma after_pool_inv:
  assumes "tunnel_inv B sha256 d h args n t" and "sv_chans (tn_server t) (hd_chan h) = Some ch"
    and "forwards B p" and "tp_req_open p = tp_req_open (tn_pool t)" and "tp_data_open p"
    and "\<And>cmds. accounted n ch cmds t \<Longrightarrow> ch_running ch \<Longrightarrow>
      accounted n (ch\<lparr>ch_requests := ch_requests ch + (tp_requested p - tp_requested (tn_pool t))\<rparr>) cmds (t\<lparr>tn_pool := p, tn_arrived := vs\<rparr>)"
  shows "tunnel_inv B sha256 d h args n ((after_pool (hd_chan h) ch p t)\<lparr>tn_arrived := vs\<rparr>)"
proof -
  from assms(1) obtain cmds where inv: "registered sha256 d h args (tn_server t)" "ch_done (tn_client t) = None"
      "tn_opened t \<le> ch_spawned (tn_client t)" "linked ch (tn_pool t)"
      "rx (ch_stream (tn_client t)) = concat (map (enc (c_cmd_codec B)) cmds)" "ch_running ch \<Longrightarrow> accounted n ch cmds t"
    by (rule tunnel_invE) (use assms(2) in auto)
  have "accounted n (ch\<lparr>ch_data := tp_data p, ch_requests := ch_requests ch + (tp_requested p - tp_requested (tn_pool t)),
      ch_pool_open := tp_running p\<rparr>) cmds ((after_pool (hd_chan h) ch p t)\<lparr>tn_arrived := vs\<rparr>)" if "ch_running ch"
    using assms(6) [OF inv(6) [OF that] that] unfolding accounted_def after_pool_def
    by (simp, elim conjE, linarith)
  then show ?thesis
    using inv assms(2-5) registered_chans [OF inv(1), of "hd_chan h"]
    unfolding tunnel_inv_def by (intro conjI exI [of _ cmds]) (auto simp: after_pool_def linked_def)
qed

lemma visitor_inv:
  assumes "tunnel_inv B sha256 d h args n t" and "sv_chans (tn_server t) (hd_chan h) = Some ch"
  shows "tunnel_inv B sha256 d h args n ((after_pool (hd_chan h) ch (pool_accept v (tn_pool t)) t)\<lparr>tn_arrived :=
      tn_arrived t @ (if tp_accepted (pool_accept v (tn_pool t)) = tp_accepted (tn_pool t) then [] else [v])\<rparr>)"
proof (rule after_pool_inv [OF assms])
  show "forwards B (pool_accept v (tn_pool t))"
    using assms(1) by (auto simp: tunnel_inv_def forwards_def pool_accept_link)
  have link: "linked ch (tn_pool t)"
    using assms by (auto simp: tunnel_inv_def)
  then show "tp_data_open (pool_accept v (tn_pool t))"
    by (simp add: linked_def pool_accept_link)
  show "accounted n (ch\<lparr>ch_requests := ch_requests ch + (tp_requested (pool_accept v (tn_pool t)) - tp_requested (tn_pool t))\<rparr>) cmds
      (t\<lparr>tn_pool := pool_accept v (tn_pool t), tn_arrived :=
        tn_arrived t @ (if tp_accepted (pool_accept v (tn_pool t)) = tp_accepted (tn_pool t) then [] else [v])\<rparr>)"
    if "accounted n ch cmds t" "ch_running ch" for cmds
    using that link by (auto simp: accounted_def linked_def pool_accept_open)
qed (simp add: pool_accept_link)

lemma turn_inv:
  assumes "tunnel_inv B sha256 d h args n t" and "sv_chans (tn_server t) (hd_chan h) = Some ch" and "pool_turn B (tn_pool t) \<noteq> tn_pool t"
  shows "tunnel_inv B sha256 d h args n (after_pool (hd_chan h) ch (pool_turn B (tn_pool t)) t)"
proof -
  have link: "linked ch (tn_pool t)"
    using assms by (auto simp: tunnel_inv_def)
  then have "tp_data_open (tn_pool t)" by (simp add: linked_def)
  with assms(3) have "accounted n (ch\<lparr>ch_requests := ch_requests ch + (tp_requested (pool_turn B (tn_pool t)) - tp_requested (tn_pool t))\<rparr>) cmds
      (t\<lparr>tn_pool := pool_turn B (tn_pool t), tn_arrived := tn_arrived t\<rparr>)"
    if "accounted n ch cmds t" "ch_running ch" for cmds
    using that link by (cases rule: pool_turn_cases) (auto simp: accounted_def linked_def)
  moreover have "forwards B (pool_turn B (tn_pool t))" "tp_data_open (pool_turn B (tn_pool t))"
    using assms(1) link forwards_turn by (auto simp: tunnel_inv_def linked_def pool_turn_link)
  ultimately have "tunnel_inv B sha256 d h args n ((after_pool (hd_chan h) ch (pool_turn B (tn_pool t)) t)\<lparr>tn_arrived := tn_arrived t\<rparr>)"
    using after_pool_inv [OF assms(1,2)] by (simp add: pool_turn_link)
  then show ?thesis by (simp add: after_pool_def)
qed

text \<open>What a turn of the control channel does: it writes at most one command, and whole.\<close>

lemma control_turn:
  assumes "ch_running ch"
  shows "\<exists>cmds. tx (ch_conn (control_channel_step B e ch)) = tx (ch_conn ch) @ concat (map (enc (c_cmd_codec B)) cmds) \<and>
    ch_data (control_channel_step B e ch) = ch_data ch \<and> ch_pool_open (control_channel_step B e ch) = ch_pool_open ch \<and>
    length cmds \<le> 1 \<and>
    (ch_running (control_channel_step B e ch) \<longrightarrow>
       ch_requests (control_channel_step B e ch) + count_list cmds CreateDataChannel = ch_requests ch) \<and>
    (e = Requested \<longrightarrow> ch_requests (control_channel_step B e ch) = ch_requests ch - 1)"
proof (cases e)
  case Requested
  with assms show ?thesis
    by (auto simp: control_channel_step_def write_and_flush_run intro: exI [of _ "[]"] exI [of _ "[CreateDataChannel]"])
next
  case HeartbeatDue
  with assms show ?thesis
    by (auto simp: control_channel_step_def write_and_flush_run intro: exI [of _ "[]"] exI [of _ "[HeartBeat]"])
qed (use assms in \<open>auto simp: control_channel_step_def intro: exI [of _ "[]"]\<close>)

lemma control_inv:
  assumes "tunnel_inv B sha256 d h args n t" and "sv_chans (tn_server t) (hd_chan h) = Some ch"
  shows "tunnel_inv B sha256 d h args n (after_control (hd_chan h) ch (control_channel_step B e ch) t)"
proof (cases "ch_running ch")
  case False
  then have step: "control_channel_step B e ch = ch" by (simp add: control_channel_step_def)
  have "(sv_chans (tn_server t))(hd_chan h \<mapsto> ch) = sv_chans (tn_server t)"
    using assms(2) by (simp add: fun_upd_idem)
  moreover have "tp_req_open (tn_pool t) = ch_running ch"
    using assms by (auto simp: tunnel_inv_def linked_def)
  ultimately show ?thesis
    using assms(1) by (simp add: after_control_def step flip: \<open>tp_req_open (tn_pool t) = ch_running ch\<close>)
next
  case True
  from assms(1) obtain cmds where inv: "registered sha256 d h args (tn_server t)" "ch_done (tn_client t) = None"
      "tn_opened t \<le> ch_spawned (tn_client t)" "forwards B (tn_pool t)" "linked ch (tn_pool t)"
      "rx (ch_stream (tn_client t)) = concat (map (enc (c_cmd_codec B)) cmds)" "accounted n ch cmds t"
    by (rule tunnel_invE) (use assms(2) True in auto)
  obtain cmds' where turn: "tx (ch_conn (control_channel_step B e ch)) = tx (ch_conn ch) @ concat (map (enc (c_cmd_codec B)) cmds')"
      "ch_data (control_channel_step B e ch) = ch_data ch" "ch_pool_open (control_channel_step B e ch) = ch_pool_open ch"
      "ch_running (control_channel_step B e ch) \<Longrightarrow>
        ch_requests (control_channel_step B e ch) + count_list cmds' CreateDataChannel = ch_requests ch"
    using control_turn [OF True, of B e] by blast
  show ?thesis
    unfolding tunnel_inv_def using inv turn registered_chans [OF inv(1), of "hd_chan h"] assms(2)
    by (intro conjI exI [of _ "cmds @ cmds'"] exI [of _ "control_channel_step B e ch"]) (auto simp: after_control_def linked_def accounted_def forwards_def)
qed

lemma command_turn:
  assumes "bincode_ok B" and "ch_done cl = None" and "rx (ch_stream cl) = concat (map (enc (c_cmd_codec B)) (cmd # cmds))"
  shows "client_channel_step B sha256 Command cl =
    cl\<lparr>ch_stream := (ch_stream cl)\<lparr>rx := concat (map (enc (c_cmd_codec B)) cmds)\<rparr>,
      ch_spawned := ch_spawned cl + count_list [cmd] CreateDataChannel\<rparr>"
proof -
  have "read_control_cmd B sha256 (ch_stream cl) = ((ch_stream cl)\<lparr>rx := concat (map (enc (c_cmd_codec B)) cmds)\<rparr>, Inr cmd)"
    by (rule read_control_cmd_ok [OF assms(1)]) (simp add: assms(3))
  then show ?thesis
    using assms(2) by (cases cmd) (simp_all add: client_channel_step_def)
qed

lemma command_inv:
  assumes "bincode_ok B" and "tunnel_inv B sha256 d h args n t" and "rx (ch_stream (tn_client t)) \<noteq> []"
  shows "tunnel_inv B sha256 d h args n (t\<lparr>tn_client := client_channel_step B sha256 Command (tn_client t)\<rparr>)"
proof -
  from assms(2) obtain ch cmds where inv: "registered sha256 d h args (tn_server t)" "ch_done (tn_client t) = None"
      "tn_opened t \<le> ch_spawned (tn_client t)" "forwards B (tn_pool t)"
      "sv_chans (tn_server t) (hd_chan h) = Some ch" "linked ch (tn_pool t)"
      "rx (ch_stream (tn_client t)) = concat (map (enc (c_cmd_codec B)) cmds)" "ch_running ch \<Longrightarrow> accounted n ch cmds t"
    by (rule tunnel_invE) auto
  then obtain cmd cmds' where cmds: "cmds = cmd # cmds'"
    using assms(3) by (cases cmds) auto
  show ?thesis
    unfolding tunnel_inv_def
    using command_turn [OF assms(1) inv(2) inv(7) [unfolded cmds]] inv cmds
    by (intro conjI exI [of _ ch] exI [of _ cmds']) (auto simp: accounted_def)
qed

lemma opened_inv:
  assumes "bincode_ok B" and "sha_ok sha256" and "tunnel_inv B sha256 d h args n t" and "tn_opened t < ch_spawned (tn_client t)"
    and "sv_chans (tn_server t) (hd_chan h) = Some ch" and "length (ch_data ch) < CHAN_SIZE * 2"
    and "tx cc = []" and "2 \<le> wr_left cc" and "tx sc = []"
    and "rx sc = tx (fst (Client.do_data_channel_handshake B args cc)) @ rest"
    and "handle_connection B sha256 k (tn_server t, sc) = ((sv', sc'), r)"
  shows "tunnel_inv B sha256 d h args n (after_open (hd_chan h) sv' t)"
    and "after_open (hd_chan h) sv' t = t\<lparr>tn_server := sv', tn_opened := tn_opened t + 1,
      tn_pool := (tn_pool t)\<lparr>tp_data := tp_data (tn_pool t) @ (if tp_running (tn_pool t) then [sc\<lparr>rx := rest\<rparr>] else [])\<rparr>\<rparr>"
    and "\<exists>ch'. sv_chans sv' (hd_chan h) = Some ch' \<and> ch_requests ch' = ch_requests ch \<and> ch_running ch' = ch_running ch \<and> ch_conn ch' = ch_conn ch"
proof -
  from assms(3) obtain cmds where inv: "registered sha256 d h args (tn_server t)" "ch_done (tn_client t) = None"
      "forwards B (tn_pool t)" "linked ch (tn_pool t)"
      "rx (ch_stream (tn_client t)) = concat (map (enc (c_cmd_codec B)) cmds)" "ch_running ch \<Longrightarrow> accounted n ch cmds t"
    by (rule tunnel_invE) (use assms(5) in auto)
  let ?ch = "ch\<lparr>ch_data := ch_data ch @ [sc\<lparr>rx := rest\<rparr>]\<rparr>"
  have "sv' = (if tp_running (tn_pool t) then (tn_server t)\<lparr>sv_chans := (sv_chans (tn_server t))(hd_chan h \<mapsto> ?ch)\<rparr> else tn_server t)"
    using data_channel_run [OF assms(1,2), of "tn_server t" d "da_session_key args" h ch sc rest k] assms(5-11) inv(1,4)
    by (auto simp: data_channel_hello registered_def linked_def CHAN_SIZE_def split: if_splits)
  moreover have "registered sha256 d h args ((tn_server t)\<lparr>sv_chans := (sv_chans (tn_server t))(hd_chan h \<mapsto> ?ch)\<rparr>)"
    using registered_chans [OF inv(1)] assms(5) by simp
  ultimately show "tunnel_inv B sha256 d h args n (after_open (hd_chan h) sv' t)"
    and "after_open (hd_chan h) sv' t = t\<lparr>tn_server := sv', tn_opened := tn_opened t + 1,
      tn_pool := (tn_pool t)\<lparr>tp_data := tp_data (tn_pool t) @ (if tp_running (tn_pool t) then [sc\<lparr>rx := rest\<rparr>] else [])\<rparr>\<rparr>"
    and "\<exists>ch'. sv_chans sv' (hd_chan h) = Some ch' \<and> ch_requests ch' = ch_requests ch \<and> ch_running ch' = ch_running ch \<and> ch_conn ch' = ch_conn ch"
    using inv assms(4,5,9)
    by (auto simp: tunnel_inv_def after_open_def linked_def forwards_def accounted_def split: if_splits)
qed

lemma tunnel_step_inv [wf_intros]:
  assumes "bincode_ok B" and "sha_ok sha256" and "tunnel_inv B sha256 d h args n t" and "tunnel_step B sha256 d h args b t t'"
  shows "tunnel_inv B sha256 d h args n t'"
  using assms(4)
proof cases
  case (opened ch cc sc rest k sv' sc' r)
  then show ?thesis using opened_inv(1) [OF assms(1-3)] by simp
next
  case lost
  then show ?thesis using assms(3) by (auto simp: tunnel_inv_def accounted_def)
next
  case (others sv')
  then show ?thesis using assms(3) by (auto simp: tunnel_inv_def registered_def accounted_def)
qed (use assms(3) in \<open>simp_all add: visitor_inv turn_inv control_inv command_inv [OF assms(1)]\<close>)

lemma tunnel_start_inv:
  assumes "registered sha256 d h args sv" and "sv_chans sv (hd_chan h) = Some (new_channel c0 cfg hb)" and "rx c = []"
  shows "tunnel_inv B sha256 d h args (unat (ss_pool_size cfg)) (tunnel_start (unat (ss_pool_size cfg)) sv timeout c)"
  using assms
  by (auto simp: tunnel_inv_def tunnel_start_def client_channel_new_def linked_def forwards_def accounted_def
      new_channel_def tcp_pool_new_def intro!: exI [of _ "[]"])

lemma tunnel_runs_inv:
  assumes "bincode_ok B" and "sha_ok sha256" and "tunnel_runs B sha256 d h args t t'" and "tunnel_inv B sha256 d h args n t"
  shows "tunnel_inv B sha256 d h args n t'"
  using assms(3,4) by (induction rule: rtranclp_induct) (auto intro: tunnel_step_inv [OF assms(1,2)])

section \<open>The work comes to an end\<close>

text \<open>
  The weight of what is left to do. A request weighs more than the command it becomes, that more
  than the data channel that the client then opens, and that more than the pair; a broken data
  channel weighs more than the request that replaces it.
\<close>

definition cmd_weight :: "bincode \<Rightarrow> nat" where
  "cmd_weight B = 3 * length (enc (c_cmd_codec B) CreateDataChannel)"

definition tunnel_weight :: "bincode \<Rightarrow> handle \<Rightarrow> tunnel \<Rightarrow> nat" where
  "tunnel_weight B h t =
     (case sv_chans (tn_server t) (hd_chan h) of None \<Rightarrow> 0 | Some ch \<Rightarrow> (cmd_weight B + 1) * ch_requests ch) +
     3 * length (rx (ch_stream (tn_client t))) + 2 * (ch_spawned (tn_client t) - tn_opened t) +
     sum_list (map (\<lambda>c. if 2 \<le> wr_left c then 1 else cmd_weight B + 2) (tp_data (tn_pool t))) +
     (if tp_running (tn_pool t) then 1 else 0)"

lemma cmd_length:
  assumes "bincode_ok B"
  shows "length (enc (c_cmd_codec B) cmd) = length (enc (c_cmd_codec B) CreateDataChannel)" and "enc (c_cmd_codec B) cmd \<noteq> []"
proof -
  obtain k where w: "\<And>x. length (enc (c_cmd_codec B) x) = k" and ok: "codec_ok (c_cmd_codec B) (\<lambda>_. True)"
    using assms by (auto simp: bincode_ok_def fixed_width_def)
  have "enc (c_cmd_codec B) CreateDataChannel \<noteq> enc (c_cmd_codec B) HeartBeat"
    using ok unfolding codec_ok_def by (metis control_channel_cmd.distinct(1) option.inject)
  then have "k \<noteq> 0" using w by (metis length_0_conv)
  then show "enc (c_cmd_codec B) cmd \<noteq> []"
    using w [of cmd] by auto
  show "length (enc (c_cmd_codec B) cmd) = length (enc (c_cmd_codec B) CreateDataChannel)"
    by (simp add: w)
qed

lemma turn_weight:
  assumes "linked ch (tn_pool t)" and "sv_chans (tn_server t) (hd_chan h) = Some ch" and "pool_turn B (tn_pool t) \<noteq> tn_pool t"
  shows "tunnel_weight B h (after_pool (hd_chan h) ch (pool_turn B (tn_pool t)) t) < tunnel_weight B h t"
proof -
  have "tp_data_open (tn_pool t)" using assms(1) by (simp add: linked_def)
  with assms(3) show ?thesis
    by (cases rule: pool_turn_cases) (auto simp: tunnel_weight_def after_pool_def assms(2))
qed

lemma request_weight:
  assumes "bincode_ok B" and "sv_chans (tn_server t) (hd_chan h) = Some ch" and "ch_running ch" and "0 < ch_requests ch"
  shows "tunnel_weight B h (after_control (hd_chan h) ch (control_channel_step B Requested ch) t) < tunnel_weight B h t"
proof -
  obtain cmds where "tx (ch_conn (control_channel_step B Requested ch)) = tx (ch_conn ch) @ concat (map (enc (c_cmd_codec B)) cmds)"
      "length cmds \<le> 1" "ch_requests (control_channel_step B Requested ch) = ch_requests ch - 1"
    using control_turn [OF assms(3), of B Requested] by blast
  moreover from this(2) have "3 * length (concat (map (enc (c_cmd_codec B)) cmds)) \<le> cmd_weight B"
    using cmd_length(1) [OF assms(1), of "hd cmds"] by (cases cmds) (simp_all add: cmd_weight_def)
  moreover obtain q where "ch_requests ch = Suc q" using assms(4) gr0_conv_Suc by blast
  ultimately show ?thesis
    by (simp add: tunnel_weight_def after_control_def assms(2))
qed

lemma command_weight:
  assumes "bincode_ok B" and "tunnel_inv B sha256 d h args n t" and "rx (ch_stream (tn_client t)) \<noteq> []"
  shows "tunnel_weight B h (t\<lparr>tn_client := client_channel_step B sha256 Command (tn_client t)\<rparr>) < tunnel_weight B h t"
proof -
  from assms(2) obtain cmds where inv: "ch_done (tn_client t) = None" "tn_opened t \<le> ch_spawned (tn_client t)"
      "rx (ch_stream (tn_client t)) = concat (map (enc (c_cmd_codec B)) cmds)"
    by (auto simp: tunnel_inv_def)
  then obtain cmd cmds' where cmds: "cmds = cmd # cmds'"
    using assms(3) by (cases cmds) auto
  show ?thesis
    using command_turn [OF assms(1) inv(1) inv(3) [unfolded cmds]] inv cmds cmd_length(2) [OF assms(1), of cmd]
    by (cases "enc (c_cmd_codec B) cmd") (auto simp: tunnel_weight_def)
qed

lemma work_weight:
  assumes "bincode_ok B" and "sha_ok sha256" and "tunnel_inv B sha256 d h args n t" and "tunnel_work B sha256 d h args t t'"
  shows "tunnel_weight B h t' < tunnel_weight B h t"
  using assms(4)
proof cases
  case (turn ch)
  then show ?thesis using assms(3) turn_weight by (auto simp: tunnel_inv_def)
next
  case (opened ch cc sc rest k sv' sc' r)
  note after = opened_inv(2,3) [OF assms(1-3) opened(3-10)]
  then obtain ch' where "sv_chans sv' (hd_chan h) = Some ch'" "ch_requests ch' = ch_requests ch" by blast
  then show ?thesis
    using opened(1-4) after(1) by (auto simp: tunnel_weight_def)
qed (use assms in \<open>simp_all add: request_weight command_weight\<close>)

interpretation tunnel: settling "tunnel_work B sha256 d h args"
  "\<lambda>t. bincode_ok B \<and> sha_ok sha256 \<and> tunnel_inv B sha256 d h args n t" "tunnel_weight B h" for B sha256 d h args n
  by unfold_locales (auto intro: tunnel_step_inv work_weight)

text \<open>The client's end of a data channel that was paired with a visitor.\<close>

lemma forwarded_client:
  assumes "bincode_ok B" and "cs_service_type (da_service args) \<in> {Tcp, Http, Https, Tcpmux, Stcp}"
    and "2 \<le> wr_left cc" and "rx cc = enc (d_cmd_codec B) StartForwardTcp @ payload"
  shows "snd (run_data_channel B sha256 args cc) = Inr (ForwardTcp (cs_local_addr (da_service args)))"
    and "rx (fst (run_data_channel B sha256 args cc)) = payload"
proof -
  let ?hello = "enc (hello_codec B) (DataChannelHello CURRENT_PROTO_VERSION (da_session_key args))"
  let ?cc = "cc\<lparr>tx := tx cc @ ?hello, wr_left := wr_left cc - 2\<rparr>"
  have "read_data_cmd B sha256 ?cc = (?cc\<lparr>rx := payload\<rparr>, Inr StartForwardTcp)"
    by (rule read_data_cmd_ok [OF assms(1)]) (simp add: assms(4))
  then show "snd (run_data_channel B sha256 args cc) = Inr (ForwardTcp (cs_local_addr (da_service args)))"
    "rx (fst (run_data_channel B sha256 args cc)) = payload"
    using assms(2,3)
    by (auto simp: run_data_channel_def Client.do_data_channel_handshake_def cwrite_ok sbind_def smap_err_def sret_def)
qed

lemma pool_turn_idle:
  assumes "tp_running p" and "tp_visitors p = v # vs" and "pool_turn B p = p"
  shows "tp_data p = []"
proof (cases "tp_data p")
  case (Cons c cs)
  then have "tp_data (pool_turn B p) = cs"
    using assms(1,2) by (simp add: pool_turn_def split: prod.split)
  with assms(3) Cons show ?thesis by simp
qed

text \<open>When nothing is left to do, a visitor that waits is one whose data channel was lost.\<close>

lemma at_rest:
  assumes "bincode_ok B" and "tunnel_inv B sha256 d h args n t" and "\<forall>u. \<not> tunnel_work B sha256 d h args t u"
    and "sv_chans (tn_server t) (hd_chan h) = Some ch" and "ch_running ch"
  shows "map fst (tp_pairs (tn_pool t)) @ tp_visitors (tn_pool t) = tn_arrived t"
    and "length (tp_visitors (tn_pool t)) \<le> tn_lost t - n"
proof -
  from assms(2) obtain cmds where inv: "linked ch (tn_pool t)" "tn_opened t \<le> ch_spawned (tn_client t)"
      "rx (ch_stream (tn_client t)) = concat (map (enc (c_cmd_codec B)) cmds)" "accounted n ch cmds t"
    using assms(4,5) by (auto simp: tunnel_inv_def)
  then show "map fst (tp_pairs (tn_pool t)) @ tp_visitors (tn_pool t) = tn_arrived t"
    by (simp add: accounted_def)
  then have arrived: "length (tn_arrived t) = length (tp_pairs (tn_pool t)) + length (tp_visitors (tn_pool t))"
    by (metis length_append length_map)
  have "rx (ch_stream (tn_client t)) = []" "ch_requests ch = 0"
    using assms(3-5) command request by (metis, metis gr0I)
  then have none: "cmds = []" "ch_requests ch = 0"
    using inv(3) cmd_length(2) [OF assms(1)] by (cases cmds; auto)+
  have turn: "pool_turn B (tn_pool t) = tn_pool t"
    using assms(3) turn [OF assms(4)] by blast
  show "length (tp_visitors (tn_pool t)) \<le> tn_lost t - n"
  proof (cases "tp_visitors (tn_pool t)")
    case (Cons v vs)
    then have data: "tp_data (tn_pool t) = []"
      using pool_turn_idle [OF _ Cons turn] inv(4) by (simp add: accounted_def)
    let ?cc = "\<lparr>rx = [], tx = [], wr_left = 2\<rparr>"
    let ?sc = "\<lparr>rx = tx (fst (Client.do_data_channel_handshake B args ?cc)) @ [], tx = [], wr_left = 2\<rparr>"
    obtain sv' sc' r where "handle_connection B sha256 [] (tn_server t, ?sc) = ((sv', sc'), r)"
      by (metis prod.exhaust_sel)
    then have "\<not> tn_opened t < ch_spawned (tn_client t)"
      using assms(3) opened [OF _ assms(4), of ?cc ?sc B args "[]" sha256 "[]" sv' sc' r d] inv(1) data
      by (auto simp: linked_def CHAN_SIZE_def)
    with inv(2,4) none data arrived show ?thesis
      by (simp add: accounted_def, elim conjE, linarith)
  qed simp
qed

text \<open>
  A control connection that lasts for the work that is left survives it, and the work adds no
  visitors and loses no data channels.
\<close>

definition lasting :: "bincode \<Rightarrow> handle \<Rightarrow> tunnel \<Rightarrow> bool" where
  "lasting B h t \<longleftrightarrow> (\<exists>ch. sv_chans (tn_server t) (hd_chan h) = Some ch \<and> ch_running ch \<and> 2 * tunnel_weight B h t \<le> wr_left (ch_conn ch))"

lemma work_lasts:
  assumes "bincode_ok B" and "sha_ok sha256" and "tunnel_inv B sha256 d h args n t" and "lasting B h t" and "tunnel_work B sha256 d h args t t'"
  shows "lasting B h t' \<and> tn_arrived t' = tn_arrived t \<and> tn_lost t' = tn_lost t"
proof -
  note less = work_weight [OF assms(1-3,5)]
  obtain ch where ch: "sv_chans (tn_server t) (hd_chan h) = Some ch" "ch_running ch" "2 * tunnel_weight B h t \<le> wr_left (ch_conn ch)"
    using assms(4) by (auto simp: lasting_def)
  from assms(5)
  have "(\<exists>ch'. sv_chans (tn_server t') (hd_chan h) = Some ch' \<and> ch_running ch' \<and> wr_left (ch_conn ch) \<le> wr_left (ch_conn ch') + 2) \<and>
    tn_arrived t' = tn_arrived t \<and> tn_lost t' = tn_lost t"
  proof cases
    case (turn ch1)
    then show ?thesis using ch by (simp add: after_pool_def)
  next
    case (request ch1)
    then have "2 \<le> wr_left (ch_conn ch)" using less ch by simp
    then show ?thesis using request ch by (simp add: after_control_def control_channel_step_def write_and_flush_run)
  next
    case command
    then show ?thesis using ch by simp
  next
    case (opened ch1 cc sc rest k sv' sc' r)
    then show ?thesis using opened_inv(3) [OF assms(1-3) opened(3-10)] ch by (auto simp: after_open_def)
  qed simp_all
  then show ?thesis
    using less ch(3) by (auto simp: lasting_def intro: le_trans)
qed

interpretation served: settling "tunnel_work B sha256 d h args"
  "\<lambda>t. bincode_ok B \<and> sha_ok sha256 \<and> tunnel_inv B sha256 d h args n t \<and> lasting B h t \<and> tn_arrived t = vs \<and> tn_lost t = l"
  "tunnel_weight B h" for B sha256 d h args n vs l
  by unfold_locales (auto intro: tunnel_step_inv work_weight dest: work_lasts)

section \<open>Properties\<close>

text \<open>
  C4. The work for the visitors of a TCP service comes to an end. In every state that the server
  and the client reach together from an established control channel, the number of further
  steps of their tasks is bounded, unless the environment adds to them, and whichever order
  they are taken in they lead to a state in which nothing is left to do.
\<close>

theorem tunnel_settles:
  assumes "bincode_ok B" and "sha_ok sha256" and "server_wf sha256 sv" and "(d, da_session_key args, h) \<in> mm_abs (sv_channels sv)"
    and "sv_chans sv (hd_chan h) = Some (new_channel c0 (hd_service h) hb)" and "pool_of (hd_service h) = TcpPool addr" and "rx c = []"
    and "tunnel_runs B sha256 d h args (tunnel_start (unat (ss_pool_size (hd_service h))) sv timeout c) t"
  shows "(\<forall>k t'. (tunnel_work B sha256 d h args ^^ k) t t' \<longrightarrow> k \<le> tunnel_weight B h t) \<and>
    (\<exists>t'. (tunnel_work B sha256 d h args)\<^sup>*\<^sup>* t t' \<and> (\<forall>u. \<not> tunnel_work B sha256 d h args t' u))"
proof -
  have "tunnel_inv B sha256 d h args (unat (ss_pool_size (hd_service h))) t"
    using tunnel_runs_inv [OF assms(1,2,8)] tunnel_start_inv [OF _ assms(5,7)] assms(3,4) by (simp add: registered_def)
  with assms(1,2) have inv: "bincode_ok B \<and> sha_ok sha256 \<and> tunnel_inv B sha256 d h args (unat (ss_pool_size (hd_service h))) t"
    by simp
  show ?thesis
    using tunnel.steps_bounded [OF _ inv] tunnel.settles [OF inv] by (meson add_leD2)
qed

text \<open>
  C2. Every visitor of a TCP service is served. From every state that the server and the client
  reach together, while the control channel runs and its connection takes as many writes as
  there is work, the tasks of both come to a state with nothing left to do, however they are
  scheduled, and there the visitors that the listener accepted are paired with data channels in
  the order of their arrival, except for the last ones, as many as data channels of the client
  were lost beyond the size of the pool. The client's end of every pair is told to forward and
  connects to the local address, with what the visitor sends still to be read.
\<close>

theorem visitors_served:
  assumes "bincode_ok B" and "sha_ok sha256" and "server_wf sha256 sv" and "(d, da_session_key args, h) \<in> mm_abs (sv_channels sv)"
    and "sv_chans sv (hd_chan h) = Some (new_channel c0 (hd_service h) hb)" and "pool_of (hd_service h) = TcpPool addr" and "rx c = []"
    and "cs_service_type (da_service args) \<in> {Tcp, Http, Https, Tcpmux, Stcp}"
    and "tunnel_runs B sha256 d h args (tunnel_start (unat (ss_pool_size (hd_service h))) sv timeout c) t"
    and "lasting B h t"
    and "(tunnel_work B sha256 d h args)\<^sup>*\<^sup>* t t'" and "\<forall>u. \<not> tunnel_work B sha256 d h args t' u"
  shows "map fst (tp_pairs (tn_pool t')) @ tp_visitors (tn_pool t') = tn_arrived t \<and>
    length (tp_visitors (tn_pool t')) \<le> tn_lost t - unat (ss_pool_size (hd_service h)) \<and>
    (\<forall>(v, dc) \<in> set (tp_pairs (tn_pool t')). \<forall>cc payload. 2 \<le> wr_left cc \<and> rx cc = tx dc @ payload \<longrightarrow>
       snd (run_data_channel B sha256 args cc) = Inr (ForwardTcp (cs_local_addr (da_service args))) \<and>
       rx (fst (run_data_channel B sha256 args cc)) = payload)"
proof -
  let ?n = "unat (ss_pool_size (hd_service h))"
  have "tunnel_inv B sha256 d h args ?n t"
    using tunnel_runs_inv [OF assms(1,2,9)] tunnel_start_inv [OF _ assms(5,7)] assms(3,4) by (simp add: registered_def)
  then have rest: "tunnel_inv B sha256 d h args ?n t'" "lasting B h t'" "tn_arrived t' = tn_arrived t" "tn_lost t' = tn_lost t"
    using served.steps_invar [OF assms(11), of ?n "tn_arrived t" "tn_lost t"] assms(1,2,10) by auto
  then obtain ch where "sv_chans (tn_server t') (hd_chan h) = Some ch" "ch_running ch"
    by (auto simp: lasting_def)
  note paired = at_rest [OF assms(1) rest(1) assms(12) this]
  have "\<forall>(v, dc) \<in> set (tp_pairs (tn_pool t')). tx dc = enc (d_cmd_codec B) StartForwardTcp"
    using rest(1) by (simp add: tunnel_inv_def forwards_def)
  then show ?thesis
    using paired rest(3,4) forwarded_client [OF assms(1,8)] by fastforce
qed

text \<open>A run with one visitor and a pool that requests nothing in advance.\<close>

definition example_tunnel_handle :: handle where
  "example_tunnel_handle = example_handle\<lparr>hd_service := (hd_service example_handle)\<lparr>ss_pool_count := Some 0\<rparr>\<rparr>"

definition example_tunnel_server :: "server \<Rightarrow> bool" where
  "example_tunnel_server sv \<longleftrightarrow> registered zero_sha (replicate 32 0) example_tunnel_handle example_args sv \<and>
     sv_chans sv = [0 \<mapsto> new_channel \<lparr>rx = [], tx = [], wr_left = 30\<rparr> (hd_service example_tunnel_handle) 30]"

abbreviation example_start :: "server \<Rightarrow> tunnel" where
  "example_start sv \<equiv> tunnel_start (unat (ss_pool_size (hd_service example_tunnel_handle))) sv 40 \<lparr>rx = [], tx = [], wr_left = 0\<rparr>"

lemma example_tunnel_service:
  "ss_pool_size (hd_service example_tunnel_handle) = 0" "hd_chan example_tunnel_handle = 0"
  "\<exists>a. pool_of (hd_service example_tunnel_handle) = TcpPool a"
  by (simp_all add: example_tunnel_handle_def example_handle_def ss_pool_size_def pool_of_def example_defs)

lemma example_tunnel_server_ex: "\<exists>sv. example_tunnel_server sv"
proof -
  let ?z = "replicate 32 0 :: bytes"
  obtain m :: "(bytes, bytes, handle) multi_map" where m: "mm_wf m" "mm_abs m = insert (?z, ?z, example_tunnel_handle) (mm_abs mm_new)"
    using mm.ins_fresh [OF mm.invar_emp, of ?z ?z example_tunnel_handle] by (auto simp: mm.items_emp)
  have "session_key_of zero_sha (hd_service example_tunnel_handle) ?z"
    unfolding session_key_of_def using Server_Props.example_service(2)
    by (intro exI [of _ "''t''"] exI [of _ ?z]) (simp add: example_tunnel_handle_def example_handle_def digest_def HASH_WIDTH_IN_BYTES_def)
  then have "example_tunnel_server (example_sv\<lparr>sv_channels := m, sv_next := 1,
      sv_chans := [0 \<mapsto> new_channel \<lparr>rx = [], tx = [], wr_left = 30\<rparr> (hd_service example_tunnel_handle) 30]\<rparr>)"
    using m by (simp add: example_tunnel_server_def registered_def server_wf_def mm.items_emp example_args_def example_tunnel_service)
  then show ?thesis by blast
qed

definition example_visited :: "server \<Rightarrow> tunnel" where
  "example_visited sv =
     (let ch = new_channel \<lparr>rx = [], tx = [], wr_left = 30\<rparr> (hd_service example_tunnel_handle) 30; t = example_start sv
      in (after_pool 0 ch (pool_accept 7 (tn_pool t)) t)\<lparr>tn_arrived := [7]\<rparr>)"

lemma example_visited:
  assumes "example_tunnel_server sv"
  shows "tunnel_runs bincode_fixint zero_sha (replicate 32 0) example_tunnel_handle example_args (example_start sv) (example_visited sv)"
    and "lasting bincode_fixint example_tunnel_handle (example_visited sv)"
    and "tn_arrived (example_visited sv) = [7]" and "tn_lost (example_visited sv) = 0"
proof -
  let ?ch = "new_channel \<lparr>rx = [], tx = [], wr_left = 30\<rparr> (hd_service example_tunnel_handle) 30"
  have sv: "sv_chans sv = [0 \<mapsto> ?ch]"
    using assms by (simp add: example_tunnel_server_def)
  note defs = example_visited_def tunnel_start_def tcp_pool_new_def client_channel_new_def new_channel_def after_pool_def
    pool_accept_def CHAN_SIZE_def sv example_tunnel_service
  have "tunnel_step bincode_fixint zero_sha (replicate 32 0) example_tunnel_handle example_args False (example_start sv) (example_visited sv)"
    using visitor [of "example_start sv" example_tunnel_handle ?ch bincode_fixint zero_sha "replicate 32 0" example_args 7] by (simp add: defs)
  then show "tunnel_runs bincode_fixint zero_sha (replicate 32 0) example_tunnel_handle example_args (example_start sv) (example_visited sv)"
    by blast
  have "length (enc (c_cmd_codec bincode_fixint) CreateDataChannel) = 4"
    by (simp add: bincode_fixint_def enc_enum_def Let_def)
  then show "lasting bincode_fixint example_tunnel_handle (example_visited sv)"
    by (simp add: lasting_def tunnel_weight_def cmd_weight_def defs)
  show "tn_arrived (example_visited sv) = [7]" "tn_lost (example_visited sv) = 0"
    by (simp_all add: defs)
qed

lemma example_tunnel_server_facts:
  assumes "example_tunnel_server sv"
  shows "server_wf zero_sha sv" and "(replicate 32 0, da_session_key example_args, example_tunnel_handle) \<in> mm_abs (sv_channels sv)"
    and "sv_chans sv (hd_chan example_tunnel_handle) =
      Some (new_channel \<lparr>rx = [], tx = [], wr_left = 30\<rparr> (hd_service example_tunnel_handle) 30)"
  using assms by (simp_all add: example_tunnel_server_def registered_def example_tunnel_service)

theorem tunnel_settles_witness:
  "\<exists>sv t. example_tunnel_server sv \<and>
     (tunnel_work bincode_fixint zero_sha (replicate 32 0) example_tunnel_handle example_args)\<^sup>*\<^sup>* (example_visited sv) t \<and>
     (\<forall>u. \<not> tunnel_work bincode_fixint zero_sha (replicate 32 0) example_tunnel_handle example_args t u)"
proof -
  obtain sv where sv: "example_tunnel_server sv" using example_tunnel_server_ex by blast
  obtain a where "pool_of (hd_service example_tunnel_handle) = TcpPool a" using example_tunnel_service(3) by blast
  from tunnel_settles [OF bincode_fixint_ok sha_ok_const example_tunnel_server_facts [OF sv] this _ example_visited(1) [OF sv]] sv
  show ?thesis by auto
qed

theorem visitors_served_witness:
  "\<exists>sv t. example_tunnel_server sv \<and>
     (tunnel_work bincode_fixint zero_sha (replicate 32 0) example_tunnel_handle example_args)\<^sup>*\<^sup>* (example_visited sv) t \<and>
     map fst (tp_pairs (tn_pool t)) = [7]"
proof -
  obtain sv where sv: "example_tunnel_server sv" using example_tunnel_server_ex by blast
  obtain a where a: "pool_of (hd_service example_tunnel_handle) = TcpPool a" using example_tunnel_service(3) by blast
  have "tunnel_inv bincode_fixint zero_sha (replicate 32 0) example_tunnel_handle example_args 0 (example_visited sv)"
    using tunnel_runs_inv [OF bincode_fixint_ok sha_ok_const example_visited(1) [OF sv], of 0]
      tunnel_start_inv [OF _ example_tunnel_server_facts(3) [OF sv]] sv
    by (simp add: example_tunnel_server_def example_tunnel_service)
  then obtain t where t: "(tunnel_work bincode_fixint zero_sha (replicate 32 0) example_tunnel_handle example_args)\<^sup>*\<^sup>* (example_visited sv) t"
      "\<forall>u. \<not> tunnel_work bincode_fixint zero_sha (replicate 32 0) example_tunnel_handle example_args t u"
    using tunnel.settles [of bincode_fixint zero_sha] bincode_fixint_ok sha_ok_const by blast
  have "cs_service_type (da_service example_args) \<in> {Tcp, Http, Https, Tcpmux, Stcp}"
    by (simp add: example_args_def example_client_service_def cs_with_name_def)
  from visitors_served [OF bincode_fixint_ok sha_ok_const example_tunnel_server_facts [OF sv] a _ this example_visited(1,2) [OF sv] t]
  have "map fst (tp_pairs (tn_pool t)) = [7]"
    using example_visited(3,4) [OF sv] by auto
  with sv t(1) show ?thesis by (intro exI conjI)
qed

end
