(* ===== verification/Udp_Tunnel.thy ===== *)
theory Udp_Tunnel
  imports Handshake Client_Udp Server_Pools
begin

text \<open>
  One UDP service from the visitors to the local service and back: the pool of the server, the
  two directions of the data channel, and the tasks of the client, in any interleaving. As for
  TCP every step is a step of the components' own definitions; this theory connects the
  streams: what one side has written is what the other has to read.
\<close>

section \<open>The composed state\<close>

text \<open>
  \<open>ut_visited\<close> are the datagrams that the pool has received, cut to its buffer, and \<open>ut_answered\<close> the
  answers of the local service that the forwarders have queued.
\<close>

record udp_tunnel =
  ut_pool :: udp_pool
  ut_client :: udp_channel
  ut_visited :: "udp_traffic list"
  ut_answered :: "udp_traffic list"

definition udp_tunnel_start :: "udp_pool \<Rightarrow> conn \<Rightarrow> udp_tunnel" where
  "udp_tunnel_start p c = \<lparr>ut_pool = p, ut_client = udp_channel_new c, ut_visited = [], ut_answered = []\<rparr>"

text \<open>What a connection gained on the writing side arrives on the other.\<close>

definition arrives :: "conn \<Rightarrow> conn \<Rightarrow> conn \<Rightarrow> conn" where
  "arrives before after c = c\<lparr>rx := rx c @ drop (length (tx before)) (tx after)\<rparr>"

definition after_server :: "udp_pool \<Rightarrow> udp_tunnel \<Rightarrow> udp_tunnel" where
  "after_server p t = t\<lparr>ut_pool := p,
     ut_client := (ut_client t)\<lparr>uc_conn := arrives (up_conn (ut_pool t)) (up_conn p) (uc_conn (ut_client t))\<rparr>\<rparr>"

definition after_client :: "udp_channel \<Rightarrow> udp_tunnel \<Rightarrow> udp_tunnel" where
  "after_client u t = t\<lparr>ut_client := u,
     ut_pool := (ut_pool t)\<lparr>up_conn := arrives (uc_conn (ut_client t)) (uc_conn u) (up_conn (ut_pool t))\<rparr>\<rparr>"

definition alive :: "udp_tunnel \<Rightarrow> bool" where
  "alive t \<longleftrightarrow> up_running (ut_pool t) \<and> uc_running (ut_client t) \<and> uc_writing (ut_client t)"

section \<open>Steps\<close>

text \<open>
  The steps with \<open>True\<close> are the work left to do, those with \<open>False\<close> come from the environment:
  datagrams of visitors, answers of the local service, and the end of the pool. The local
  service is reachable and no forwarder times out.
\<close>

inductive udp_tunnel_step :: "bincode \<Rightarrow> bool \<Rightarrow> udp_tunnel \<Rightarrow> udp_tunnel \<Rightarrow> bool" for B where
  datagram: "alive t \<Longrightarrow> plain_addr a \<Longrightarrow> udp_tunnel_step B False t
    ((after_server (udp_pool_step B (FromVisitor a d) (ut_pool t)) t)\<lparr>ut_visited := ut_visited t @ from_visitors [FromVisitor a d]\<rparr>)"
| answer: "alive t \<Longrightarrow> u = fw_outbound (Some d) i (ut_client t) \<Longrightarrow> udp_tunnel_step B False t
    ((after_client u t)\<lparr>ut_answered := ut_answered t @ drop (length (uc_outbound (ut_client t))) (uc_outbound u)\<rparr>)"
| reply: "alive t \<Longrightarrow> rx (up_conn (ut_pool t)) \<noteq> [] \<Longrightarrow>
    udp_tunnel_step B ok t (after_server (udp_pool_step B (FromClient ok) (ut_pool t)) t)"
| ended: "alive t \<Longrightarrow> e \<in> {VisitorFailed, UdpShutdown} \<Longrightarrow>
    udp_tunnel_step B False t (after_server (udp_pool_step B e (ut_pool t)) t)"
| client: "alive t \<Longrightarrow> healthy e \<Longrightarrow> (\<And>r i. e \<noteq> FwOutbound r i) \<Longrightarrow> (e = MainRead True \<Longrightarrow> rx (uc_conn (ut_client t)) \<noteq> []) \<Longrightarrow>
    udp_client_step B e (ut_client t) \<noteq> ut_client t \<Longrightarrow>
    udp_tunnel_step B True t (after_client (udp_client_step B e (ut_client t)) t)"

inductive_cases udp_tunnel_step_cases: "udp_tunnel_step B b t t'"

abbreviation udp_tunnel_runs where
  "udp_tunnel_runs B \<equiv> (\<lambda>t t'. \<exists>b. udp_tunnel_step B b t t')\<^sup>*\<^sup>*"

section \<open>What always holds\<close>

text \<open>The answers are on their way in order, and only to addresses from which something came.\<close>

definition answers_inv :: "bincode \<Rightarrow> udp_tunnel \<Rightarrow> bool" where
  "answers_inv B t \<longleftrightarrow>
     (\<exists>got onway. ut_answered t = got @ onway @ uc_outbound (ut_client t) \<and>
        up_sent (ut_pool t) = map (\<lambda>x. (t_from x, t_data x)) got \<and>
        rx (up_conn (ut_pool t)) = concat (map (udp_frame B) onway))"

definition known :: "udp_tunnel \<Rightarrow> bool" where
  "known t \<longleftrightarrow> fw_from ` set (uc_fwds (ut_client t)) \<subseteq> t_from ` set (ut_visited t) \<and>
     (\<forall>x \<in> set (ut_answered t). t_from x \<in> t_from ` set (ut_visited t) \<and> length (t_data x) < 2 ^ 16) \<and>
     (\<forall>x \<in> set (ut_visited t). plain_addr (t_from x) \<and> length (t_data x) < 2 ^ 16)"

definition udp_tunnel_inv :: "bincode \<Rightarrow> udp_tunnel \<Rightarrow> bool" where
  "udp_tunnel_inv B t \<longleftrightarrow> (alive t \<longrightarrow> delivery_inv B (ut_visited t) (ut_client t) \<and> answers_inv B t \<and> known t)"

lemma arrives_simps [simp]:
  "tx (arrives c c' d) = tx d" "wr_left (arrives c c' d) = wr_left d" "arrives c (c\<lparr>rx := r\<rparr>) d = d" "arrives c c d = d"
  "arrives c (c\<lparr>tx := tx c @ w, wr_left := n\<rparr>) d = d\<lparr>rx := rx d @ w\<rparr>"
  by (simp_all add: arrives_def)

text \<open>A frame that arrives extends what the client will deliver.\<close>

lemma delivery_arrives:
  assumes "delivery_inv B ts u"
  shows "delivery_inv B (ts @ [x]) (u\<lparr>uc_conn := (uc_conn u)\<lparr>rx := rx (uc_conn u) @ udp_frame B x\<rparr>\<rparr>)"
proof -
  obtain seen rem where "ts = seen @ rem" "rx (uc_conn u) = concat (map (udp_frame B) rem)"
      "\<forall>a. passed u a @ in_hand u a = data_from seen a"
    using assms by (auto simp: delivery_inv_def)
  then show ?thesis
    using assms unfolding delivery_inv_def
    by (intro conjI exI [of _ seen] exI [of _ "rem @ [x]"]) simp_all
qed

lemma udp_write_fails: "wr_left c < 3 \<Longrightarrow> \<not> is_ok (snd (udp_write B x c))"
  by (auto simp: udp_write_def Let_def sbind_def write_all_def sret_def)

lemma datagram_inv:
  assumes "udp_tunnel_inv B t" and "alive t" and "plain_addr a"
  shows "udp_tunnel_inv B
    ((after_server (udp_pool_step B (FromVisitor a d) (ut_pool t)) t)\<lparr>ut_visited := ut_visited t @ from_visitors [FromVisitor a d]\<rparr>)"
proof (cases "3 \<le> wr_left (up_conn (ut_pool t))")
  case True
  let ?x = "\<lparr>t_from = a, t_data = take UDP_BUFFER_SIZE d\<rparr>"
  have "udp_pool_step B (FromVisitor a d) (ut_pool t) = (ut_pool t)\<lparr>up_conn := (up_conn (ut_pool t))\<lparr>
      tx := tx (up_conn (ut_pool t)) @ udp_frame B ?x, wr_left := wr_left (up_conn (ut_pool t)) - 3\<rparr>\<rparr>"
    using True assms(2) by (simp add: udp_pool_step_def alive_def udp_write_slice_eq udp_write_ok)
  then show ?thesis
    using assms delivery_arrives [of B "ut_visited t" "ut_client t" ?x]
    by (auto simp: udp_tunnel_inv_def after_server_def answers_inv_def known_def UDP_BUFFER_SIZE_def)
next
  case False
  then have "\<not> up_running (udp_pool_step B (FromVisitor a d) (ut_pool t))"
    using udp_write_fails [of "up_conn (ut_pool t)" B]
    by (auto simp: udp_pool_step_def udp_write_slice_eq split: prod.split) (metis not_le snd_conv)
  then show ?thesis by (simp add: udp_tunnel_inv_def alive_def after_server_def)
qed

lemma answer_inv:
  assumes "udp_tunnel_inv B t" and "alive t" and "u = fw_outbound (Some d) i (ut_client t)"
  shows "udp_tunnel_inv B ((after_client u t)\<lparr>ut_answered := ut_answered t @ drop (length (uc_outbound (ut_client t))) (uc_outbound u)\<rparr>)"
proof -
  have inv: "delivery_inv B (ut_visited t) (ut_client t)" "answers_inv B t" "known t"
    using assms(1,2) by (simp_all add: udp_tunnel_inv_def)
  show ?thesis
  proof (cases "u = ut_client t")
    case True
    then show ?thesis using assms(1) by (simp add: after_client_def)
  next
    case False
    then obtain f where f: "fwd i (ut_client t) = Some f" "fw_phase f = FwRunning"
      and u: "u = (ut_client t)\<lparr>uc_outbound := uc_outbound (ut_client t) @ [\<lparr>t_from = fw_from f, t_data = take UDP_BUFFER_SIZE d\<rparr>]\<rparr>"
      using assms(2,3) by (auto simp: fw_outbound_def alive_def split: option.splits if_splits)
    have "f \<in> set (uc_fwds (ut_client t))"
      using f(1) by (auto simp: fwd_def split: if_splits)
    moreover have "delivery_inv B (ut_visited t) u"
      using inv(1) by (simp add: u delivery_inv_def)
    ultimately show ?thesis
      using inv(2,3) by (auto simp: udp_tunnel_inv_def after_client_def answers_inv_def known_def u UDP_BUFFER_SIZE_def)
  qed
qed

lemma frame_not_Nil: "udp_frame B x \<noteq> []"
  by (simp add: udp_frame_def Let_def)

text \<open>The next answer on its way, if there is one, goes to its visitor.\<close>

lemma reply_taken:
  assumes "bincode_ok B" and "udp_tunnel_inv B t" and "alive t" and "rx (up_conn (ut_pool t)) \<noteq> []"
  obtains got x onway where "ut_answered t = got @ x # onway @ uc_outbound (ut_client t)"
    "up_sent (ut_pool t) = map (\<lambda>x. (t_from x, t_data x)) got"
    "rx (up_conn (ut_pool t)) = udp_frame B x @ concat (map (udp_frame B) onway)"
    "udp_pool_step B (FromClient True) (ut_pool t) = (ut_pool t)\<lparr>
       up_conn := (up_conn (ut_pool t))\<lparr>rx := concat (map (udp_frame B) onway)\<rparr>, up_sent := up_sent (ut_pool t) @ [(t_from x, t_data x)]\<rparr>"
proof -
  have inv: "answers_inv B t" "known t"
    using assms(2,3) by (simp_all add: udp_tunnel_inv_def)
  then obtain got xs where a: "ut_answered t = got @ xs @ uc_outbound (ut_client t)"
      "up_sent (ut_pool t) = map (\<lambda>x. (t_from x, t_data x)) got" "rx (up_conn (ut_pool t)) = concat (map (udp_frame B) xs)"
    by (auto simp: answers_inv_def)
  with assms(4) obtain x onway where xs: "xs = x # onway" by (cases xs) auto
  have "t_from x \<in> t_from ` set (ut_visited t)" "length (t_data x) < 2 ^ 16"
    using inv(2) a(1) xs by (auto simp: known_def)
  then have "udp_recv B (up_conn (ut_pool t)) = ((up_conn (ut_pool t))\<lparr>rx := concat (map (udp_frame B) onway)\<rparr>, Inr x)"
    using inv(2) a(3) xs by (intro recv_framed [OF assms(1)]) (auto simp: known_def)
  then show thesis
    using that a xs assms(3) by (simp add: udp_pool_step_def alive_def)
qed

lemma reply_inv:
  assumes "bincode_ok B" and "udp_tunnel_inv B t" and "alive t" and "rx (up_conn (ut_pool t)) \<noteq> []"
  shows "udp_tunnel_inv B (after_server (udp_pool_step B (FromClient ok) (ut_pool t)) t)"
proof (cases ok)
  case True
  from assms obtain got x onway where x: "ut_answered t = got @ x # onway @ uc_outbound (ut_client t)"
      "up_sent (ut_pool t) = map (\<lambda>x. (t_from x, t_data x)) got"
      "udp_pool_step B (FromClient True) (ut_pool t) = (ut_pool t)\<lparr>
         up_conn := (up_conn (ut_pool t))\<lparr>rx := concat (map (udp_frame B) onway)\<rparr>, up_sent := up_sent (ut_pool t) @ [(t_from x, t_data x)]\<rparr>"
    by (rule reply_taken)
  show ?thesis
    using assms(2,3) True unfolding udp_tunnel_inv_def answers_inv_def
    by (intro impI conjI exI [of _ "got @ [x]"] exI [of _ onway]) (simp_all add: after_server_def x known_def)
next
  case False
  then have "\<not> up_running (udp_pool_step B (FromClient ok) (ut_pool t))"
    by (simp add: udp_pool_step_def split: prod.split sum.split)
  then show ?thesis by (simp add: udp_tunnel_inv_def alive_def after_server_def)
qed

text \<open>What one step of the client's tasks does to the parts that are not in \<open>delivery_inv\<close>.\<close>

lemma udp_recv_tx: "tx (fst (udp_recv B c)) = tx c"
  by (simp add: udp_recv_def udp_read_def sbind_def sm_defs read_exact_def read_u8_def split: sum.split prod.split)

lemma send_to_parts:
  "uc_conn (send_to i d u) = uc_conn u" "uc_outbound (send_to i d u) = uc_outbound u"
  "map fw_from (uc_fwds (send_to i d u)) = map fw_from (uc_fwds u)" "uc_running (send_to i d u) = uc_running u"
  "uc_writing (send_to i d u) = uc_writing u"
  by (simp_all add: send_to_def upd_fwd_def fwd_def map_update list_update_same_conv split: option.split)

lemma main_deliver_parts:
  "uc_conn (main_deliver u) = uc_conn u" "uc_outbound (main_deliver u) = uc_outbound u"
  "map fw_from (uc_fwds (main_deliver u)) = map fw_from (uc_fwds u)" "uc_running (main_deliver u) = uc_running u"
  "uc_writing (main_deliver u) = uc_writing u"
  by (simp_all add: main_deliver_def send_to_parts split: loop_pc.split option.split)

lemma fw_inbound_parts:
  "uc_conn (fw_inbound ok i u) = uc_conn u" "uc_outbound (fw_inbound ok i u) = uc_outbound u"
  "map fw_from (uc_fwds (fw_inbound ok i u)) = map fw_from (uc_fwds u)" "uc_running (fw_inbound ok i u) = uc_running u"
  "uc_writing (fw_inbound ok i u) = uc_writing u"
  by (simp_all add: fw_inbound_def upd_fwd_def fwd_def map_update list_update_same_conv split: option.split list.split)

text \<open>The next datagram on its way is read by the main loop.\<close>

lemma read_taken:
  assumes "bincode_ok B" and "delivery_inv B ts u" and "\<forall>x \<in> set ts. plain_addr (t_from x) \<and> length (t_data x) < 2 ^ 16"
    and "uc_running u" and "uc_pc u = Reading" and "rx (uc_conn u) \<noteq> []"
  obtains x rest where "x \<in> set ts" "rx (uc_conn u) = udp_frame B x @ rest" "main_read B True u =
    (if uc_ports u (t_from x) \<noteq> None then u\<lparr>uc_conn := (uc_conn u)\<lparr>rx := rest\<rparr>, uc_pc := Holding x\<rparr>
     else u\<lparr>uc_conn := (uc_conn u)\<lparr>rx := rest\<rparr>, uc_pc := Creating x, uc_ports := (uc_ports u)(t_from x \<mapsto> length (uc_fwds u)),
       uc_fwds := uc_fwds u @ [\<lparr>fw_from = t_from x, fw_queue = [], fw_sent = [], fw_phase = FwRunning\<rparr>]\<rparr>)"
proof -
  obtain seen rem where r: "ts = seen @ rem" "rx (uc_conn u) = concat (map (udp_frame B) rem)"
      "\<forall>f \<in> set (uc_fwds u). fw_phase f = FwRunning"
    using assms(2) by (auto simp: delivery_inv_def)
  with assms(6) obtain x xs where rem: "rem = x # xs" by (cases rem) auto
  have "udp_recv B (uc_conn u) = ((uc_conn u)\<lparr>rx := concat (map (udp_frame B) xs)\<rparr>, Inr x)"
    using assms(3) r rem by (intro recv_framed [OF assms(1)]) auto
  then show thesis
    using that [of x "concat (map (udp_frame B) xs)"] r rem assms(4,5) no_writer [OF r(3)]
    by (cases "uc_ports u (t_from x)") (simp_all add: main_read_def)
qed

lemma write_taken:
  assumes "uc_writing u" and "uc_writing (write_outbound B u)" and "write_outbound B u \<noteq> u"
  obtains x xs where "uc_outbound u = x # xs" "3 \<le> wr_left (uc_conn u)"
proof (cases "uc_outbound u")
  case Nil
  with assms(3) show thesis by (simp add: write_outbound_def)
next
  case (Cons x xs)
  with assms(1,2) have "is_ok (snd (udp_write B x (uc_conn u)))"
    by (simp add: write_outbound_def split: prod.splits)
  with udp_write_fails [of "uc_conn u" B x] that Cons show thesis by (meson not_le)
qed

lemma client_inv:
  assumes "bincode_ok B" and "udp_tunnel_inv B t" and "alive t" and "healthy e" and "\<And>r i. e \<noteq> FwOutbound r i"
    and "e = MainRead True \<Longrightarrow> rx (uc_conn (ut_client t)) \<noteq> []" and "udp_client_step B e (ut_client t) \<noteq> ut_client t"
  shows "udp_tunnel_inv B (after_client (udp_client_step B e (ut_client t)) t)"
proof -
  let ?u = "ut_client t" and ?u' = "udp_client_step B e (ut_client t)"
  have inv: "delivery_inv B (ut_visited t) ?u" "answers_inv B t" "known t"
    using assms(2,3) by (simp_all add: udp_tunnel_inv_def)
  have plain: "\<forall>x \<in> set (ut_visited t). plain_addr (t_from x) \<and> length (t_data x) < 2 ^ 16"
    using inv(3) by (simp add: known_def)
  have rest: "answers_inv B (after_client ?u' t) \<and> fw_from ` set (uc_fwds ?u') \<subseteq> t_from ` set (ut_visited t)"
    if writing: "uc_writing ?u'"
  proof (cases e)
    case (MainRead ok)
    then have "ok" and "uc_running ?u" and "uc_pc ?u = Reading"
      using assms(4,7) by (auto simp: main_read_def split: if_splits)
    then obtain x r where "x \<in> set (ut_visited t)" "?u' =
      (if uc_ports ?u (t_from x) \<noteq> None then ?u\<lparr>uc_conn := (uc_conn ?u)\<lparr>rx := r\<rparr>, uc_pc := Holding x\<rparr>
       else ?u\<lparr>uc_conn := (uc_conn ?u)\<lparr>rx := r\<rparr>, uc_pc := Creating x, uc_ports := (uc_ports ?u)(t_from x \<mapsto> length (uc_fwds ?u)),
         uc_fwds := uc_fwds ?u @ [\<lparr>fw_from = t_from x, fw_queue = [], fw_sent = [], fw_phase = FwRunning\<rparr>]\<rparr>)"
      using read_taken [OF assms(1) inv(1) plain] assms(6) MainRead by (metis udp_client_step.simps(1))
    then show ?thesis using inv(2,3) by (auto simp: after_client_def answers_inv_def known_def)
  next
    case MainDeliver
    with main_deliver_parts [of ?u] inv(2,3) show ?thesis
      by (simp add: after_client_def answers_inv_def known_def flip: set_map)
  next
    case (FwInbound ok i)
    with fw_inbound_parts [of ok i ?u] inv(2,3) show ?thesis
      by (simp add: after_client_def answers_inv_def known_def flip: set_map)
  next
    case (FwLeave i)
    then have "?u' = ?u" using inv(1) by (auto simp: fw_leave_def fwd_def delivery_inv_def split: option.splits)
    with assms(7) show ?thesis by simp
  next
    case WriteOutbound
    then obtain x xs where out: "uc_outbound ?u = x # xs" "3 \<le> wr_left (uc_conn ?u)"
      using assms(3,7) writing by (auto simp: alive_def elim: write_taken)
    from inv(2) out(1) obtain got onway where "ut_answered t = got @ onway @ x # xs"
        "up_sent (ut_pool t) = map (\<lambda>x. (t_from x, t_data x)) got" "rx (up_conn (ut_pool t)) = concat (map (udp_frame B) onway)"
      by (auto simp: answers_inv_def)
    then have "answers_inv B (after_client ?u' t)"
      using out WriteOutbound assms(3) unfolding answers_inv_def
      by (intro exI [of _ got] exI [of _ "onway @ [x]"]) (simp add: after_client_def write_outbound_def alive_def udp_write_ok)
    then show ?thesis
      using inv(3) WriteOutbound by (auto simp: known_def write_outbound_def split: list.splits prod.splits)
  qed (use assms(4,5) in auto)
  show ?thesis
    using delivery_step [OF assms(1) plain inv(1) assms(4)] rest inv(3)
    by (auto simp: udp_tunnel_inv_def alive_def after_client_def known_def)
qed

lemma udp_tunnel_step_inv: "udp_tunnel_step B b t t' \<Longrightarrow> bincode_ok B \<Longrightarrow> udp_tunnel_inv B t \<Longrightarrow> udp_tunnel_inv B t'"
proof (induction rule: udp_tunnel_step.induct)
  case (ended t e)
  then show ?case by (auto simp: udp_tunnel_inv_def alive_def after_server_def udp_pool_step_def)
qed (blast intro: datagram_inv answer_inv reply_inv client_inv)+

lemma udp_tunnel_runs_inv: "udp_tunnel_runs B t t' \<Longrightarrow> bincode_ok B \<Longrightarrow> udp_tunnel_inv B t \<Longrightarrow> udp_tunnel_inv B t'"
  by (induction rule: rtranclp_induct) (auto intro: udp_tunnel_step_inv)

section \<open>The work left to do\<close>

text \<open>
  A byte for the client counts four times and a datagram in the loop's hands up to three times,
  because it is still to be queued and sent on; an answer counts its frame before it is written
  and its bytes afterwards.
\<close>

fun hand_weight :: "loop_pc \<Rightarrow> nat" where
  "hand_weight Reading = 0"
| "hand_weight (Sending i d) = 2"
| "hand_weight _ = 3"

definition inbound_weight :: "udp_channel \<Rightarrow> nat" where
  "inbound_weight u = 4 * length (rx (uc_conn u)) + hand_weight (uc_pc u) + sum_list (map (\<lambda>f. length (fw_queue f)) (uc_fwds u))"

definition outbound_weight :: "bincode \<Rightarrow> udp_tunnel \<Rightarrow> nat" where
  "outbound_weight B t = length (rx (up_conn (ut_pool t))) + sum_list (map (\<lambda>x. Suc (length (udp_frame B x))) (uc_outbound (ut_client t)))"

definition udp_tunnel_weight :: "bincode \<Rightarrow> udp_tunnel \<Rightarrow> nat" where
  "udp_tunnel_weight B t = (if alive t then Suc (inbound_weight (ut_client t) + outbound_weight B t) else 0)"

lemma queue_update:
  assumes "i < length fs"
  shows "sum_list (map (\<lambda>f. length (fw_queue f)) (fs[i := f])) + length (fw_queue (fs ! i)) =
    sum_list (map (\<lambda>f. length (fw_queue f)) fs) + length (fw_queue f)"
  using assms elem_le_sum_list [of i "map (\<lambda>f. length (fw_queue f)) fs"] by (simp add: map_update sum_list_update)

lemma send_to_weight:
  "send_to i d u \<noteq> u \<Longrightarrow> 2 \<le> hand_weight (uc_pc u) \<Longrightarrow> hand_weight (uc_pc u) = 3 \<or> uc_pc u = Sending i d \<Longrightarrow>
   inbound_weight (send_to i d u) < inbound_weight u"
  using queue_update [of i "uc_fwds u" "(uc_fwds u ! i)\<lparr>fw_queue := fw_queue (uc_fwds u ! i) @ [d]\<rparr>"]
  by (auto simp: send_to_def inbound_weight_def fwd_def upd_fwd_def split: option.splits if_splits)

lemma main_deliver_weight: "main_deliver u \<noteq> u \<Longrightarrow> inbound_weight (main_deliver u) < inbound_weight u"
proof -
  assume ne: "main_deliver u \<noteq> u"
  then consider i d where "main_deliver u = send_to i d u" "hand_weight (uc_pc u) = 3 \<or> uc_pc u = Sending i d"
    | "main_deliver u = u\<lparr>uc_pc := Reading\<rparr>" "hand_weight (uc_pc u) = 3"
    by (cases "uc_pc u") (auto simp: main_deliver_def split: option.splits if_splits)
  then show ?thesis
  proof cases
    case 1
    then have "2 \<le> hand_weight (uc_pc u)" by auto
    with 1 ne show ?thesis using send_to_weight [of i d u] by simp
  qed (simp add: inbound_weight_def)
qed

lemma fw_inbound_weight:
  assumes "fw_inbound True i u \<noteq> u"
  shows "inbound_weight (fw_inbound True i u) < inbound_weight u"
proof -
  from assms obtain d ds where "i < length (uc_fwds u)" "fw_queue (uc_fwds u ! i) = d # ds"
      "fw_inbound True i u = upd_fwd i ((uc_fwds u ! i)\<lparr>fw_queue := ds, fw_sent := fw_sent (uc_fwds u ! i) @ [d]\<rparr>) u"
    by (auto simp: fw_inbound_def fwd_def split: option.splits if_splits list.splits)
  then show ?thesis
    using queue_update [of i "uc_fwds u" "(uc_fwds u ! i)\<lparr>fw_queue := ds, fw_sent := fw_sent (uc_fwds u ! i) @ [d]\<rparr>"]
    by (simp add: inbound_weight_def upd_fwd_def)
qed

lemma frame_length: "\<exists>k. length (udp_frame B x) = Suc k"
  by (simp add: udp_frame_def Let_def)

lemma read_parts:
  assumes "bincode_ok B" and "delivery_inv B ts u" and "\<forall>x \<in> set ts. plain_addr (t_from x) \<and> length (t_data x) < 2 ^ 16"
    and "uc_running u" and "uc_pc u = Reading" and "rx (uc_conn u) \<noteq> []"
  shows "uc_running (main_read B True u)" and "uc_writing (main_read B True u) = uc_writing u"
    and "uc_outbound (main_read B True u) = uc_outbound u" and "wr_left (uc_conn (main_read B True u)) = wr_left (uc_conn u)"
  by (rule read_taken [OF assms]; use assms(4) in simp)+

lemma client_weight:
  assumes "bincode_ok B" and "udp_tunnel_inv B t" and "alive t" and "healthy e" and "\<And>r i. e \<noteq> FwOutbound r i"
    and "e = MainRead True \<Longrightarrow> rx (uc_conn (ut_client t)) \<noteq> []" and "udp_client_step B e (ut_client t) \<noteq> ut_client t"
    and "uc_writing (udp_client_step B e (ut_client t))"
  shows "inbound_weight (udp_client_step B e (ut_client t)) + outbound_weight B (after_client (udp_client_step B e (ut_client t)) t)
    < inbound_weight (ut_client t) + outbound_weight B t"
proof -
  let ?u = "ut_client t"
  have inv: "delivery_inv B (ut_visited t) ?u" "known t" and up: "uc_running ?u" "uc_writing ?u"
    using assms(2,3) by (simp_all add: udp_tunnel_inv_def alive_def)
  show ?thesis
  proof (cases e)
    case (MainRead ok)
    then have "ok" and "uc_pc ?u = Reading"
      using assms(4,7) by (auto simp: main_read_def split: if_splits)
    then obtain x r where "rx (uc_conn ?u) = udp_frame B x @ r" and
      "udp_client_step B e ?u =
      (if uc_ports ?u (t_from x) \<noteq> None then ?u\<lparr>uc_conn := (uc_conn ?u)\<lparr>rx := r\<rparr>, uc_pc := Holding x\<rparr>
       else ?u\<lparr>uc_conn := (uc_conn ?u)\<lparr>rx := r\<rparr>, uc_pc := Creating x, uc_ports := (uc_ports ?u)(t_from x \<mapsto> length (uc_fwds ?u)),
         uc_fwds := uc_fwds ?u @ [\<lparr>fw_from = t_from x, fw_queue = [], fw_sent = [], fw_phase = FwRunning\<rparr>]\<rparr>)"
      using read_taken [OF assms(1) inv(1) _ up(1)] inv(2) assms(6) MainRead unfolding known_def by (metis udp_client_step.simps(1))
    moreover obtain k where "length (udp_frame B x) = Suc k" using frame_length by blast
    ultimately show ?thesis
      using \<open>uc_pc ?u = Reading\<close> by (auto simp: inbound_weight_def outbound_weight_def after_client_def)
  next
    case MainDeliver
    with main_deliver_weight [of ?u] assms(7) show ?thesis
      by (simp add: outbound_weight_def after_client_def main_deliver_parts)
  next
    case (FwInbound ok i)
    with fw_inbound_weight [of i ?u] assms(4,7) show ?thesis
      by (simp add: outbound_weight_def after_client_def fw_inbound_parts)
  next
    case (FwLeave i)
    then have "udp_client_step B e ?u = ?u"
      using inv(1) by (auto simp: fw_leave_def fwd_def delivery_inv_def split: option.splits)
    with assms(7) show ?thesis by simp
  next
    case WriteOutbound
    then obtain x xs where "uc_outbound ?u = x # xs" "3 \<le> wr_left (uc_conn ?u)"
      using assms(7,8) up by (auto elim: write_taken)
    with WriteOutbound up show ?thesis
      by (simp add: inbound_weight_def outbound_weight_def after_client_def write_outbound_def udp_write_ok)
  qed (use assms(4,5) in auto)
qed

lemma udp_work_weight:
  assumes "bincode_ok B" and "udp_tunnel_inv B t" and "udp_tunnel_step B True t t'"
  shows "udp_tunnel_weight B t' < udp_tunnel_weight B t"
  using assms(3)
proof cases
  case reply
  then have "alive t" "rx (up_conn (ut_pool t)) \<noteq> []" by auto
  with assms(1,2) obtain got x onway where "rx (up_conn (ut_pool t)) = udp_frame B x @ concat (map (udp_frame B) onway)"
    "udp_pool_step B (FromClient True) (ut_pool t) = (ut_pool t)\<lparr>
       up_conn := (up_conn (ut_pool t))\<lparr>rx := concat (map (udp_frame B) onway)\<rparr>, up_sent := up_sent (ut_pool t) @ [(t_from x, t_data x)]\<rparr>"
    by (rule reply_taken)
  moreover obtain k where "length (udp_frame B x) = Suc k" using frame_length by blast
  ultimately show ?thesis
    using reply by (simp add: udp_tunnel_weight_def alive_def after_server_def inbound_weight_def outbound_weight_def)
next
  case (client e)
  with client_weight [OF assms(1,2) client(2-6)] show ?thesis
    by (auto simp: udp_tunnel_weight_def alive_def after_client_def)
qed simp_all

text \<open>The connection to the server takes the answers that are queued.\<close>

definition udp_lasting :: "udp_tunnel \<Rightarrow> bool" where
  "udp_lasting t \<longleftrightarrow> alive t \<and> 3 * length (uc_outbound (ut_client t)) \<le> wr_left (uc_conn (ut_client t))"

lemma udp_work_lasts:
  assumes "bincode_ok B" and "udp_tunnel_inv B t" and "udp_lasting t" and "udp_tunnel_step B True t t'"
  shows "udp_lasting t' \<and> ut_visited t' = ut_visited t \<and> ut_answered t' = ut_answered t"
  using assms(4)
proof cases
  case reply
  then have "alive t" "rx (up_conn (ut_pool t)) \<noteq> []" by auto
  then obtain x r where "udp_pool_step B (FromClient True) (ut_pool t) = (ut_pool t)\<lparr>
       up_conn := (up_conn (ut_pool t))\<lparr>rx := r\<rparr>, up_sent := up_sent (ut_pool t) @ [x]\<rparr>"
    using reply_taken [OF assms(1,2)] by blast
  with reply assms(3) show ?thesis by (simp add: udp_lasting_def alive_def after_server_def)
next
  case (client e)
  have inv: "delivery_inv B (ut_visited t) (ut_client t)" "known t" and up: "uc_running (ut_client t)" "uc_writing (ut_client t)"
    using assms(2) client by (simp_all add: udp_tunnel_inv_def alive_def)
  have "uc_running (udp_client_step B e (ut_client t)) \<and> uc_writing (udp_client_step B e (ut_client t)) \<and>
    3 * length (uc_outbound (udp_client_step B e (ut_client t))) \<le> wr_left (uc_conn (udp_client_step B e (ut_client t)))"
  proof (cases e)
    case (MainRead ok)
    then have "ok" and "uc_pc (ut_client t) = Reading"
      using client by (auto simp: main_read_def split: if_splits)
    with read_parts [OF assms(1) inv(1) _ up(1)] inv(2) client MainRead assms(3) show ?thesis
      by (simp add: known_def udp_lasting_def up)
  next
    case WriteOutbound
    with assms(3) up show ?thesis
      by (cases "uc_outbound (ut_client t)") (auto simp: udp_lasting_def write_outbound_def udp_write_ok)
  qed (use client assms(3) up in \<open>auto simp: udp_lasting_def main_deliver_parts fw_inbound_parts fw_leave_def upd_fwd_def split: option.splits\<close>)
  with client assms(3) show ?thesis by (simp add: udp_lasting_def alive_def after_client_def)
qed simp_all

interpretation udp_tunnel: settling "udp_tunnel_step B True"
  "\<lambda>t. bincode_ok B \<and> udp_tunnel_inv B t \<and> udp_lasting t \<and> ut_visited t = vs \<and> ut_answered t = as" "udp_tunnel_weight B" for B vs as
  by unfold_locales (auto intro: udp_tunnel_step_inv udp_work_weight dest: udp_work_lasts)

section \<open>At rest\<close>

lemma udp_client_at_rest:
  assumes "delivery_inv B ts u" and "main_deliver u = u" and "\<And>i. fw_inbound True i u = u"
  shows "uc_pc u = Reading \<and> (\<forall>f \<in> set (uc_fwds u). fw_queue f = [])"
proof -
  have inv: "uc_inv u" "\<forall>f \<in> set (uc_fwds u). fw_phase f = FwRunning" "pc_ok u"
    using assms(1) by (simp_all add: delivery_inv_def)
  have queues: "fw_queue (uc_fwds u ! i) = []" if "i < length (uc_fwds u)" for i
  proof (rule ccontr)
    assume "fw_queue (uc_fwds u ! i) \<noteq> []"
    then obtain d ds where q: "fw_queue (uc_fwds u ! i) = d # ds" by (cases "fw_queue (uc_fwds u ! i)") auto
    then have "fw_queue (uc_fwds (fw_inbound True i u) ! i) = ds"
      using that inv(2) by (simp add: fw_inbound_def fwd_def upd_fwd_def)
    with q assms(3) [of i] show False by simp
  qed
  have "uc_pc (send_to i d u) = Reading" if "i < length (uc_fwds u)" for i d
    using queues [OF that] inv(2) that by (simp add: send_to_def fwd_def upd_fwd_def UDP_SENDQ_SIZE_def)
  then have "uc_pc (main_deliver u) = Reading"
    using inv(3) in_range [OF inv(1)] no_writer [OF inv(2)]
    by (auto simp: main_deliver_def pc_ok_def split: loop_pc.splits option.splits)
  then show ?thesis
    using assms(2) queues by (metis in_set_conv_nth)
qed

lemma udp_at_rest:
  assumes "bincode_ok B" and "udp_tunnel_inv B t" and "alive t" and rest: "\<forall>t'. \<not> udp_tunnel_step B True t t'"
  shows "rx (up_conn (ut_pool t)) = [] \<and> uc_outbound (ut_client t) = [] \<and> rx (uc_conn (ut_client t)) = [] \<and>
    uc_pc (ut_client t) = Reading \<and> (\<forall>f \<in> set (uc_fwds (ut_client t)). fw_queue f = [])"
proof -
  let ?u = "ut_client t"
  have inv: "delivery_inv B (ut_visited t) ?u" "known t" and up: "uc_running ?u" "uc_writing ?u"
    using assms(2,3) by (simp_all add: udp_tunnel_inv_def alive_def)
  have still: "udp_client_step B e ?u = ?u"
    if "healthy e" "\<And>r i. e \<noteq> FwOutbound r i" "e = MainRead True \<Longrightarrow> rx (uc_conn ?u) \<noteq> []" for e
    using rest client [OF assms(3) that] by blast
  have pool: "rx (up_conn (ut_pool t)) = []"
    using rest reply [OF assms(3), of B True] by blast
  have client: "uc_pc ?u = Reading" "\<forall>f \<in> set (uc_fwds ?u). fw_queue f = []"
    using udp_client_at_rest [OF inv(1)] still [of MainDeliver] still [of "FwInbound True i" for i] by simp_all
  have "uc_outbound ?u = []"
    using still [of WriteOutbound] up by (cases "uc_outbound ?u") (auto simp: write_outbound_def dest!: arg_cong [where f = uc_outbound] split: prod.splits)
  moreover have "rx (uc_conn ?u) = []"
  proof (rule ccontr)
    assume r: "rx (uc_conn ?u) \<noteq> []"
    have "uc_pc (main_read B True ?u) \<noteq> Reading"
      by (rule read_taken [OF assms(1) inv(1) _ up(1) client(1) r]) (use inv(2) in \<open>auto simp: known_def\<close>)
    with client(1) still [of "MainRead True"] r show False by simp
  qed
  ultimately show ?thesis using pool client by simp
qed

text \<open>What the local service has got from a visitor.\<close>

definition local_got :: "udp_channel \<Rightarrow> socket_addr \<Rightarrow> bytes list" where
  "local_got u a = (case uc_ports u a of None \<Rightarrow> [] | Some i \<Rightarrow> fw_sent (uc_fwds u ! i))"

lemma passed_local: "prefix (local_got u a) (passed u a)"
  by (simp add: local_got_def passed_def split: option.split)

lemma delivery_prefix:
  assumes "delivery_inv B ts u"
  shows "prefix (local_got u a) (data_from ts a)"
proof -
  obtain seen rem where "ts = seen @ rem" "passed u a @ in_hand u a = data_from seen a"
    using assms by (auto simp: delivery_inv_def)
  then have "data_from ts a = passed u a @ in_hand u a @ data_from rem a" by (simp add: data_from_def)
  then show ?thesis using passed_local [of u a] by (metis prefix_order.trans prefixI)
qed

lemma delivery_complete:
  assumes "delivery_inv B ts u" and "rx (uc_conn u) = []" and "uc_pc u = Reading" and "\<forall>f \<in> set (uc_fwds u). fw_queue f = []"
  shows "local_got u a = data_from ts a"
proof -
  obtain seen rem where r: "ts = seen @ rem" "rx (uc_conn u) = concat (map (udp_frame B) rem)" "passed u a @ in_hand u a = data_from seen a"
    using assms(1) by (auto simp: delivery_inv_def)
  then have "rem = []" using assms(2) frame_not_Nil [of B] by (cases rem) auto
  moreover have "passed u a = local_got u a"
    using assms(1,4) by (auto simp: passed_def local_got_def delivery_inv_def dest: in_range split: option.split)
  ultimately show ?thesis using r(1,3) assms(3) by (simp add: in_hand_def)
qed

section \<open>Properties\<close>

text \<open>The client reads the command that the pool wrote, and nothing else is on its way.\<close>

lemma udp_client_starts:
  assumes "bincode_ok B" and "tx sc = []" and "udp_pool_start B (Some sc) = Some p"
    and "rx cc = tx (up_conn p)" and "run_data_channel B sha256 args cc = (c, Inr f)"
  shows "rx c = []" and "up_running p \<and> up_sent p = [] \<and> rx (up_conn p) = rx sc"
proof -
  have p: "tx (up_conn p) = enc (d_cmd_codec B) StartForwardUdp" "up_running p \<and> up_sent p = [] \<and> rx (up_conn p) = rx sc"
    using assms(2,3) by (auto simp: udp_pool_start_def write_and_flush_run split: if_splits prod.splits sum.splits)
  then show "up_running p \<and> up_sent p = [] \<and> rx (up_conn p) = rx sc" by simp
  have two: "2 \<le> wr_left cc"
    using assms(5) by (rule contrapos_pp) (auto simp: run_data_channel_def Client.do_data_channel_handshake_def cwrite_def sbind_def smap_err_def write_all_def flush_def split: if_splits)
  let ?cc = "cc\<lparr>tx := tx cc @ enc (hello_codec B) (DataChannelHello CURRENT_PROTO_VERSION (da_session_key args)), wr_left := wr_left cc - 2\<rparr>"
  have "read_data_cmd B sha256 ?cc = (?cc\<lparr>rx := []\<rparr>, Inr StartForwardUdp)"
    by (rule read_data_cmd_ok [OF assms(1)]) (simp add: assms(4) p)
  then show "rx c = []"
    using assms(5) two
    by (auto simp: run_data_channel_def Client.do_data_channel_handshake_def cwrite_ok sbind_def smap_err_def sret_def sfail_def Let_def split: if_splits)
qed

lemma udp_tunnel_start_inv:
  "rx c = [] \<Longrightarrow> up_sent p = [] \<Longrightarrow> rx (up_conn p) = [] \<Longrightarrow> udp_tunnel_inv B (udp_tunnel_start p c)"
  using delivery_inv_new [of c B "[]"]
  by (simp add: udp_tunnel_inv_def udp_tunnel_start_def answers_inv_def known_def) (simp add: udp_channel_new_def)

lemma udp_tunnel_reached:
  assumes "bincode_ok B" and "rx sc = []" and "tx sc = []" and "udp_pool_start B (Some sc) = Some p"
    and "rx cc = tx (up_conn p)" and "run_data_channel B sha256 args cc = (c, Inr f)"
    and "udp_tunnel_runs B (udp_tunnel_start p c) t"
  shows "udp_tunnel_inv B t"
  using udp_client_starts [OF assms(1,3-6)] assms(2) by (intro udp_tunnel_runs_inv [OF assms(7,1)] udp_tunnel_start_inv) simp_all

lemma udp_ends:
  assumes "(udp_tunnel_step B True)\<^sup>*\<^sup>* t t'"
    and "bincode_ok B \<and> udp_tunnel_inv B t \<and> udp_lasting t \<and> ut_visited t = vs \<and> ut_answered t = as"
    and "\<forall>u. \<not> udp_tunnel_step B True t' u"
  shows "(\<forall>a. local_got (ut_client t') a = data_from vs a) \<and> up_sent (ut_pool t') = map (\<lambda>x. (t_from x, t_data x)) as"
proof -
  have ended: "udp_tunnel_inv B t'" "alive t'" "ut_visited t' = vs" "ut_answered t' = as" and B: "bincode_ok B"
    using udp_tunnel.steps_invar [OF assms(1,2)] by (simp_all add: udp_lasting_def)
  then have "delivery_inv B vs (ut_client t')" "answers_inv B t'" by (simp_all add: udp_tunnel_inv_def)
  with udp_at_rest [OF B ended(1,2) assms(3)] ended(4) show ?thesis
    using delivery_complete frame_not_Nil [of B] by (fastforce simp: answers_inv_def)
qed



text \<open>An established data channel of a UDP service, and a run with one datagram.\<close>

definition udp_example_args :: data_channel_args where
  "udp_example_args = example_args\<lparr>da_service := example_client_service\<lparr>cs_service_type := Udp\<rparr>\<rparr>"

definition udp_example_pool :: udp_pool where
  "udp_example_pool = \<lparr>up_conn = \<lparr>rx = [], tx = enc (d_cmd_codec bincode_fixint) StartForwardUdp, wr_left = 7\<rparr>, up_sent = [], up_running = True\<rparr>"

definition udp_example_conn :: conn where
  "udp_example_conn = \<lparr>rx = [], tx = enc (hello_codec bincode_fixint) (DataChannelHello CURRENT_PROTO_VERSION (replicate 32 0)), wr_left = 7\<rparr>"

lemma udp_example_established:
  "udp_pool_start bincode_fixint (Some \<lparr>rx = [], tx = [], wr_left = 9\<rparr>) = Some udp_example_pool"
  "run_data_channel bincode_fixint zero_sha udp_example_args \<lparr>rx = tx (up_conn udp_example_pool), tx = [], wr_left = 9\<rparr> =
     (udp_example_conn, Inr (ForwardUdp (cs_local_addr example_client_service) (cs_prefer_ipv6 example_client_service)))"
proof -
  show "udp_pool_start bincode_fixint (Some \<lparr>rx = [], tx = [], wr_left = 9\<rparr>) = Some udp_example_pool"
    by (simp add: udp_pool_start_def write_and_flush_run udp_example_pool_def)
  show "run_data_channel bincode_fixint zero_sha udp_example_args \<lparr>rx = tx (up_conn udp_example_pool), tx = [], wr_left = 9\<rparr> =
     (udp_example_conn, Inr (ForwardUdp (cs_local_addr example_client_service) (cs_prefer_ipv6 example_client_service)))"
    using read_data_cmd_ok [OF bincode_fixint_ok, of "udp_example_conn\<lparr>rx := tx (up_conn udp_example_pool)\<rparr>" StartForwardUdp "[]" zero_sha]
    by (simp add: run_data_channel_def Client.do_data_channel_handshake_def cwrite_ok sbind_def smap_err_def sret_def Let_def
        udp_example_args_def udp_example_pool_def udp_example_conn_def example_args_def)
qed

definition udp_example :: udp_tunnel where
  "udp_example = (after_server (udp_pool_step bincode_fixint (FromVisitor (V4 1 80) [1]) udp_example_pool)
     (udp_tunnel_start udp_example_pool udp_example_conn))\<lparr>ut_visited := [ping]\<rparr>"

lemma udp_example:
  "udp_tunnel_runs bincode_fixint (udp_tunnel_start udp_example_pool udp_example_conn) udp_example"
  "udp_lasting udp_example" "ut_visited udp_example = [ping]" "ut_answered udp_example = []"
proof -
  have alive: "alive (udp_tunnel_start udp_example_pool udp_example_conn)"
    by (simp add: alive_def udp_tunnel_start_def udp_example_pool_def udp_channel_new_def)
  have "udp_tunnel_step bincode_fixint False (udp_tunnel_start udp_example_pool udp_example_conn) udp_example"
    using datagram [OF alive, of "V4 1 80" bincode_fixint "[1]"] by (simp add: udp_example_def udp_tunnel_start_def UDP_BUFFER_SIZE_def)
  then show "udp_tunnel_runs bincode_fixint (udp_tunnel_start udp_example_pool udp_example_conn) udp_example" by blast
  show "udp_lasting udp_example" "ut_visited udp_example = [ping]" "ut_answered udp_example = []"
    by (simp_all add: udp_lasting_def alive_def udp_example_def udp_tunnel_start_def after_server_def udp_channel_new_def
        udp_example_pool_def udp_pool_step_def udp_write_slice_eq udp_write_ok)
qed

lemmas udp_example_reached =
  udp_tunnel_reached [OF bincode_fixint_ok _ _ udp_example_established(1) _ udp_example_established(2)]



end
