(* ===== verification/Bandwidth.thy ===== *)
theory Bandwidth
  imports Float64 Conn
begin

text \<open>
  The bandwidth limiter (\<^verbatim>\<open>bandwidth.rs\<close>): the token bucket in double precision arithmetic and
  the stream that reads and writes through one bucket for each direction.

  An \<^verbatim>\<open>Instant\<close> is a number of nanoseconds and every reading of the clock an argument. The
  wrapped stream is a parameter: what it answers to a poll, and its state afterwards. The
  wake-up that a throttled poll schedules is the flag of the result.
\<close>

section \<open>The token bucket\<close>

record token_bucket =
  tb_rate :: u64
  tb_tokens :: f64
  tb_max_tokens :: f64
  tb_last_refill :: nat

text \<open>
  \<^verbatim>\<open>as_secs_f64\<close> of the time between two readings, zero when the second is the earlier one:
  whole seconds plus nanoseconds over \<open>10\<^sup>9\<close>, both in floating point.
\<close>

definition as_secs_f64 :: "nat \<Rightarrow> f64" where
  "as_secs_f64 d =
     f64_add (f64_of_nat (d div 10 ^ 9)) (f64_div (f64_of_nat (d mod 10 ^ 9)) (f64_of_nat (10 ^ 9)))"

definition tb_new :: "nat \<Rightarrow> u64 \<Rightarrow> token_bucket" where
  "tb_new now bytes_per_sec =
     \<lparr>tb_rate = bytes_per_sec, tb_tokens = f64_of_nat (unat bytes_per_sec),
      tb_max_tokens = f64_of_nat (unat bytes_per_sec), tb_last_refill = now\<rparr>"

definition refill :: "nat \<Rightarrow> token_bucket \<Rightarrow> token_bucket" where
  "refill now b =
     (let elapsed = as_secs_f64 (now - tb_last_refill b) in
      b\<lparr>tb_tokens := f64_min (f64_add (tb_tokens b) (f64_mul elapsed (f64_of_nat (unat (tb_rate b))))) (tb_max_tokens b),
        tb_last_refill := now\<rparr>)"

definition consume :: "nat \<Rightarrow> nat \<Rightarrow> token_bucket \<Rightarrow> token_bucket \<times> bool" where
  "consume now bytes b =
     (let b = refill now b in
      if f64_le (f64_of_nat bytes) (tb_tokens b)
      then (b\<lparr>tb_tokens := f64_sub (tb_tokens b) (f64_of_nat bytes)\<rparr>, True)
      else (b, False))"

definition available :: "nat \<Rightarrow> token_bucket \<Rightarrow> token_bucket \<times> nat" where
  "available now b = (let b = refill now b in (b, f64_as_u64 (tb_tokens b)))"

section \<open>The limited stream\<close>

datatype 'a poll = Pending | Ready "io_error + 'a"

record 's limited_stream =
  ls_inner :: 's
  ls_read_limiter :: "token_bucket option"
  ls_write_limiter :: "token_bucket option"

definition ls_new :: "nat \<Rightarrow> nat \<Rightarrow> 's \<Rightarrow> u64 \<Rightarrow> 's limited_stream" where
  "ls_new now1 now2 inner limit_bytes_per_sec =
     \<lparr>ls_inner = inner,
      ls_read_limiter = (if limit_bytes_per_sec > 0 then Some (tb_new now1 limit_bytes_per_sec) else None),
      ls_write_limiter = (if limit_bytes_per_sec > 0 then Some (tb_new now2 limit_bytes_per_sec) else None)\<rparr>"

definition ls_new_read_only :: "nat \<Rightarrow> 's \<Rightarrow> u64 \<Rightarrow> 's limited_stream" where
  "ls_new_read_only now inner limit_bytes_per_sec =
     \<lparr>ls_inner = inner,
      ls_read_limiter = (if limit_bytes_per_sec > 0 then Some (tb_new now limit_bytes_per_sec) else None),
      ls_write_limiter = None\<rparr>"

text \<open>
  \<open>inner_read k\<close> polls the wrapped stream with a buffer of \<open>k\<close> bytes and gives what it filled
  in, \<open>inner_write\<close> polls it with bytes and gives how many it took. The clock is read once for
  \<^verbatim>\<open>available\<close> and once for \<^verbatim>\<open>consume\<close>.
\<close>

definition poll_read ::
  "(nat \<Rightarrow> 's \<Rightarrow> 's \<times> bytes poll) \<Rightarrow> nat \<Rightarrow> nat \<Rightarrow> nat \<Rightarrow> 's limited_stream \<Rightarrow> 's limited_stream \<times> bytes poll \<times> bool" where
  "poll_read inner_read now1 now2 remaining ls =
     (case ls_read_limiter ls of
        Some limiter \<Rightarrow>
          (case available now1 limiter of (limiter, n) \<Rightarrow>
             if n = 0 then (ls\<lparr>ls_read_limiter := Some limiter\<rparr>, Pending, True)
             else
               (case inner_read (min n remaining) (ls_inner ls) of
                  (inner, Ready (Inr filled)) \<Rightarrow>
                    (ls\<lparr>ls_inner := inner, ls_read_limiter := Some (fst (consume now2 (length filled) limiter))\<rparr>,
                     Ready (Inr filled), False)
                | (inner, other) \<Rightarrow> (ls\<lparr>ls_inner := inner, ls_read_limiter := Some limiter\<rparr>, other, False)))
      | None \<Rightarrow> (case inner_read remaining (ls_inner ls) of (inner, r) \<Rightarrow> (ls\<lparr>ls_inner := inner\<rparr>, r, False)))"

definition poll_write ::
  "(bytes \<Rightarrow> 's \<Rightarrow> 's \<times> nat poll) \<Rightarrow> nat \<Rightarrow> nat \<Rightarrow> bytes \<Rightarrow> 's limited_stream \<Rightarrow> 's limited_stream \<times> nat poll \<times> bool" where
  "poll_write inner_write now1 now2 buf ls =
     (case ls_write_limiter ls of
        Some limiter \<Rightarrow>
          (case available now1 limiter of (limiter, n) \<Rightarrow>
             if n = 0 then (ls\<lparr>ls_write_limiter := Some limiter\<rparr>, Pending, True)
             else
               (case inner_write (take (min n (length buf)) buf) (ls_inner ls) of
                  (inner, Ready (Inr k)) \<Rightarrow>
                    (ls\<lparr>ls_inner := inner, ls_write_limiter := Some (fst (consume now2 k limiter))\<rparr>,
                     Ready (Inr k), False)
                | (inner, other) \<Rightarrow> (ls\<lparr>ls_inner := inner, ls_write_limiter := Some limiter\<rparr>, other, False)))
      | None \<Rightarrow> (case inner_write buf (ls_inner ls) of (inner, r) \<Rightarrow> (ls\<lparr>ls_inner := inner\<rparr>, r, False)))"

text \<open>\<^verbatim>\<open>poll_flush\<close> and \<^verbatim>\<open>poll_shutdown\<close> are those of the wrapped stream.\<close>

definition poll_inner :: "('s \<Rightarrow> 's \<times> unit poll) \<Rightarrow> 's limited_stream \<Rightarrow> 's limited_stream \<times> unit poll" where
  "poll_inner inner_poll ls = (case inner_poll (ls_inner ls) of (inner, r) \<Rightarrow> (ls\<lparr>ls_inner := inner\<rparr>, r))"

section \<open>The bucket is never overdrawn\<close>

text \<open>The level of a bucket is finite, representable, and between zero and the maximum.\<close>

definition tb_ok :: "token_bucket \<Rightarrow> bool" where
  "tb_ok b =
     (case (tb_tokens b, tb_max_tokens b) of
        (Fin t, Fin m) \<Rightarrow> 0 \<le> t \<and> t \<le> m \<and> f64_round_mag t = t \<and> f64_round_mag m = m \<and>
          f64_of_nat (unat (tb_rate b)) = Fin m
      | _ \<Rightarrow> False)"

text \<open>The number of tokens, of a bucket whose level is finite.\<close>

definition level :: "token_bucket \<Rightarrow> rat" where
  "level b = (case tb_tokens b of Fin t \<Rightarrow> t | _ \<Rightarrow> 0)"

lemma tb_okE:
  assumes "tb_ok b"
  obtains t m where "tb_tokens b = Fin t" "tb_max_tokens b = Fin m" "level b = t" "0 \<le> t" "t \<le> m"
    "f64_round_mag t = t" "f64_round_mag m = m" "f64_of_nat (unat (tb_rate b)) = Fin m"
  using assms by (auto simp: tb_ok_def level_def split: f64.splits)

lemma f64_round_pos_cases:
  assumes "0 \<le> q"
  obtains "f64_round q = Fin (f64_round_mag q)" "0 \<le> f64_round_mag q" | "f64_round q = Infinity False"
  using assms f64_round_mag_nonneg [of q] by (cases "f64_max \<le> f64_round_mag q") (simp_all add: f64_round_def)

text \<open>Not a negative number: what a sum, a product and a quotient of such values is again.\<close>

fun not_neg :: "f64 \<Rightarrow> bool" where
  "not_neg NaN = True"
| "not_neg (Infinity s) = (\<not> s)"
| "not_neg (Fin q) = (0 \<le> q)"

lemma not_neg_round: "0 \<le> q \<Longrightarrow> not_neg (f64_round q)"
  by (erule f64_round_pos_cases) auto

lemma not_neg_ops:
  assumes "not_neg x" "not_neg y"
  shows "not_neg (f64_add x y)" "not_neg (f64_mul x y)" "not_neg (f64_div x y)"
  using assms by (cases x; cases y; simp add: not_neg_round)+

lemma not_neg_of_nat [simp]: "not_neg (f64_of_nat n)"
  by (simp add: f64_of_nat_def not_neg_round)

lemma as_secs_not_neg: "not_neg (as_secs_f64 d)"
  by (simp add: as_secs_f64_def not_neg_ops)

lemma f64_of_nat_fin:
  assumes "n \<le> 2 ^ 64"
  shows "f64_of_nat n = Fin (f64_round_mag (of_nat n))"
proof -
  have "(of_nat n :: rat) \<le> of_nat (2 ^ 64)"
    using assms by (simp only: of_nat_le_iff)
  then have "(of_nat n :: rat) \<le> pow2 64"
    by (simp add: pow2_def)
  then show ?thesis
    by (simp add: f64_of_nat_def f64_round_small)
qed

lemma unat_u64_le: "unat (x :: u64) \<le> 2 ^ 64"
  using unsigned_less [of x, where 'a = nat] by simp

lemma tb_new_ok:
  "tb_ok (tb_new now r) \<and> level (tb_new now r) = f64_round_mag (of_nat (unat r))"
proof -
  have "f64_of_nat (unat r) = Fin (f64_round_mag (of_nat (unat r)))"
    by (rule f64_of_nat_fin [OF unat_u64_le])
  then show ?thesis
    unfolding tb_ok_def tb_new_def level_def
    by (simp add: f64_round_mag_nonneg f64_round_mag_idem del: of_nat_unat)
qed

lemma f64_min_cap:
  assumes "0 \<le> t" "t \<le> m" "f64_round_mag t = t" "f64_round_mag m = m" "not_neg x"
  obtains t' where "f64_min (f64_add (Fin t) x) (Fin m) = Fin t'" "t \<le> t'" "t' \<le> m" "f64_round_mag t' = t'"
proof (cases x)
  case (Fin y)
  with assms have y: "0 \<le> y" "0 \<le> t + y" by auto
  from y(2) show ?thesis
  proof (cases rule: f64_round_pos_cases)
    case 1
    then have "f64_min (f64_add (Fin t) x) (Fin m) = Fin (min (f64_round_mag (t + y)) m)"
      by (simp add: Fin f64_min_def min_def)
    then show ?thesis
      using mag.rnd_refill [OF assms(1,3,2,4) y(1)] by (intro that) auto
  next
    case 2
    then show ?thesis using assms that [of m] by (simp add: Fin f64_min_def)
  qed
qed (use assms that [of m] in \<open>simp_all add: f64_min_def\<close>)

lemma refill_rate [simp]:
  "tb_rate (refill now b) = tb_rate b" "tb_max_tokens (refill now b) = tb_max_tokens b"
  "tb_last_refill (refill now b) = now"
  by (simp_all add: refill_def Let_def)

lemma refill_ok:
  assumes "tb_ok b"
  shows "tb_ok (refill now b) \<and> level b \<le> level (refill now b)"
proof -
  obtain t m where b: "tb_tokens b = Fin t" "tb_max_tokens b = Fin m" "level b = t" "0 \<le> t" "t \<le> m"
      "f64_round_mag t = t" "f64_round_mag m = m" "f64_of_nat (unat (tb_rate b)) = Fin m"
    using assms by (rule tb_okE)
  have "not_neg (f64_mul (as_secs_f64 (now - tb_last_refill b)) (f64_of_nat (unat (tb_rate b))))"
    by (simp add: not_neg_ops as_secs_not_neg)
  from f64_min_cap [OF b(4-7) this] obtain t' where
    "tb_tokens (refill now b) = Fin t'" "t \<le> t'" "t' \<le> m" "f64_round_mag t' = t'"
    by (auto simp: refill_def Let_def b(1,2))
  then show ?thesis
    using b by (simp add: tb_ok_def level_def)
qed

text \<open>What \<^verbatim>\<open>available\<close> promises can be consumed, also at a later reading of the clock.\<close>

lemma consume_ok:
  assumes "tb_ok b" and "int n \<le> \<lfloor>level b\<rfloor>"
  shows "snd (consume now n b) \<and> tb_ok (fst (consume now n b)) \<and>
    level (fst (consume now n b)) = f64_round_mag (level (refill now b) - f64_round_mag (of_nat n)) \<and>
    tb_rate (fst (consume now n b)) = tb_rate b \<and> tb_last_refill (fst (consume now n b)) = now"
proof -
  let ?r = "refill now b"
  have ok: "tb_ok ?r" and up: "level b \<le> level ?r"
    using refill_ok [OF assms(1)] by auto
  obtain t m where r: "tb_tokens ?r = Fin t" "tb_max_tokens ?r = Fin m" "level ?r = t" "0 \<le> t" "t \<le> m"
      "f64_round_mag t = t" "f64_round_mag m = m" "f64_of_nat (unat (tb_rate ?r)) = Fin m"
    using ok by (rule tb_okE)
  let ?q = "t - f64_round_mag (of_nat n)"
  have n: "int n \<le> \<lfloor>t\<rfloor>"
    using assms(2) up r(3) floor_mono [of "level b" t] by linarith
  have spend: "f64_round_mag (of_nat n) \<le> t" "0 \<le> f64_round_mag ?q" "f64_round_mag ?q \<le> t"
    using mag.rnd_spend [OF r(4,6) n] by auto
  have m: "m \<le> pow2 64"
  proof -
    have "m = f64_round_mag (of_nat (unat (tb_rate ?r)))"
      using r(8) f64_of_nat_fin [OF unat_u64_le, of "tb_rate ?r"] by simp
    moreover have "(of_nat (unat (tb_rate ?r)) :: rat) \<le> of_nat (2 ^ 64)"
      using unat_u64_le [of "tb_rate ?r"] by (simp only: of_nat_le_iff)
    ultimately show ?thesis
      using f64_round_small(2) [of "of_nat (unat (tb_rate ?r))" 64]
      by (simp add: pow2_def del: of_nat_unat)
  qed
  have "of_nat n \<le> t"
    using n by (simp add: le_floor_iff)
  then have "f64_round (of_nat n) = Fin (f64_round_mag (of_nat n))"
    using m r(5) by (intro f64_round_small(1) [of _ 64]) auto
  then have nat: "f64_of_nat n = Fin (f64_round_mag (of_nat n))"
    by (simp add: f64_of_nat_def)
  have "0 \<le> f64_round_mag (of_nat n)" by (simp add: f64_round_mag_nonneg)
  then have sub: "f64_round ?q = Fin (f64_round_mag ?q)"
    using m r(5) spend by (intro f64_round_small(1) [of _ 64]) auto
  have eq: "consume now n b = (?r\<lparr>tb_tokens := Fin (f64_round_mag ?q)\<rparr>, True)"
    using spend(1) sub by (simp add: consume_def Let_def r(1) nat f64_sub_def)
  have "f64_round_mag (f64_round_mag ?q) = f64_round_mag ?q"
    using spend(1) by (intro f64_round_mag_idem) simp
  then show ?thesis
    unfolding eq using r spend by (simp add: tb_ok_def level_def)
qed

section \<open>The rate is kept\<close>

text \<open>One rounding of a value up to \<open>K\<close> is off by less than \<open>K / 2\<^sup>5\<^sup>3\<close>.\<close>

lemma round_half_even_le: "of_int (round_half_even x) \<le> x + 1 / 2"
proof -
  define f where "f = \<lfloor>x\<rfloor>"
  have "of_int f \<le> x" by (simp add: f_def)
  then have "of_int f \<le> x + 1 / 2" and "\<not> x - of_int f < 1 / 2 \<Longrightarrow> of_int (f + 1) \<le> x + 1 / 2"
    by simp_all
  then show ?thesis
    unfolding round_half_even_def Let_def f_def [symmetric] by (simp split: if_split)
qed

lemma f64_round_mag_le:
  assumes "0 \<le> q" "q \<le> K" "1 \<le> K"
  shows "f64_round_mag q \<le> q + K / 2 ^ 53"
proof (cases "q = 0")
  case False
  with assms have q: "0 < q" by simp
  let ?e = "f64_ulp q"
  have "of_int (round_half_even (q / pow2 ?e)) * pow2 ?e \<le> (q / pow2 ?e + 1 / 2) * pow2 ?e"
    by (intro mult_right_mono round_half_even_le) simp
  also have "\<dots> = q + pow2 ?e * pow2 (- 1)"
    by (simp add: algebra_simps) (simp add: pow2_def)
  finally have le: "f64_round_mag q \<le> q + pow2 (?e - 1)"
    using q by (simp add: f64_round_mag_def flip: pow2_add)
  have "pow2 (?e - 1) \<le> K * pow2 (- 53)"
  proof (cases "?e = - 1074")
    case True
    then have "pow2 (?e - 1) \<le> 1 * pow2 (- 53)"
      by (simp add: pow2_mono)
    also have "\<dots> \<le> K * pow2 (- 53)"
      using assms by (intro mult_right_mono) auto
    finally show ?thesis .
  next
    case False
    then have "pow2 (?e - 1) = pow2 (ilog2 q) * pow2 (- 53)"
      by (simp add: f64_ulp_def max_def split: if_splits flip: pow2_add)
    also have "\<dots> \<le> K * pow2 (- 53)"
      using ilog2_bounds [OF q] assms by (intro mult_right_mono) auto
    finally show ?thesis .
  qed
  then show ?thesis
    using le by (simp add: pow2_def)
qed (use assms in \<open>simp add: f64_round_mag_zero\<close>)

text \<open>Below one second the elapsed time is off by at most one unit of \<open>2\<^sup>-\<^sup>5\<^sup>3\<close>, and at most one.\<close>

lemma as_secs_small:
  assumes "d < 10 ^ 9"
  obtains e where "as_secs_f64 d = Fin e" "0 \<le> e" "e \<le> 1" "e \<le> of_nat d / 10 ^ 9 + 1 / 2 ^ 53"
proof -
  let ?q = "(of_nat d :: rat) / 10 ^ 9"
  have "(of_nat d :: rat) < of_nat (10 ^ 9)"
    using assms by (simp only: of_nat_less_iff)
  then have q: "0 \<le> ?q" "?q \<le> 1" by simp_all
  have "f64_of_nat d = Fin (of_nat d)" "f64_of_nat (10 ^ 9) = Fin (10 ^ 9)" "f64_of_nat 0 = Fin 0"
    using assms f64_round_int [of d] f64_round_int [of "10 ^ 9"] f64_round_int [of 0]
    by (simp_all add: f64_of_nat_def)
  moreover have one: "f64_round_mag 1 = 1"
    using pow2_numeral_exact(1) [of 0] by (simp add: pow2_def)
  have small: "f64_round_mag ?q \<le> 1" "0 \<le> f64_round_mag ?q"
    using q one mag.rnd_below [of ?q 1] f64_round_mag_nonneg [of ?q] by auto
  have "f64_round ?q = Fin (f64_round_mag ?q)"
    using q f64_round_small(1) [of ?q 0] by (simp add: pow2_def)
  moreover have "f64_round (f64_round_mag ?q) = Fin (f64_round_mag ?q)"
    using small f64_round_small(1) [of "f64_round_mag ?q" 0] q by (simp add: pow2_def f64_round_mag_idem)
  ultimately have "as_secs_f64 d = Fin (f64_round_mag ?q)"
    using assms by (simp add: as_secs_f64_def)
  moreover have "f64_round_mag ?q \<le> ?q + 1 / 2 ^ 53"
    using q by (intro f64_round_mag_le) auto
  ultimately show ?thesis using small by (intro that)
qed

text \<open>The rates for which the conversion to floating point is exact, and positive.\<close>

definition rate_ok :: "token_bucket \<Rightarrow> bool" where
  "rate_ok b \<longleftrightarrow> 0 < unat (tb_rate b) \<and> unat (tb_rate b) < 2 ^ 53"

definition rate :: "token_bucket \<Rightarrow> rat" where
  "rate b = of_nat (unat (tb_rate b))"

lemma rate_okD:
  assumes "rate_ok b"
  shows "f64_of_nat (unat (tb_rate b)) = Fin (rate b)" "1 \<le> rate b" "rate b \<le> pow2 53"
proof -
  have n: "1 \<le> unat (tb_rate b)" "unat (tb_rate b) < 2 ^ 53"
    using assms by (auto simp: rate_ok_def)
  then have "(of_nat 1 :: rat) \<le> of_nat (unat (tb_rate b))" "(of_nat (unat (tb_rate b)) :: rat) \<le> of_nat (2 ^ 53)"
    by (simp_all only: of_nat_le_iff less_imp_le)
  then show "1 \<le> rate b" "rate b \<le> pow2 53"
    by (simp_all add: rate_def pow2_def del: of_nat_unat)
  show "f64_of_nat (unat (tb_rate b)) = Fin (rate b)"
    unfolding rate_def f64_of_nat_def using n(2) by (rule f64_round_int)
qed

lemma one_second: "10 ^ 9 \<le> d \<Longrightarrow> (1 :: rat) \<le> of_nat d / 10 ^ 9 + 4 / 2 ^ 53"
proof -
  assume "10 ^ 9 \<le> d"
  then have "(of_nat (10 ^ 9) :: rat) \<le> of_nat d" by (simp only: of_nat_le_iff)
  then show ?thesis by simp
qed

lemma refill_gain:
  assumes "tb_ok b" and "rate_ok b"
  shows "level (refill now b) \<le> level b + rate b * (of_nat (now - tb_last_refill b) / 10 ^ 9 + 4 / 2 ^ 53)"
proof -
  let ?r = "rate b" and ?d = "now - tb_last_refill b" and ?u = "1 / 2 ^ 53 :: rat"
  note r = rate_okD [OF assms(2)]
  obtain t where b: "tb_tokens b = Fin t" "tb_max_tokens b = Fin ?r" "level b = t" "0 \<le> t" "t \<le> ?r"
    using assms(1) r(1) by (auto elim!: tb_okE)
  have cap: "level (refill now b) \<le> ?r"
    using refill_ok [OF assms(1), of now] b(2) by (auto elim!: tb_okE)
  show ?thesis
  proof (cases "?d < 10 ^ 9")
    case False
    then have "?r * 1 \<le> ?r * (of_nat ?d / 10 ^ 9 + 4 / 2 ^ 53)"
      using r(2) by (intro mult_left_mono one_second) auto
    then show ?thesis using cap b by linarith
  next
    case True
    then obtain e where e: "as_secs_f64 ?d = Fin e" "0 \<le> e" "e \<le> 1" "e \<le> of_nat ?d / 10 ^ 9 + ?u"
      by (rule as_secs_small)
    have er: "0 \<le> e * ?r" "e * ?r \<le> ?r" "e * ?r \<le> ?r * (of_nat ?d / 10 ^ 9 + ?u)"
      using e r(2) mult_right_mono [OF e(3), of ?r] mult_right_mono [OF e(4), of ?r] by (auto simp: mult.commute)
    let ?x = "f64_round_mag (e * ?r)"
    have "f64_round_mag ?r = ?r"
      using assms(1) b(2) by (auto elim!: tb_okE)
    then have x: "0 \<le> ?x" "?x \<le> ?r" "?x \<le> e * ?r + ?r * ?u"
      using er r(2) mag.rnd_below [of "e * ?r" ?r] f64_round_mag_le [of "e * ?r" ?r] f64_round_mag_nonneg [of "e * ?r"]
      by auto
    have mul: "f64_round (e * ?r) = Fin ?x"
      using order_trans [OF er(2) r(3)] er(1) by (intro f64_round_small(1) [of _ 53]) simp_all
    have "t + ?x \<le> 2 * ?r" using b(5) x(2) by simp
    also have "2 * ?r \<le> pow2 54"
      using r(3) by (simp add: pow2_def)
    finally have add: "f64_round (t + ?x) = Fin (f64_round_mag (t + ?x))"
      using b(4) x(1) by (intro f64_round_small(1) [of _ 54]) auto
    have "level (refill now b) = min (f64_round_mag (t + ?x)) ?r"
      by (simp add: level_def refill_def Let_def b(1,2) e(1) r(1) mul add f64_min_def min_def)
    also have "\<dots> \<le> (t + ?x) + (2 * ?r) * ?u"
      using f64_round_mag_le [of "t + ?x" "2 * ?r"] b x r(2) by simp
    finally show ?thesis
      using x(3) er(3) b(3) by (simp add: algebra_simps)
  qed
qed

text \<open>
  The credit of a bucket is its level, less what its rate has granted up to the last refill.
  Drawing bytes lowers it by as much, up to the roundings.
\<close>

definition credit :: "token_bucket \<Rightarrow> rat" where
  "credit b = level b - rate b * (of_nat (tb_last_refill b) / 10 ^ 9)"

definition draws :: "nat \<Rightarrow> nat \<Rightarrow> token_bucket \<Rightarrow> token_bucket \<Rightarrow> bool" where
  "draws now n b b' \<longleftrightarrow> tb_ok b' \<and> tb_rate b' = tb_rate b \<and> tb_last_refill b' \<le> now \<and>
     of_nat n + credit b' \<le> credit b + rate b * (9 / 2 ^ 53)"

lemma rate_cong: "tb_rate b' = tb_rate b \<Longrightarrow> rate b' = rate b \<and> rate_ok b' = rate_ok b"
  by (simp add: rate_def rate_ok_def)

lemma refill_credit:
  assumes "tb_ok b" "rate_ok b" "tb_last_refill b \<le> now"
  shows "credit (refill now b) \<le> credit b + rate b * (4 / 2 ^ 53)"
proof -
  have "rate (refill now b) = rate b"
    using rate_cong [of "refill now b" b] by simp
  then show ?thesis
    using refill_gain [OF assms(1,2), of now] assms(3) by (simp add: credit_def of_nat_diff diff_divide_distrib algebra_simps)
qed

lemma refill_draws:
  assumes "tb_ok b" "rate_ok b" "tb_last_refill b \<le> now1" "now1 \<le> now"
  shows "draws now 0 b (refill now1 b)"
  using refill_credit [OF assms(1-3)] refill_ok [OF assms(1)] assms(4) rate_okD(2) [OF assms(2)]
  by (simp add: draws_def)

lemma consume_draws:
  assumes "tb_ok b" "rate_ok b" "tb_last_refill b \<le> now1" "now1 \<le> now2" "n \<le> snd (available now1 b)"
  shows "draws now2 n b (fst (consume now2 n (refill now1 b))) \<and> snd (consume now2 n (refill now1 b))"
proof -
  let ?b = "refill now1 b"
  let ?c = "refill now2 ?b"
  have ok: "tb_ok ?b" and rate: "rate ?b = rate b" "rate ?c = rate b" "rate_ok ?b"
    using refill_ok [OF assms(1)] rate_cong [of ?b b] rate_cong [of ?c b] assms(2) by auto
  have "int n \<le> \<lfloor>level ?b\<rfloor>"
    using assms(5) ok by (auto simp: available_def Let_def le_nat_iff elim!: tb_okE)
  note c = consume_ok [OF ok this, of now2]
  obtain t where t: "level ?c = t" "t \<le> rate b" "of_nat n \<le> t"
  proof -
    have "tb_ok ?c" "level ?b \<le> level ?c" using refill_ok [OF ok] by auto
    moreover have "of_nat n \<le> level ?b"
      using \<open>int n \<le> \<lfloor>level ?b\<rfloor>\<close> by (simp add: le_floor_iff)
    moreover have "tb_max_tokens ?c = Fin (rate b)"
      using assms(1) rate_okD(1) [OF assms(2)] by (auto elim!: tb_okE)
    ultimately show ?thesis by (intro that [OF refl]) (auto elim!: tb_okE)
  qed
  note r = rate_okD [OF assms(2)]
  have "(of_nat n :: rat) \<le> pow2 53" using t r(3) by linarith
  then have "(of_nat n :: rat) \<le> of_nat (2 ^ 53)" by (simp add: pow2_def)
  then have "n \<le> 2 ^ 53" by (simp only: of_nat_le_iff)
  then have exact: "f64_round_mag (of_nat n) = of_nat n"
    using f64_round_mag_exact [of "int n" 0] pow2_numeral_exact(1) [of 53]
    by (cases "n = 2 ^ 53") (simp_all add: pow2_def)
  have "f64_round_mag (t - of_nat n) \<le> (t - of_nat n) + rate b / 2 ^ 53"
    using t r(2) by (intro f64_round_mag_le) simp_all
  then have "of_nat n + level (fst (consume now2 n ?b)) \<le> level ?c + rate b / 2 ^ 53"
    using c exact t(1) by simp
  moreover have "credit ?c \<le> credit ?b + rate b * (4 / 2 ^ 53)"
    using refill_credit [OF ok rate(3), of now2] assms(4) rate(1) by simp
  moreover have "credit ?b \<le> credit b + rate b * (4 / 2 ^ 53)"
    using refill_credit [OF assms(1-3)] .
  moreover have "rate (fst (consume now2 n ?b)) = rate b"
    using c rate_cong [of "fst (consume now2 n ?b)" b] by simp
  then have "credit (fst (consume now2 n ?b)) = level (fst (consume now2 n ?b)) - level ?c + credit ?c"
    using c rate(2) by (simp only: credit_def refill_rate)
  ultimately have "of_nat n + credit (fst (consume now2 n ?b)) \<le> credit b + rate b * (9 / 2 ^ 53)"
    by simp
  then show ?thesis
    using c by (simp add: draws_def)
qed

text \<open>
  What the limiter relies on: the wrapped stream fills in no more than the buffer holds, and
  takes no more bytes than it is given.
\<close>

definition fills_at_most :: "(nat \<Rightarrow> 's \<Rightarrow> 's \<times> bytes poll) \<Rightarrow> bool" where
  "fills_at_most rd \<longleftrightarrow> (\<forall>k s s' bs. rd k s = (s', Ready (Inr bs)) \<longrightarrow> length bs \<le> k)"

definition takes_at_most :: "(bytes \<Rightarrow> 's \<Rightarrow> 's \<times> nat poll) \<Rightarrow> bool" where
  "takes_at_most wr \<longleftrightarrow> (\<forall>bs s s' k. wr bs s = (s', Ready (Inr k)) \<longrightarrow> k \<le> length bs)"

text \<open>A run of polls, with the bytes read and the bytes written.\<close>

datatype poll_event = PollRead nat nat nat | PollWrite nat nat bytes

fun times :: "poll_event \<Rightarrow> nat list" where
  "times (PollRead now1 now2 remaining) = [now1, now2]"
| "times (PollWrite now1 now2 buf) = [now1, now2]"

fun ls_step ::
  "(nat \<Rightarrow> 's \<Rightarrow> 's \<times> bytes poll) \<Rightarrow> (bytes \<Rightarrow> 's \<Rightarrow> 's \<times> nat poll) \<Rightarrow> poll_event \<Rightarrow>
   's limited_stream \<Rightarrow> 's limited_stream \<times> nat \<times> nat" where
  "ls_step rd wr (PollRead now1 now2 remaining) ls =
     (case poll_read rd now1 now2 remaining ls of
        (ls', p, _) \<Rightarrow> (ls', (case p of Ready (Inr bs) \<Rightarrow> length bs | _ \<Rightarrow> 0), 0))"
| "ls_step rd wr (PollWrite now1 now2 buf) ls =
     (case poll_write wr now1 now2 buf ls of
        (ls', p, _) \<Rightarrow> (ls', 0, (case p of Ready (Inr n) \<Rightarrow> n | _ \<Rightarrow> 0)))"

fun ls_run ::
  "(nat \<Rightarrow> 's \<Rightarrow> 's \<times> bytes poll) \<Rightarrow> (bytes \<Rightarrow> 's \<Rightarrow> 's \<times> nat poll) \<Rightarrow> poll_event list \<Rightarrow>
   's limited_stream \<Rightarrow> 's limited_stream \<times> nat \<times> nat" where
  "ls_run rd wr [] ls = (ls, 0, 0)"
| "ls_run rd wr (e # es) ls =
     (case ls_step rd wr e ls of (ls1, r1, w1) \<Rightarrow>
        (case ls_run rd wr es ls1 of (ls', r, w) \<Rightarrow> (ls', r1 + r, w1 + w)))"

lemma poll_read_draws:
  assumes "fills_at_most rd"
    and "ls_read_limiter ls = Some b" "tb_ok b" "rate_ok b" "tb_last_refill b \<le> now1" "now1 \<le> now2"
    and "poll_read rd now1 now2 remaining ls = (ls1, p, wk)"
  obtains b' where "ls_read_limiter ls1 = Some b'" "ls_write_limiter ls1 = ls_write_limiter ls"
    "draws now2 (case p of Ready (Inr bs) \<Rightarrow> length bs | _ \<Rightarrow> 0) b b'"
proof -
  obtain n where n: "n = snd (available now1 b)" and av: "available now1 b = (refill now1 b, n)"
    by (simp add: available_def Let_def)
  have idle: "draws now2 0 b (refill now1 b)"
    using assms by (intro refill_draws)
  show ?thesis
  proof (cases "n = 0")
    case True
    then show ?thesis
      using assms(2,7) av idle by (intro that) (auto simp: poll_read_def)
  next
    case False
    obtain inner q where q: "rd (min n remaining) (ls_inner ls) = (inner, q)" by force
    have step: "draws now2 (length bs) b (fst (consume now2 (length bs) (refill now1 b)))" if "q = Ready (Inr bs)" for bs
    proof -
      have "length bs \<le> n" using assms(1) q that by (fastforce simp: fills_at_most_def)
      with assms n show ?thesis by (simp add: consume_draws)
    qed
    note poll = assms(7) [unfolded poll_read_def assms(2) option.case av prod.case q if_not_P [OF False]]
    show ?thesis
    proof (cases q)
      case Pending
      then show ?thesis using poll idle by (intro that) auto
    next
      case (Ready r)
      then show ?thesis
        using poll idle step by (cases r) (auto intro!: that)
    qed
  qed
qed

lemma poll_write_draws:
  assumes "takes_at_most wr"
    and "ls_write_limiter ls = Some b" "tb_ok b" "rate_ok b" "tb_last_refill b \<le> now1" "now1 \<le> now2"
    and "poll_write wr now1 now2 buf ls = (ls1, p, wk)"
  obtains b' where "ls_write_limiter ls1 = Some b'" "ls_read_limiter ls1 = ls_read_limiter ls"
    "draws now2 (case p of Ready (Inr k) \<Rightarrow> k | _ \<Rightarrow> 0) b b'"
proof -
  obtain n where n: "n = snd (available now1 b)" and av: "available now1 b = (refill now1 b, n)"
    by (simp add: available_def Let_def)
  have idle: "draws now2 0 b (refill now1 b)"
    using assms by (intro refill_draws)
  show ?thesis
  proof (cases "n = 0")
    case True
    then show ?thesis
      using assms(2,7) av idle by (intro that) (auto simp: poll_write_def)
  next
    case False
    obtain inner q where q: "wr (take (min n (length buf)) buf) (ls_inner ls) = (inner, q)" by force
    have step: "draws now2 k b (fst (consume now2 k (refill now1 b)))" if "q = Ready (Inr k)" for k
    proof -
      have "k \<le> n" using assms(1) q that by (fastforce simp: takes_at_most_def)
      with assms n show ?thesis by (simp add: consume_draws)
    qed
    note poll = assms(7) [unfolded poll_write_def assms(2) option.case av prod.case q if_not_P [OF False]]
    show ?thesis
    proof (cases q)
      case Pending
      then show ?thesis using poll idle by (intro that) auto
    next
      case (Ready r)
      then show ?thesis
        using poll idle step by (cases r) (auto intro!: that)
    qed
  qed
qed

lemma draws_trans:
  assumes "draws now1 n b b'" "of_nat m + credit c \<le> credit b' + rate b' * (9 * k / 2 ^ 53)"
  shows "of_nat (n + m) + credit c \<le> credit b + rate b * (9 * (k + 1) / 2 ^ 53)"
proof -
  have "rate b' = rate b"
    using assms(1) rate_cong [of b' b] by (simp add: draws_def)
  then show ?thesis
    using assms by (simp add: draws_def field_simps)
qed

text \<open>
  The accounts of a run, for one direction: \<open>lmt\<close> is its limiter and \<open>amount\<close> its part of the
  totals.
\<close>

lemma run_credit:
  assumes step: "\<And>e ls b. lmt ls = Some b \<Longrightarrow> tb_ok b \<Longrightarrow> rate_ok b \<Longrightarrow> sorted (tb_last_refill b # times e) \<Longrightarrow>
      \<exists>b'. lmt (fst (ls_step rd wr e ls)) = Some b' \<and> draws (last (times e)) (amount (snd (ls_step rd wr e ls))) b b'"
    and amount: "\<And>r w r' w'. amount (r + r', w + w') = amount (r, w) + amount (r', w')" "amount (0, 0) = 0"
    and "lmt ls = Some b" "tb_ok b" "rate_ok b" "sorted (tb_last_refill b # concat (map times es) @ [now])"
  shows "\<exists>b'. lmt (fst (ls_run rd wr es ls)) = Some b' \<and> tb_ok b' \<and> tb_rate b' = tb_rate b \<and> tb_last_refill b' \<le> now \<and>
      of_nat (amount (snd (ls_run rd wr es ls))) + credit b' \<le> credit b + rate b * (9 * of_nat (length es) / 2 ^ 53)"
  using assms(4-)
proof (induction es arbitrary: ls b)
  case Nil
  then show ?case by (simp add: amount)
next
  case (Cons e es)
  obtain ls1 r1 w1 where s: "ls_step rd wr e ls = (ls1, r1, w1)" by (cases "ls_step rd wr e ls") auto
  obtain ls' r w where run: "ls_run rd wr es ls1 = (ls', r, w)" by (cases "ls_run rd wr es ls1") auto
  have "sorted (tb_last_refill b # times e)"
    using Cons.prems(4) by (auto simp: sorted_append)
  from step [OF Cons.prems(1-3) this] obtain b1 where b1: "lmt ls1 = Some b1"
      and d: "draws (last (times e)) (amount (r1, w1)) b b1"
    by (auto simp: s)
  have "last (times e) \<in> set (times e)" by (cases e) auto
  then have "sorted (tb_last_refill b1 # concat (map times es) @ [now])"
    using Cons.prems(4) d by (fastforce simp: sorted_append draws_def)
  moreover have "tb_ok b1" "rate_ok b1" and rate: "tb_rate b1 = tb_rate b"
    using d Cons.prems(3) rate_cong [of b1 b] by (auto simp: draws_def)
  ultimately obtain b' where "lmt ls' = Some b'" "tb_ok b'" "tb_rate b' = tb_rate b1" "tb_last_refill b' \<le> now"
      and c: "of_nat (amount (r, w)) + credit b' \<le> credit b1 + rate b1 * (9 * of_nat (length es) / 2 ^ 53)"
    using Cons.IH [OF b1] by (auto simp: run)
  then show ?case
    using draws_trans [OF d c] rate by (simp add: s run amount add.commute)
qed

lemma draws_refl: "tb_ok b \<Longrightarrow> rate_ok b \<Longrightarrow> tb_last_refill b \<le> now \<Longrightarrow> draws now 0 b b"
  using rate_okD(2) [of b] by (simp add: draws_def)

lemma untouched [simp]:
  "ls_write_limiter (fst (poll_read rd now1 now2 remaining ls)) = ls_write_limiter ls"
  "ls_read_limiter (fst (poll_write wr now1 now2 buf ls)) = ls_read_limiter ls"
  by (auto simp: poll_read_def poll_write_def split: option.splits prod.splits poll.splits sum.splits)

lemma read_step:
  assumes "fills_at_most rd" "ls_read_limiter ls = Some b" "tb_ok b" "rate_ok b" "sorted (tb_last_refill b # times e)"
  shows "\<exists>b'. ls_read_limiter (fst (ls_step rd wr e ls)) = Some b' \<and> draws (last (times e)) (fst (snd (ls_step rd wr e ls))) b b'"
proof (cases e)
  case (PollRead now1 now2 remaining)
  obtain ls1 p wk where p: "poll_read rd now1 now2 remaining ls = (ls1, p, wk)"
    by (cases "poll_read rd now1 now2 remaining ls") auto
  show ?thesis
    using poll_read_draws [OF assms(1-4) _ _ p] assms(5) by (simp add: PollRead p) metis
next
  case (PollWrite now1 now2 buf)
  then show ?thesis
    using assms draws_refl [of b now2] untouched(2) [of wr now1 now2 buf ls] by (auto simp: split_beta simp del: untouched)
qed

lemma write_step:
  assumes "takes_at_most wr" "ls_write_limiter ls = Some b" "tb_ok b" "rate_ok b" "sorted (tb_last_refill b # times e)"
  shows "\<exists>b'. ls_write_limiter (fst (ls_step rd wr e ls)) = Some b' \<and> draws (last (times e)) (snd (snd (ls_step rd wr e ls))) b b'"
proof (cases e)
  case (PollWrite now1 now2 buf)
  obtain ls1 p wk where p: "poll_write wr now1 now2 buf ls = (ls1, p, wk)"
    by (cases "poll_write wr now1 now2 buf ls") auto
  show ?thesis
    using poll_write_draws [OF assms(1-4) _ _ p] assms(5) by (simp add: PollWrite p) metis
next
  case (PollRead now1 now2 remaining)
  then show ?thesis
    using assms draws_refl [of b now2] untouched(1) [of rd now1 now2 remaining ls] by (auto simp: split_beta simp del: untouched)
qed

text \<open>The bytes that went through a bucket since it was new.\<close>

lemma credit_bound:
  assumes "of_nat n + credit b' \<le> credit b + rate b * x" "tb_ok b'" "tb_rate b' = tb_rate b" "tb_last_refill b' \<le> now"
    and "b = tb_new t0 limit" "t0 \<le> now" "rate_ok b"
  shows "of_nat n \<le> rate b * (1 + of_nat (now - t0) / 10 ^ 9 + x)"
proof -
  have r: "rate b' = rate b" using rate_cong [OF assms(3)] by simp
  have l: "0 \<le> level b'" using assms(2) by (auto elim: tb_okE)
  have "tb_ok b" by (simp add: assms(5) tb_new_ok)
  then have n: "level b \<le> rate b" using rate_okD(1) [OF assms(7)] by (auto elim!: tb_okE)
  have "rate b * (of_nat (tb_last_refill b') / 10 ^ 9) \<le> rate b * (of_nat now / 10 ^ 9)"
    using rate_okD(2) [OF assms(7)] assms(4) by (intro mult_left_mono divide_right_mono) auto
  with assms(1) l n have "of_nat n \<le> rate b + rate b * (of_nat now / 10 ^ 9) - rate b * (of_nat t0 / 10 ^ 9) + rate b * x"
    unfolding credit_def r by (simp add: assms(5) tb_new_def)
  then show ?thesis
    using assms(6) by (simp add: of_nat_diff diff_divide_distrib algebra_simps)
qed

text \<open>
  C12. The limit holds. For a stream with a limit below \<open>2\<^sup>5\<^sup>3\<close> bytes per second and every
  sequence of polls with a clock that does not run backwards, neither the bytes read nor the
  bytes written exceed the limit times one second of burst plus the elapsed seconds, up to nine
  roundings of a double per poll. The wrapped stream is only assumed not to fill in or take more
  than it is offered.
\<close>

theorem bandwidth_limit:
  assumes fills: "fills_at_most rd" and takes: "takes_at_most wr"
    and limit: "0 < unat limit" "unat limit < 2 ^ 53"
    and clock: "sorted (t0 # t0' # concat (map times es) @ [now])"
    and run: "ls_run rd wr es (ls_new t0 t0' inner limit) = (ls', r, w)"
  shows "(of_nat r :: rat) \<le> of_nat (unat limit) * (1 + of_nat (now - t0) / 10 ^ 9 + 9 * of_nat (length es) / 2 ^ 53) \<and>
    (of_nat w :: rat) \<le> of_nat (unat limit) * (1 + of_nat (now - t0') / 10 ^ 9 + 9 * of_nat (length es) / 2 ^ 53)"
proof -
  let ?ls = "ls_new t0 t0' inner limit" and ?br = "tb_new t0 limit" and ?bw = "tb_new t0' limit"
  have pos: "0 < limit" using limit(1) by (simp add: unat_gt_0 word_neq_0_conv)
  have lmt: "ls_read_limiter ?ls = Some ?br" "ls_write_limiter ?ls = Some ?bw"
    using pos by (simp_all add: ls_new_def)
  have rate: "rate_ok ?br" "rate_ok ?bw" "rate ?br = of_nat (unat limit)" "rate ?bw = of_nat (unat limit)"
    using limit by (simp_all add: rate_ok_def rate_def tb_new_def)
  have srt: "sorted (tb_last_refill ?br # concat (map times es) @ [now])" "sorted (tb_last_refill ?bw # concat (map times es) @ [now])"
    "t0 \<le> now" "t0' \<le> now"
    using clock by (auto simp: tb_new_def)
  have ok: "tb_ok ?br" "tb_ok ?bw" by (simp_all add: tb_new_ok)
  from run_credit [where amount = fst and wr = wr, OF read_step [OF fills] _ _ lmt(1) ok(1) rate(1) srt(1)]
  obtain br' where br: "of_nat r + credit br' \<le> credit ?br + rate ?br * (9 * of_nat (length es) / 2 ^ 53)"
      "tb_ok br'" "tb_rate br' = tb_rate ?br" "tb_last_refill br' \<le> now"
    unfolding run by auto
  from run_credit [where amount = snd and rd = rd, OF write_step [OF takes] _ _ lmt(2) ok(2) rate(2) srt(2)]
  obtain bw' where bw: "of_nat w + credit bw' \<le> credit ?bw + rate ?bw * (9 * of_nat (length es) / 2 ^ 53)"
      "tb_ok bw'" "tb_rate bw' = tb_rate ?bw" "tb_last_refill bw' \<le> now"
    unfolding run by auto
  show ?thesis
    using credit_bound [OF br refl srt(3) rate(1)] credit_bound [OF bw refl srt(4) rate(2)]
    by (simp only: rate)
qed

text \<open>A stream that is always ready, polled in both directions with a limit of eight bytes a second.\<close>

definition ready_read :: "nat \<Rightarrow> unit \<Rightarrow> unit \<times> bytes poll" where
  "ready_read k s = ((), Ready (Inr (replicate k 0)))"

definition ready_write :: "bytes \<Rightarrow> unit \<Rightarrow> unit \<times> nat poll" where
  "ready_write bs s = ((), Ready (Inr (length bs)))"

definition ready_polls :: "poll_event list" where
  "ready_polls = [PollRead 500 600 10, PollWrite 700 800 (replicate 10 0)]"

lemma available_new:
  assumes "rate_ok (tb_new t0 limit)"
  shows "snd (available now (tb_new t0 limit)) = unat limit"
proof -
  let ?b = "tb_new t0 limit"
  note r = rate_okD [OF assms]
  have ok: "tb_ok (refill now ?b)" and le: "level ?b \<le> level (refill now ?b)"
    using refill_ok tb_new_ok by blast+
  have max: "tb_tokens ?b = Fin (rate ?b)" "tb_max_tokens ?b = Fin (rate ?b)"
    using r(1) by (simp_all add: tb_new_def)
  obtain t where "tb_tokens (refill now ?b) = Fin t" "t \<le> rate ?b" "level (refill now ?b) = t"
    using ok max(2) by (auto elim!: tb_okE)
  moreover have "level ?b = rate ?b" using max(1) by (simp add: level_def)
  ultimately have "tb_tokens (refill now ?b) = Fin (of_nat (unat limit))"
    using le by (simp add: rate_def tb_new_def del: of_nat_unat)
  moreover have "f64_as_u64 (Fin (of_nat n)) = n" if "n < 2 ^ 53" for n
    using that by (simp add: min_def)
  ultimately show ?thesis
    using assms by (simp add: available_def Let_def rate_ok_def tb_new_def del: of_nat_unat f64_as_u64.simps)
qed

lemma ready_run:
  "snd (ls_run ready_read ready_write ready_polls (ls_new 0 0 () 8)) = (8, 8)"
proof -
  have rate: "rate_ok (tb_new 0 8)" by (simp add: rate_ok_def tb_new_def)
  have av: "available now (tb_new 0 8) = (refill now (tb_new 0 8), 8)" for now
    using available_new [OF rate, of now] by (simp add: available_def Let_def)
  show ?thesis
    by (simp add: ready_polls_def ls_new_def poll_read_def poll_write_def av ready_read_def ready_write_def)
qed

theorem bandwidth_limit_witness:
  "snd (ls_run ready_read ready_write ready_polls (ls_new 0 0 () 8)) = (8, 8) \<and>
   (of_nat 8 :: rat) \<le> of_nat (unat (8 :: u64)) * (1 + of_nat (1000 - 0) / 10 ^ 9 + 9 * of_nat (length ready_polls) / 2 ^ 53)"
proof -
  have ready: "fills_at_most ready_read" "takes_at_most ready_write"
    by (simp_all add: fills_at_most_def takes_at_most_def ready_read_def ready_write_def)
  obtain ls' where run: "ls_run ready_read ready_write ready_polls (ls_new 0 0 () 8) = (ls', 8, 8)"
    using ready_run by (metis prod.collapse)
  from bandwidth_limit [OF ready _ _ _ run, of 1000] show ?thesis
    unfolding run by (simp add: ready_polls_def)
qed

end
