(* ===== verification/Load_Balance.thy ===== *)
theory Load_Balance
  imports Prelude "HOL-Library.Multiset"
begin

text \<open>
  Load balancing groups (\<^verbatim>\<open>load_balance.rs\<close>). The counter of a group is an \<^verbatim>\<open>AtomicUsize\<close> whose
  \<^verbatim>\<open>fetch_add\<close> wraps at \<open>2\<^sup>6\<^sup>4\<close>; selecting a member changes nothing else. The number that
  \<^verbatim>\<open>rand::random\<close> gives is an argument.
\<close>

section \<open>Groups\<close>

record group =
  lb_name :: string
  lb_group_key :: "string option"
  lb_members :: "string list"
  lb_counter :: u64

definition group_new :: "string \<Rightarrow> string option \<Rightarrow> group" where
  "group_new name group_key = \<lparr>lb_name = name, lb_group_key = group_key, lb_members = [], lb_counter = 0\<rparr>"

definition add_member :: "string \<Rightarrow> group \<Rightarrow> group" where
  "add_member service_name g =
     (if service_name \<notin> set (lb_members g) then g\<lparr>lb_members := lb_members g @ [service_name]\<rparr> else g)"

definition remove_member :: "string \<Rightarrow> group \<Rightarrow> group" where
  "remove_member service_name g = g\<lparr>lb_members := filter (\<lambda>m. m \<noteq> service_name) (lb_members g)\<rparr>"

definition group_is_empty :: "group \<Rightarrow> bool" where
  "group_is_empty g \<longleftrightarrow> lb_members g = []"

definition member_count :: "group \<Rightarrow> nat" where
  "member_count g = length (lb_members g)"

definition next_member :: "group \<Rightarrow> group \<times> string option" where
  "next_member g =
     (if lb_members g = [] then (g, None)
      else let idx = unat (lb_counter g) mod length (lb_members g) in
        (g\<lparr>lb_counter := lb_counter g + 1\<rparr>, Some (lb_members g ! idx)))"

definition random_member :: "u64 \<Rightarrow> group \<Rightarrow> string option" where
  "random_member rnd g =
     (if lb_members g = [] then None
      else let idx = unat rnd mod length (lb_members g) in Some (lb_members g ! idx))"

definition validate_key :: "group \<Rightarrow> string option \<Rightarrow> bool" where
  "validate_key g key =
     (case (lb_group_key g, key) of
        (None, None) \<Rightarrow> True
      | (Some expected, Some provided) \<Rightarrow> expected = provided
      | _ \<Rightarrow> False)"

section \<open>The manager\<close>

type_synonym lb_manager = "string \<rightharpoonup> group"

datatype lb_error = KeyMismatch string

definition lb_new :: lb_manager where
  "lb_new = Map.empty"

definition register :: "string \<Rightarrow> string option \<Rightarrow> string \<Rightarrow> lb_manager \<Rightarrow> lb_manager \<times> (lb_error + unit)" where
  "register group_name group_key service_name mgr =
     (case mgr group_name of
        Some g \<Rightarrow>
          if \<not> validate_key g group_key then (mgr, Inl (KeyMismatch group_name))
          else (mgr(group_name \<mapsto> add_member service_name g), Inr ())
      | None \<Rightarrow> (mgr(group_name \<mapsto> add_member service_name (group_new group_name group_key)), Inr ()))"

definition unregister :: "string \<Rightarrow> string \<Rightarrow> lb_manager \<Rightarrow> lb_manager" where
  "unregister group_name service_name mgr =
     (case mgr group_name of
        Some g \<Rightarrow>
          let g' = remove_member service_name g in
          if group_is_empty g' then mgr(group_name := None) else mgr(group_name \<mapsto> g')
      | None \<Rightarrow> mgr)"

definition next_service :: "string \<Rightarrow> lb_manager \<Rightarrow> lb_manager \<times> string option" where
  "next_service group_name mgr =
     (case mgr group_name of
        None \<Rightarrow> (mgr, None)
      | Some g \<Rightarrow> (case next_member g of (g', m) \<Rightarrow> (mgr(group_name \<mapsto> g'), m)))"

definition random_service :: "u64 \<Rightarrow> string \<Rightarrow> lb_manager \<Rightarrow> string option" where
  "random_service rnd group_name mgr =
     (case mgr group_name of None \<Rightarrow> None | Some g \<Rightarrow> random_member rnd g)"

definition get_group :: "string \<Rightarrow> lb_manager \<Rightarrow> group option" where
  "get_group group_name mgr = mgr group_name"

section \<open>Round robin\<close>

fun picks :: "nat \<Rightarrow> group \<Rightarrow> group \<times> string option list" where
  "picks 0 g = (g, [])"
| "picks (Suc n) g = (case next_member g of (g1, m) \<Rightarrow> (case picks n g1 of (g', ms) \<Rightarrow> (g', m # ms)))"

lemma picks_nth:
  assumes "lb_members g \<noteq> []"
  shows "picks n g = (g\<lparr>lb_counter := lb_counter g + of_nat n\<rparr>,
    map (\<lambda>i. Some (lb_members g ! (unat (lb_counter g + of_nat i) mod length (lb_members g)))) [0..<n])"
  using assms
proof (induction n arbitrary: g)
  case 0
  show ?case by simp
next
  case (Suc n)
  let ?g = "g\<lparr>lb_counter := lb_counter g + 1\<rparr>"
  have "lb_members ?g \<noteq> []" using Suc.prems by simp
  from Suc.IH [OF this] show ?case
    using Suc.prems
    by (simp add: next_member_def map_upt_Suc add.assoc add.commute [of 1] del: upt_Suc)
qed

text \<open>While the counter does not wrap, a round of calls visits the members in order, from wherever it starts.\<close>

lemma unat_counter:
  assumes "unat (c :: u64) + n \<le> 2 ^ 64" "i < n"
  shows "unat (c + of_nat i) = unat c + i"
proof -
  have "i < 2 ^ 64" "unat c + i < 2 ^ 64" using assms by auto
  then show ?thesis
    by (simp add: unat_word_ariths(1) unsigned_of_nat take_bit_eq_mod)
qed

lemma round_is_rotation:
  "map (\<lambda>i. xs ! ((c + i) mod length xs)) [0..<length xs] = rotate c xs"
  by (rule nth_equalityI) (simp_all add: nth_rotate add.commute)

lemma mset_rotation: "mset (rotate c xs) = mset xs"
proof -
  have "mset (rotate1 ys) = mset ys" for ys :: "'a list" by (cases ys) simp_all
  then show ?thesis by (induction c) simp_all
qed

lemma rounds_mset:
  assumes "xs \<noteq> []"
  shows "mset (map (\<lambda>i. xs ! ((c + i) mod length xs)) [0..<k * length xs]) = repeat_mset k (mset xs)"
proof (induction k)
  case (Suc k)
  have shift: "map (\<lambda>i. xs ! ((c + i) mod length xs)) [k * length xs..<k * length xs + length xs] =
      map (\<lambda>i. xs ! ((c + i) mod length xs)) [0..<length xs]"
  proof (rule nth_equalityI)
    fix i
    assume "i < length (map (\<lambda>i. xs ! ((c + i) mod length xs)) [k * length xs..<k * length xs + length xs])"
    moreover have "(c + (k * length xs + i)) mod length xs = (c + i) mod length xs"
      using mod_mult_self3 [of k "length xs" "c + i"] by (simp only: add.left_commute)
    ultimately show "map (\<lambda>i. xs ! ((c + i) mod length xs)) [k * length xs..<k * length xs + length xs] ! i =
        map (\<lambda>i. xs ! ((c + i) mod length xs)) [0..<length xs] ! i"
      by simp
  qed simp
  have "[0..<Suc k * length xs] = [0..<k * length xs] @ [k * length xs..<k * length xs + length xs]"
    using upt_add_eq_append [of 0 "k * length xs" "length xs"] by (simp add: add.commute)
  then show ?case
    using Suc by (simp only: map_append mset_append shift round_is_rotation mset_rotation) simp
qed simp

lemma image_mset_repeat_mset: "image_mset f (repeat_mset k M) = repeat_mset k (image_mset f M)"
  by (induction k) simp_all

text \<open>
  C31. Round robin is fair: from any counter value, while the 64-bit counter does not wrap, any
  \<open>k\<close> rounds of calls select every member of a group exactly \<open>k\<close> times.
\<close>

theorem round_robin_fair:
  assumes "lb_members g \<noteq> []" "unat (lb_counter g) + k * length (lb_members g) \<le> 2 ^ 64"
  shows "mset (snd (picks (k * length (lb_members g)) g)) = repeat_mset k (image_mset Some (mset (lb_members g)))"
proof -
  let ?xs = "lb_members g" and ?c = "unat (lb_counter g)"
  have "map (\<lambda>i. Some (?xs ! (unat (lb_counter g + of_nat i) mod length ?xs))) [0..<k * length ?xs] =
      map Some (map (\<lambda>i. ?xs ! ((?c + i) mod length ?xs)) [0..<k * length ?xs])"
    using unat_counter [OF assms(2)] by simp
  then show ?thesis
    using arg_cong [OF rounds_mset [OF assms(1), of ?c k], of "image_mset Some"]
    by (simp only: picks_nth [OF assms(1)] snd_conv mset_map image_mset_repeat_mset)
qed

theorem round_robin_fair_witness:
  "mset (snd (picks 4 \<lparr>lb_name = ''web'', lb_group_key = None, lb_members = [''a'', ''b''], lb_counter = 2 ^ 64 - 4\<rparr>)) =
   {#Some ''a'', Some ''b'', Some ''a'', Some ''b''#}"
proof -
  let ?g = "\<lparr>lb_name = ''web'', lb_group_key = None, lb_members = [''a'', ''b''], lb_counter = 2 ^ 64 - 4\<rparr>"
  have "mset (snd (picks (2 * length (lb_members ?g)) ?g)) = repeat_mset 2 (image_mset Some (mset (lb_members ?g)))"
    by (rule round_robin_fair) simp_all
  then show ?thesis by (simp add: numeral_eq_Suc)
qed

section \<open>The manager and its specification\<close>

text \<open>
  What the manager promises: a key and a set of services for every group, where a group is
  there exactly while it has a service.
\<close>

type_synonym lb_spec = "string \<rightharpoonup> string option \<times> string set"

fun spec_register :: "string \<Rightarrow> string option \<Rightarrow> string \<Rightarrow> lb_spec \<Rightarrow> lb_spec" where
  "spec_register gn k s A =
     (case A gn of
        None \<Rightarrow> A(gn \<mapsto> (k, {s}))
      | Some (k', S) \<Rightarrow> if k' = k then A(gn \<mapsto> (k', insert s S)) else A)"

fun spec_unregister :: "string \<Rightarrow> string \<Rightarrow> lb_spec \<Rightarrow> lb_spec" where
  "spec_unregister gn s A =
     (case A gn of
        None \<Rightarrow> A
      | Some (k', S) \<Rightarrow> if S \<subseteq> {s} then A(gn := None) else A(gn \<mapsto> (k', S - {s})))"

datatype lb_op = Register string "string option" string | Unregister string string | NextService string

fun lb_apply :: "lb_op \<Rightarrow> lb_manager \<Rightarrow> lb_manager" where
  "lb_apply (Register gn k s) mgr = fst (register gn k s mgr)"
| "lb_apply (Unregister gn s) mgr = unregister gn s mgr"
| "lb_apply (NextService gn) mgr = fst (next_service gn mgr)"

fun spec_apply :: "lb_op \<Rightarrow> lb_spec \<Rightarrow> lb_spec" where
  "spec_apply (Register gn k s) A = spec_register gn k s A"
| "spec_apply (Unregister gn s) A = spec_unregister gn s A"
| "spec_apply (NextService gn) A = A"

definition lb_abs :: "lb_manager \<Rightarrow> lb_spec" where
  "lb_abs mgr = (\<lambda>gn. map_option (\<lambda>g. (lb_group_key g, set (lb_members g))) (mgr gn))"

definition lb_inv :: "lb_manager \<Rightarrow> bool" where
  "lb_inv mgr \<longleftrightarrow> (\<forall>gn g. mgr gn = Some g \<longrightarrow> lb_name g = gn \<and> lb_members g \<noteq> [] \<and> distinct (lb_members g))"

lemma validate_key_iff: "validate_key g key \<longleftrightarrow> lb_group_key g = key"
  by (auto simp: validate_key_def split: option.splits)

lemma lb_inv_upd:
  "lb_inv mgr \<Longrightarrow> lb_name g = gn \<Longrightarrow> lb_members g \<noteq> [] \<Longrightarrow> distinct (lb_members g) \<Longrightarrow> lb_inv (mgr(gn \<mapsto> g))"
  by (simp add: lb_inv_def)

lemma lb_inv_del: "lb_inv mgr \<Longrightarrow> lb_inv (mgr(gn := None))"
  by (simp add: lb_inv_def)

lemma lb_invD: "lb_inv mgr \<Longrightarrow> mgr gn = Some g \<Longrightarrow> lb_name g = gn \<and> lb_members g \<noteq> [] \<and> distinct (lb_members g)"
  by (simp add: lb_inv_def)

lemma add_member_simps [simp]:
  "set (lb_members (add_member s g)) = insert s (set (lb_members g))" "lb_name (add_member s g) = lb_name g"
  "lb_group_key (add_member s g) = lb_group_key g" "distinct (lb_members (add_member s g)) = distinct (lb_members g)"
  "lb_members (add_member s g) \<noteq> []"
  by (auto simp: add_member_def)

lemma lb_inv_apply: "lb_inv mgr \<Longrightarrow> lb_inv (lb_apply op mgr)"
proof (cases op)
  case (Register gn k s)
  assume "lb_inv mgr"
  then show ?thesis
    by (auto simp: Register register_def group_new_def intro!: lb_inv_upd dest: lb_invD split: option.split)
next
  case (Unregister gn s)
  assume "lb_inv mgr"
  then show ?thesis
    by (auto simp: Unregister unregister_def remove_member_def group_is_empty_def Let_def
        intro!: lb_inv_upd lb_inv_del dest: lb_invD split: option.split)
next
  case (NextService gn)
  assume "lb_inv mgr"
  then show ?thesis
    by (auto simp: NextService next_service_def next_member_def Let_def intro!: lb_inv_upd dest: lb_invD split: option.split)
qed

lemma lb_abs_apply: "lb_abs (lb_apply op mgr) = spec_apply op (lb_abs mgr)"
proof (cases op)
  case (Register gn k s)
  then show ?thesis
    by (auto simp: register_def lb_abs_def validate_key_iff group_new_def fun_eq_iff split: option.split)
next
  case (Unregister gn s)
  have "filter (\<lambda>m. m \<noteq> s) xs = [] \<longleftrightarrow> set xs \<subseteq> {s}" for xs
    by (auto simp: filter_empty_conv)
  then show ?thesis
    by (auto simp: Unregister unregister_def lb_abs_def remove_member_def group_is_empty_def Let_def fun_eq_iff split: option.split)
next
  case (NextService gn)
  then show ?thesis
    by (auto simp: next_service_def next_member_def lb_abs_def Let_def fun_eq_iff split: option.split)
qed

lemma next_service_abs:
  assumes "lb_inv mgr"
  shows "case lb_abs mgr gn of
      None \<Rightarrow> snd (next_service gn mgr) = None \<and> random_service rnd gn mgr = None
    | Some (k, S) \<Rightarrow> snd (next_service gn mgr) \<in> Some ` S \<and> random_service rnd gn mgr \<in> Some ` S"
  using lb_invD [OF assms, of gn]
  by (cases "mgr gn") (auto simp: lb_abs_def next_service_def random_service_def next_member_def random_member_def Let_def)

text \<open>
  C30. The manager refines its specification. After any sequence of registrations,
  unregistrations and selections on a new manager, every group is filed under its name, has a
  member and no member twice; keys and members are those of the specification; a registration
  is accepted exactly when the group is new or has the same key; and selecting, in turn or at
  random, gives a registered service of the group, and nothing exactly when there is no group.
\<close>

theorem lb_manager_refines:
  "let mgr = fold lb_apply ops lb_new; A = fold spec_apply ops Map.empty in
   lb_inv mgr \<and> lb_abs mgr = A \<and>
   (is_ok (snd (register gn k s mgr)) \<longleftrightarrow> (case A gn of None \<Rightarrow> True | Some (k', _) \<Rightarrow> k' = k)) \<and>
   (case A gn of
      None \<Rightarrow> snd (next_service gn mgr) = None \<and> random_service rnd gn mgr = None
    | Some (_, S) \<Rightarrow> snd (next_service gn mgr) \<in> Some ` S \<and> random_service rnd gn mgr \<in> Some ` S)"
proof -
  have "lb_inv (fold lb_apply ops mgr) \<and> lb_abs (fold lb_apply ops mgr) = fold spec_apply ops (lb_abs mgr)"
    if "lb_inv mgr" for mgr
    using that by (induction ops arbitrary: mgr) (simp_all add: lb_inv_apply lb_abs_apply)
  moreover have "lb_inv lb_new" "lb_abs lb_new = Map.empty"
    by (simp_all add: lb_inv_def lb_new_def lb_abs_def fun_eq_iff)
  ultimately have run: "lb_inv (fold lb_apply ops lb_new)" "lb_abs (fold lb_apply ops lb_new) = fold spec_apply ops Map.empty"
    by auto
  have "is_ok (snd (register gn k s mgr)) \<longleftrightarrow> (case lb_abs mgr gn of None \<Rightarrow> True | Some (k', _) \<Rightarrow> k' = k)" for mgr
    by (auto simp: register_def lb_abs_def validate_key_iff split: option.split)
  with run next_service_abs [OF run(1), of gn rnd] show ?thesis
    by (simp add: Let_def)
qed

end
