(* ===== verification/Proxy_Protocol.thy ===== *)
theory Proxy_Protocol
  imports Protocol Rust_Str
begin

text \<open>
  The PROXY protocol headers (\<^verbatim>\<open>proxy_protocol.rs\<close>), in the text form of version 1 and the
  binary form of version 2, with the \<^verbatim>\<open>Display\<close> of IP addresses that the text form uses. The
  specification is a receiver for both forms.
\<close>

section \<open>Displaying addresses\<close>

definition show_ipv4 :: "32 word \<Rightarrow> string" where
  "show_ipv4 a =
     (case map unat (be_of_nat 4 (unat a)) of
        [w, x, y, z] \<Rightarrow> show_nat w @ ''.'' @ show_nat x @ ''.'' @ show_nat y @ ''.'' @ show_nat z
      | _ \<Rightarrow> [])"

definition hex_digit :: "nat \<Rightarrow> char" where
  "hex_digit d = (if d < 10 then char_of (48 + d) else char_of (87 + d))"

fun show_hex :: "nat \<Rightarrow> string" where
  "show_hex n = (if n < 16 then [hex_digit n] else show_hex (n div 16) @ [hex_digit (n mod 16)])"

declare show_hex.simps [simp del]

definition segments :: "128 word \<Rightarrow> nat list" where
  "segments a = map (\<lambda>i. unat a div 2 ^ (16 * (7 - i)) mod 2 ^ 16) [0..<8]"

text \<open>The longest run of zero segments, the first of those; the accumulators are the runs found so far.\<close>

fun zero_span :: "nat list \<Rightarrow> nat \<Rightarrow> nat \<times> nat \<Rightarrow> nat \<times> nat \<Rightarrow> nat \<times> nat" where
  "zero_span [] i current longest = longest"
| "zero_span (s # ss) i current longest =
     (if s = 0 then
        let current = (if snd current = 0 then i else fst current, snd current + 1) in
        zero_span ss (i + 1) current (if snd longest < snd current then current else longest)
      else zero_span ss (i + 1) (0, 0) longest)"

fun fmt_subslice :: "nat list \<Rightarrow> string" where
  "fmt_subslice [] = []"
| "fmt_subslice (s # ss) = show_hex s @ concat (map (\<lambda>x. '':'' @ show_hex x) ss)"

definition show_ipv6 :: "128 word \<Rightarrow> string" where
  "show_ipv6 a =
     (let ss = segments a in
      if take 6 ss = [0, 0, 0, 0, 0, 0xFFFF] then ''::ffff:'' @ show_ipv4 (of_nat (unat a))
      else (case zero_span ss 0 (0, 0) (0, 0) of (start, len) \<Rightarrow>
        if 1 < len then fmt_subslice (take start ss) @ ''::'' @ fmt_subslice (drop (start + len) ss)
        else fmt_subslice ss))"

fun show_ip :: "socket_addr \<Rightarrow> string" where
  "show_ip (V4 a p) = show_ipv4 a"
| "show_ip (V6 a p f s) = show_ipv6 a"

fun port_of :: "socket_addr \<Rightarrow> u16" where
  "port_of (V4 a p) = p"
| "port_of (V6 a p f s) = p"

section \<open>The headers\<close>

definition crlf :: string where
  "crlf = [CHR 0x0D, CHR 0x0A]"

definition proxy_protocol_v1_header :: "socket_addr \<Rightarrow> socket_addr \<Rightarrow> bytes" where
  "proxy_protocol_v1_header src dst =
     (let protocol = (case src of V4 _ _ \<Rightarrow> ''TCP4'' | V6 _ _ _ _ \<Rightarrow> ''TCP6'') in
      as_bytes (''PROXY '' @ protocol @ '' '' @ show_ip src @ '' '' @ show_ip dst @ '' '' @
        show_nat (unat (port_of src)) @ '' '' @ show_nat (unat (port_of dst)) @ crlf))"

definition v2_signature :: bytes where
  "v2_signature = [0x0D, 0x0A, 0x0D, 0x0A, 0x00, 0x0D, 0x0A, 0x51, 0x55, 0x49, 0x54, 0x0A]"

definition proxy_protocol_v2_header :: "socket_addr \<Rightarrow> socket_addr \<Rightarrow> bytes" where
  "proxy_protocol_v2_header src dst =
     (let header = v2_signature @ [0x21] in
      case (src, dst) of
        (V4 s sp, V4 d dp) \<Rightarrow>
          header @ [0x11] @ be_of_nat 2 12 @ be_of_nat 4 (unat s) @ be_of_nat 4 (unat d) @
            be_of_nat 2 (unat sp) @ be_of_nat 2 (unat dp)
      | (V6 s sp _ _, V6 d dp _ _) \<Rightarrow>
          header @ [0x21] @ be_of_nat 2 36 @ be_of_nat 16 (unat s) @ be_of_nat 16 (unat d) @
            be_of_nat 2 (unat sp) @ be_of_nat 2 (unat dp)
      | _ \<Rightarrow> header[12 := 0x20] @ [0x00] @ be_of_nat 2 0)"

datatype pp_error = UnsupportedVersion string | PpIo io_error

definition write_proxy_protocol_header :: "string \<Rightarrow> socket_addr \<Rightarrow> socket_addr \<Rightarrow> (conn, pp_error, unit) sm" where
  "write_proxy_protocol_header version src dst =
     sbind (if version = ''v1'' then sret (proxy_protocol_v1_header src dst)
            else if version = ''v2'' then sret (proxy_protocol_v2_header src dst)
            else sfail (UnsupportedVersion version)) (\<lambda>header.
     smap_err PpIo (write_all header))"

section \<open>A receiver\<close>

text \<open>
  What the protocol's specification has a receiver do: a version 2 header is a signature, a
  version and command byte, a family byte and a length, then that many bytes of addresses. A
  version 1 header is six words that end in a line break.
\<close>

datatype proxied = ProxyLocal | ProxyTcp socket_addr socket_addr

definition pp2_addresses :: "byte \<Rightarrow> bytes \<Rightarrow> proxied option" where
  "pp2_addresses fam a =
     (if fam = 0x11 \<and> 12 \<le> length a then
        Some (ProxyTcp (V4 (of_nat (nat_of_be (take 4 a))) (of_nat (nat_of_be (take 2 (drop 8 a)))))
          (V4 (of_nat (nat_of_be (take 4 (drop 4 a)))) (of_nat (nat_of_be (take 2 (drop 10 a))))))
      else if fam = 0x21 \<and> 36 \<le> length a then
        Some (ProxyTcp (V6 (of_nat (nat_of_be (take 16 a))) (of_nat (nat_of_be (take 2 (drop 32 a)))) 0 0)
          (V6 (of_nat (nat_of_be (take 16 (drop 16 a)))) (of_nat (nat_of_be (take 2 (drop 34 a)))) 0 0))
      else None)"

definition pp2_receive :: "bytes \<Rightarrow> (proxied \<times> bytes) option" where
  "pp2_receive bs =
     (if length bs < 16 \<or> take 12 bs \<noteq> v2_signature then None
      else let len = nat_of_be (take 2 (drop 14 bs)); rest = drop 16 bs in
        if length rest < len then None
        else if bs ! 12 = 0x20 then Some (ProxyLocal, drop len rest)
        else if bs ! 12 = 0x21 then map_option (\<lambda>r. (r, drop len rest)) (pp2_addresses (bs ! 13) (take len rest))
        else None)"

fun split_at :: "char \<Rightarrow> string \<Rightarrow> string list" where
  "split_at c [] = [[]]"
| "split_at c (x # xs) =
     (if x = c then [] # split_at c xs
      else (case split_at c xs of [] \<Rightarrow> [[x]] | w # ws \<Rightarrow> (x # w) # ws))"

definition read_ipv4 :: "string \<Rightarrow> 32 word option" where
  "read_ipv4 s =
     (case map (parse_unsigned 255) (split_at CHR ''.'' s) of
        [Some w, Some x, Some y, Some z] \<Rightarrow> Some (of_nat (nat_of_be [of_nat w, of_nat x, of_nat y, of_nat z]))
      | _ \<Rightarrow> None)"

definition pp1_receive :: "string \<Rightarrow> (proxied \<times> string) option" where
  "pp1_receive s =
     (case split_at CHR '' '' (takeWhile (\<lambda>c. c \<noteq> CHR 0x0D) s) of
        [p, fam, src, dst, sp, dp] \<Rightarrow>
          if p = ''PROXY'' \<and> fam = ''TCP4'' then
            (case (read_ipv4 src, read_ipv4 dst, parse_u16 sp, parse_u16 dp) of
               (Some a, Some b, Some pa, Some pb) \<Rightarrow>
                 Some (ProxyTcp (V4 a pa) (V4 b pb), drop 2 (dropWhile (\<lambda>c. c \<noteq> CHR 0x0D) s))
             | _ \<Rightarrow> None)
          else None
      | _ \<Rightarrow> None)"

text \<open>What a header says of two addresses: IPv6 flow labels and scopes are not part of it.\<close>

fun proxied_of :: "socket_addr \<Rightarrow> socket_addr \<Rightarrow> proxied" where
  "proxied_of (V4 a p) (V4 b q) = ProxyTcp (V4 a p) (V4 b q)"
| "proxied_of (V6 a p _ _) (V6 b q _ _) = ProxyTcp (V6 a p 0 0) (V6 b q 0 0)"
| "proxied_of _ _ = ProxyLocal"

section \<open>Round trips\<close>

lemma word_of_be:
  "of_nat (nat_of_be (be_of_nat 2 (unat (p :: u16)))) = p"
  "of_nat (nat_of_be (be_of_nat 4 (unat (a :: 32 word)))) = a"
  "of_nat (nat_of_be (be_of_nat 16 (unat (b :: 128 word)))) = b"
  using unsigned_less [of p, where 'a = nat] unsigned_less [of a, where 'a = nat] unsigned_less [of b, where 'a = nat]
  by (simp_all add: nat_of_be_of_nat)

lemma pp2_receive_frame:
  assumes "length addrs = len" "len < 2 ^ 16"
  shows "pp2_receive (v2_signature @ [cmd, fam] @ be_of_nat 2 len @ addrs @ rest) =
    (if cmd = 0x20 then Some (ProxyLocal, rest)
     else if cmd = 0x21 then map_option (\<lambda>r. (r, rest)) (pp2_addresses fam addrs) else None)"
proof -
  have sig: "length v2_signature = 12" by (simp add: v2_signature_def)
  obtain x y where xy: "be_of_nat 2 len = [x, y]" "nat_of_be [x, y] = len"
  proof -
    have "length (be_of_nat 2 len) = 2" by simp
    then obtain x y where "be_of_nat 2 len = [x, y]" by (auto simp: length_Suc_conv numeral_2_eq_2 simp del: length_be_of_nat)
    moreover have "nat_of_be (be_of_nat 2 len) = len"
      using assms(2) by (simp add: nat_of_be_of_nat)
    ultimately show ?thesis by (intro that) simp_all
  qed
  show ?thesis
    unfolding pp2_receive_def xy(1) using assms(1) xy(2) sig
    by (simp add: Let_def nth_append)
qed

lemma pp2_addresses_v4:
  "pp2_addresses 0x11 (be_of_nat 4 (unat s) @ be_of_nat 4 (unat d) @ be_of_nat 2 (unat sp) @ be_of_nat 2 (unat dp)) =
   Some (ProxyTcp (V4 s sp) (V4 d dp))"
  by (simp add: pp2_addresses_def word_of_be del: be_of_nat.simps)

lemma pp2_addresses_v6:
  "pp2_addresses 0x21 (be_of_nat 16 (unat s) @ be_of_nat 16 (unat d) @ be_of_nat 2 (unat sp) @ be_of_nat 2 (unat dp)) =
   Some (ProxyTcp (V6 s sp 0 0) (V6 d dp 0 0))"
  by (simp add: pp2_addresses_def word_of_be del: be_of_nat.simps)

lemma v2_roundtrip: "pp2_receive (proxy_protocol_v2_header src dst @ rest) = Some (proxied_of src dst, rest)"
proof -
  have len: "length (be_of_nat 4 (unat s) @ be_of_nat 4 (unat d) @ be_of_nat 2 (unat sp) @ be_of_nat 2 (unat dp)) = 12"
    "length (be_of_nat 16 (unat s') @ be_of_nat 16 (unat d') @ be_of_nat 2 (unat sp) @ be_of_nat 2 (unat dp)) = 36"
    for s d :: "32 word" and s' d' :: "128 word" and sp dp :: u16
    by simp_all
  have loc: "(v2_signature @ [0x21])[12 := 0x20] = v2_signature @ [0x20]"
    by (simp add: v2_signature_def)
  show ?thesis
    using pp2_receive_frame [OF len(1), of "0x21" "0x11" _ _ _ _ rest] pp2_receive_frame [OF len(2), of "0x21" "0x21" _ _ _ _ rest]
      pp2_receive_frame [of "[]" 0 "0x20" 0 rest]
    by (cases src; cases dst)
      (simp_all add: proxy_protocol_v2_header_def Let_def loc pp2_addresses_v4 pp2_addresses_v6 del: be_of_nat.simps)
qed

lemma split_at_append: "c \<notin> set a \<Longrightarrow> split_at c (a @ c # b) = a # split_at c b"
  by (induction a) auto

lemma split_at_last: "c \<notin> set a \<Longrightarrow> split_at c a = [a]"
  by (induction a) auto

lemma show_nat_chars: "\<not> is_ascii_digit c \<Longrightarrow> c \<notin> set (show_nat n)"
  using show_nat_digits [of n] by (auto simp: list_all_iff)

lemma be4_cases:
  obtains w x y z :: byte where "be_of_nat 4 n = [w, x, y, z]"
proof -
  have "length (be_of_nat 4 n) = 4" by simp
  then show ?thesis
    using that by (auto simp: length_Suc_conv numeral_eq_Suc simp del: length_be_of_nat be_of_nat.simps)
qed

lemma read_show_ipv4: "read_ipv4 (show_ipv4 a) = Some a"
proof -
  obtain w x y z where b: "be_of_nat 4 (unat a) = [w, x, y, z]" by (rule be4_cases)
  have le: "unat v \<le> 255" for v :: byte
    using unsigned_less [of v, where 'a = nat] by simp
  have dot: "CHR ''.'' \<notin> set (show_nat n)" for n
    by (rule show_nat_chars) (simp add: is_ascii_digit_def)
  have "split_at CHR ''.'' (show_ipv4 a) = [show_nat (unat w), show_nat (unat x), show_nat (unat y), show_nat (unat z)]"
    by (simp add: show_ipv4_def b split_at_append split_at_last dot del: be_of_nat.simps)
  then have "read_ipv4 (show_ipv4 a) = Some (of_nat (nat_of_be [w, x, y, z]))"
    by (simp add: read_ipv4_def parse_show_nat [OF le])
  then show ?thesis
    by (simp only: b [symmetric] word_of_be)
qed

lemma show_ipv4_chars: "\<not> is_ascii_digit c \<Longrightarrow> c \<noteq> CHR ''.'' \<Longrightarrow> c \<notin> set (show_ipv4 a)"
proof -
  assume c: "\<not> is_ascii_digit c" "c \<noteq> CHR ''.''"
  obtain w x y z where "be_of_nat 4 (unat a) = [w, x, y, z]" by (rule be4_cases)
  with c show ?thesis
    by (simp add: show_ipv4_def show_nat_chars del: be_of_nat.simps)
qed

lemma parse_show_port: "parse_u16 (show_nat (unat (p :: u16))) = Some p"
proof -
  have "unat p \<le> 65535"
    using unsigned_less [of p, where 'a = nat] by simp
  then show ?thesis
    by (simp add: parse_u16_def parse_show_nat)
qed

lemma split_at_chars: "set s \<subseteq> insert c (\<Union> (set ` set (split_at c s)))"
proof (induction s)
  case (Cons x s)
  then show ?case by (cases "split_at c s") auto
qed simp

lemma parse_unsigned_chars: "parse_unsigned hi s = Some n \<Longrightarrow> x \<in> set s \<Longrightarrow> is_ascii_digit x \<or> x = CHR ''+''"
  by (cases s) (auto simp: parse_unsigned_def list_all_iff Let_def split: if_splits)

lemma read_ipv4_chars:
  assumes "read_ipv4 s = Some a"
  shows "CHR '':'' \<notin> set s"
proof
  assume "CHR '':'' \<in> set s"
  then obtain w where w: "w \<in> set (split_at CHR ''.'' s)" "CHR '':'' \<in> set w"
    using split_at_chars [of s "CHR ''.''"] by auto
  obtain n where "parse_unsigned 255 w = Some n"
    using assms w(1) by (auto simp: read_ipv4_def split: list.splits option.splits)
  from parse_unsigned_chars [OF this w(2)] show False
    by (simp add: is_ascii_digit_def)
qed

lemma hex_digit_chars: "n < 16 \<Longrightarrow> hex_digit n \<noteq> CHR '' '' \<and> hex_digit n \<noteq> CHR 0x0D"
proof -
  assume "n < 16"
  then have "(of_char (hex_digit n) :: nat) = (if n < 10 then 48 + n else 87 + n)"
    by (simp add: hex_digit_def)
  then show ?thesis
    by (auto split: if_splits)
qed

lemma show_hex_chars: "CHR '' '' \<notin> set (show_hex n) \<and> CHR 0x0D \<notin> set (show_hex n)"
proof (induction n rule: show_hex.induct)
  case (1 n)
  then show ?case
    using hex_digit_chars [of n] hex_digit_chars [of "n mod 16"]
    by (subst (1 2) show_hex.simps) auto
qed

lemma fmt_subslice_chars: "CHR '' '' \<notin> set (fmt_subslice ss) \<and> CHR 0x0D \<notin> set (fmt_subslice ss)"
  using show_hex_chars by (cases ss) auto

lemma show_ipv6_chars: "CHR '' '' \<notin> set (show_ipv6 a)" "CHR 0x0D \<notin> set (show_ipv6 a)"
  using fmt_subslice_chars show_ipv4_chars [of "CHR '' ''"] show_ipv4_chars [of "CHR 0x0D"]
  by (auto simp: show_ipv6_def Let_def is_ascii_digit_def split: prod.split)

lemma show_ipv6_colon: "CHR '':'' \<in> set (show_ipv6 a)"
proof -
  have "segments a \<noteq> []" "length (segments a) = 8" by (simp_all add: segments_def)
  then have "CHR '':'' \<in> set (fmt_subslice (segments a))"
    by (cases "segments a"; cases "tl (segments a)") auto
  then show ?thesis
    by (simp add: show_ipv6_def Let_def split_beta)
qed

text \<open>The words of a version 1 header, for destinations of either family.\<close>

lemma v1_words:
  "split_at CHR '' '' (takeWhile (\<lambda>c. c \<noteq> CHR 0x0D) (string_of_bytes (proxy_protocol_v1_header (V4 a p) dst) @ rest)) =
     [''PROXY'', ''TCP4'', show_ipv4 a, show_ip dst, show_nat (unat p), show_nat (unat (port_of dst))] \<and>
   dropWhile (\<lambda>c. c \<noteq> CHR 0x0D) (string_of_bytes (proxy_protocol_v1_header (V4 a p) dst) @ rest) = crlf @ rest"
proof -
  let ?words = "''PROXY'' @ '' '' @ ''TCP4'' @ '' '' @ show_ipv4 a @ '' '' @ show_ip dst @ '' '' @
    show_nat (unat p) @ '' '' @ show_nat (unat (port_of dst))"
  have digits: "CHR '' '' \<notin> set (show_nat n)" "CHR 0x0D \<notin> set (show_nat n)" for n
    by (rule show_nat_chars, simp add: is_ascii_digit_def)+
  have ipv4: "CHR '' '' \<notin> set (show_ipv4 x)" "CHR 0x0D \<notin> set (show_ipv4 x)" for x
    by (rule show_ipv4_chars, simp_all add: is_ascii_digit_def)+
  have ip: "CHR '' '' \<notin> set (show_ip dst)" "CHR 0x0D \<notin> set (show_ip dst)"
    using ipv4 show_ipv6_chars by (cases dst; simp)+
  have s: "string_of_bytes (proxy_protocol_v1_header (V4 a p) dst) @ rest = ?words @ crlf @ rest"
    by (simp only: proxy_protocol_v1_header_def Let_def string_of_as_bytes) simp
  have cr: "\<forall>c \<in> set ?words. c \<noteq> CHR 0x0D"
    using digits ipv4 ip by auto
  have "takeWhile (\<lambda>c. c \<noteq> CHR 0x0D) (?words @ crlf @ rest) = ?words"
    using cr by (subst takeWhile_append2) (auto simp: crlf_def)
  moreover have "dropWhile (\<lambda>c. c \<noteq> CHR 0x0D) (?words @ crlf @ rest) = crlf @ rest"
    using cr by (subst dropWhile_append2) (auto simp: crlf_def)
  moreover have "split_at CHR '' '' ?words =
      [''PROXY'', ''TCP4'', show_ipv4 a, show_ip dst, show_nat (unat p), show_nat (unat (port_of dst))]"
    using digits ipv4 ip by (simp add: split_at_append split_at_last)
  ultimately show ?thesis
    unfolding s by simp
qed

lemma v1_roundtrip:
  "pp1_receive (string_of_bytes (proxy_protocol_v1_header (V4 a p) (V4 b q)) @ rest) =
   Some (ProxyTcp (V4 a p) (V4 b q), rest)"
  using v1_words [of a p "V4 b q" rest] by (simp add: pp1_receive_def read_show_ipv4 parse_show_port crlf_def)

text \<open>
  C33. A receiver recovers the addresses. For version 2 and every two addresses of one family it
  gets the source and the destination with their ports, for addresses of different families the
  local command, and in all cases the bytes that follow the header unchanged. For version 1 the
  same holds of IPv4 addresses.
\<close>

theorem proxy_header_roundtrip:
  "pp2_receive (proxy_protocol_v2_header src dst @ rest) = Some (proxied_of src dst, rest) \<and>
   pp1_receive (string_of_bytes (proxy_protocol_v1_header (V4 a p) (V4 b q)) @ rest') =
     Some (ProxyTcp (V4 a p) (V4 b q), rest')"
  by (simp only: v2_roundtrip v1_roundtrip)

text \<open>
  In version 1 the family is that of the source alone, so for an IPv6 destination the header
  announces IPv4 and a receiver refuses it.
\<close>

lemma v1_mixed_refused:
  "pp1_receive (string_of_bytes (proxy_protocol_v1_header (V4 a p) (V6 b q f z)) @ rest) = None"
proof -
  have "read_ipv4 (show_ipv6 b) = None"
    using read_ipv4_chars [of "show_ipv6 b"] show_ipv6_colon [of b] by (cases "read_ipv4 (show_ipv6 b)") auto
  then show ?thesis
    using v1_words [of a p "V6 b q f z" rest] by (simp add: pp1_receive_def split: option.split)
qed

end
