(* ===== verification/Text_Lines.thy ===== *)
theory Text_Lines
  imports Rust_Str
begin

text \<open>
  Facts on the text functions that the small HTTP readers of the program use
  (\<^verbatim>\<open>from_utf8_lossy\<close>, \<^verbatim>\<open>lines\<close>, \<^verbatim>\<open>split_whitespace\<close>): ASCII passes the conversion unchanged,
  the first line ends at the first line break, and words of printable ASCII that single spaces
  separate are split at those.
\<close>

definition ascii :: "string \<Rightarrow> bool" where
  "ascii s \<longleftrightarrow> list_all (\<lambda>c. (of_char c :: nat) \<le> 127) s"

lemma utf8_lossy_ascii: "list_all (\<lambda>b. unat b \<le> 127) bs \<Longrightarrow> utf8_lossy bs = bs"
  by (induction bs rule: utf8_lossy.induct) (auto simp: Let_def)

lemma from_utf8_lossy_ascii: "ascii s \<Longrightarrow> from_utf8_lossy (as_bytes s) = s"
  by (simp add: from_utf8_lossy_def utf8_lossy_ascii ascii_def as_bytes_def list_all_iff)
    (simp flip: as_bytes_def)

lemma lines_first:
  assumes "CHR 0x0A \<notin> set l" "CHR 0x0D \<notin> set l"
  shows "lines (l @ [CHR 0x0D, CHR 0x0A] @ rest) = l # lines rest"
proof -
  have "takeWhile (\<lambda>c. c \<noteq> CHR 0x0A) (l @ [CHR 0x0D, CHR 0x0A] @ rest) = l @ [CHR 0x0D]"
    "dropWhile (\<lambda>c. c \<noteq> CHR 0x0A) (l @ [CHR 0x0D, CHR 0x0A] @ rest) = CHR 0x0A # rest"
    using assms by (induction l) auto
  then show ?thesis
    by (subst lines.simps) (simp add: strip_cr_def)
qed

definition word :: "string \<Rightarrow> bool" where
  "word w \<longleftrightarrow> w \<noteq> [] \<and> list_all graphic w"

lemma leading_space_graphic: "graphic c \<Longrightarrow> leading_space (c # s) = 0"
proof -
  assume "graphic c"
  then have "find (starts_with (c # s)) white_space = None"
    using white_space_ends starts_with_hd [of "c # s"] by (auto simp: find_None_iff)
  then show ?thesis by (simp add: leading_space_def)
qed

lemma leading_space_blank: "leading_space (CHR '' '' # s) = 1"
proof -
  have "find (starts_with (CHR '' '' # s)) white_space = Some [CHR 0x20]"
    by (simp add: white_space_def starts_with_def)
  then show ?thesis by (simp add: leading_space_def)
qed

lemma split_ws_word: "list_all graphic w \<Longrightarrow> split_ws (w @ s) acc = split_ws s (acc @ w)"
  by (induction w arbitrary: acc) (simp_all add: leading_space_graphic)

lemma split_ws_blank: "acc \<noteq> [] \<Longrightarrow> split_ws (CHR '' '' # s) acc = acc # split_ws s []"
  by (simp add: leading_space_blank)

lemma split_whitespace_words:
  assumes "word a"
  shows "split_whitespace (a @ CHR '' '' # s) = a # split_whitespace s" "split_whitespace a = [a]"
proof -
  have a: "list_all graphic a" "a \<noteq> []" using assms by (simp_all add: word_def)
  show "split_whitespace (a @ CHR '' '' # s) = a # split_whitespace s"
    unfolding split_whitespace_def using split_ws_word [OF a(1), of "CHR '' '' # s" "[]"] split_ws_blank [OF a(2)] by simp
  show "split_whitespace a = [a]"
    unfolding split_whitespace_def using split_ws_word [OF a(1), of "[]" "[]"] a(2) by simp
qed

end
