(* ===== verification/Health_Check.thy ===== *)
theory Health_Check
  imports Text_Lines Config_Types Conn
begin

text \<open>
  Health checks (\<^verbatim>\<open>health_check.rs\<close>): the status with its counter of consecutive failures, the
  check over TCP and over HTTP, and the loop. Connecting is a parameter of a check, and so is
  what the single read of the response gives.
\<close>

section \<open>The status\<close>

record health_status =
  hs_healthy :: bool
  hs_consecutive_failures :: u32
  hs_max_failed :: u32

definition health_new :: "u32 \<Rightarrow> health_status" where
  "health_new max_failed = \<lparr>hs_healthy = True, hs_consecutive_failures = 0, hs_max_failed = max_failed\<rparr>"

definition record_success :: "health_status \<Rightarrow> health_status" where
  "record_success h = h\<lparr>hs_consecutive_failures := 0, hs_healthy := True\<rparr>"

definition record_failure :: "health_status \<Rightarrow> health_status" where
  "record_failure h =
     (let failures = hs_consecutive_failures h + 1;
          h = h\<lparr>hs_consecutive_failures := failures\<rparr> in
      if failures \<ge> hs_max_failed h then h\<lparr>hs_healthy := False\<rparr> else h)"

section \<open>Checks\<close>

datatype dialled = Dialled conn | DialFailed io_error | DialTimedOut

datatype health_error =
    CheckTimedOut
  | CheckIo io_error
  | EmptyResponse
  | StatusNotOk u16
  | InvalidResponse string

fun dial_result :: "dialled \<Rightarrow> health_error + conn" where
  "dial_result (Dialled c) = Inr c"
| "dial_result (DialFailed e) = Inl (CheckIo e)"
| "dial_result DialTimedOut = Inl CheckTimedOut"

definition tcp_health_check :: "dialled \<Rightarrow> health_error + unit" where
  "tcp_health_check d = rbind (dial_result d) (\<lambda>_. Inr ())"

definition crlf :: string where
  "crlf = [CHR 0x0D, CHR 0x0A]"

definition health_request :: "string \<Rightarrow> string \<Rightarrow> http_header list option \<Rightarrow> string" where
  "health_request addr path headers =
     ''GET '' @ path @ '' HTTP/1.1'' @ crlf @ ''Host: '' @ addr @ crlf @
     (case headers of
        Some hdrs \<Rightarrow> concat (map (\<lambda>h. hh_name h @ '': '' @ hh_value h @ crlf) hdrs)
      | None \<Rightarrow> []) @
     ''Connection: close'' @ crlf @ crlf"

text \<open>\<open>response\<close> is what one read from the connection gives; the buffer holds 1024 bytes.\<close>

definition http_health_check ::
  "dialled \<Rightarrow> io_error + bytes \<Rightarrow> string \<Rightarrow> string \<Rightarrow> http_header list option \<Rightarrow> health_error + unit" where
  "http_health_check d response addr path headers =
     rbind (dial_result d) (\<lambda>c.
     rbind (map_err CheckIo (snd (write_all (as_bytes (health_request addr path headers)) c))) (\<lambda>_.
     rbind (map_err CheckIo response) (\<lambda>sent.
     let buf = take 1024 sent in
     if length buf = 0 then Inl EmptyResponse
     else
       let response = from_utf8_lossy buf;
           status_line = (case lines response of [] \<Rightarrow> [] | l # _ \<Rightarrow> l) in
       case split_whitespace status_line of
         _ # status_str # _ \<Rightarrow>
           let status = (case parse_u16 status_str of Some n \<Rightarrow> n | None \<Rightarrow> 0) in
           if 200 \<le> status \<and> status < 300 then Inr () else Inl (StatusNotOk status)
       | _ \<Rightarrow> Inl (InvalidResponse status_line))))"

section \<open>The loop\<close>

text \<open>
  One turn: the interval has passed and the network answers as given, or the shutdown signal
  comes. The flag says whether the loop still runs. An unknown type of check counts for nothing.
\<close>

datatype health_event = HealthTick dialled "io_error + bytes" | HealthShutdown

definition run_check :: "health_check_config \<Rightarrow> string \<Rightarrow> dialled \<Rightarrow> io_error + bytes \<Rightarrow> (health_error + unit) option" where
  "run_check config local_addr d response =
     (if hc_check_type config = ''tcp'' then Some (tcp_health_check d)
      else if hc_check_type config = ''http'' then
        Some (http_health_check d response local_addr (case hc_path config of Some p \<Rightarrow> p | None \<Rightarrow> ''/'') (hc_http_headers config))
      else None)"

definition run_health_check :: "health_check_config \<Rightarrow> string \<Rightarrow> health_event \<Rightarrow> health_status \<times> bool \<Rightarrow> health_status \<times> bool" where
  "run_health_check config local_addr e s =
     (case s of (status, running) \<Rightarrow>
        if \<not> running then s
        else case e of
          HealthShutdown \<Rightarrow> (status, False)
        | HealthTick d response \<Rightarrow>
            (case run_check config local_addr d response of
               None \<Rightarrow> (status, True)
             | Some (Inr _) \<Rightarrow> (record_success status, True)
             | Some (Inl _) \<Rightarrow> (record_failure status, True)))"

section \<open>Properties\<close>

text \<open>The failures at the end of a sequence of outcomes, newest last.\<close>

definition trailing_failures :: "bool list \<Rightarrow> nat" where
  "trailing_failures os = length (takeWhile Not (rev os))"

definition outcome :: "bool \<Rightarrow> health_status \<Rightarrow> health_status" where
  "outcome ok h = (if ok then record_success h else record_failure h)"

lemma outcome_simps: "outcome True h = record_success h" "outcome False h = record_failure h"
  by (simp_all add: outcome_def)

lemma trailing_snoc [simp]:
  "trailing_failures (os @ [ok]) = (if ok then 0 else trailing_failures os + 1)" "trailing_failures [] = 0"
  by (simp_all add: trailing_failures_def)

lemma outcomes_count:
  "hs_consecutive_failures (fold outcome os (health_new m)) = of_nat (trailing_failures os) \<and>
   hs_max_failed (fold outcome os (health_new m)) = m"
  by (induction os rule: rev_induct)
    (auto simp: health_new_def outcome_def record_success_def record_failure_def Let_def)

text \<open>
  The loop reports exactly the outcomes of its checks, until it is shut down.
\<close>

fun outcomes_of :: "health_check_config \<Rightarrow> string \<Rightarrow> health_event list \<Rightarrow> bool list" where
  "outcomes_of config addr [] = []"
| "outcomes_of config addr (HealthShutdown # es) = []"
| "outcomes_of config addr (HealthTick d r # es) =
     (case run_check config addr d r of None \<Rightarrow> [] | Some o' \<Rightarrow> [is_ok o']) @ outcomes_of config addr es"

lemma run_step:
  "run_health_check config addr e (h, True) = (fold outcome (outcomes_of config addr [e]) h, e \<noteq> HealthShutdown)"
  by (cases e) (auto simp: run_health_check_def outcome_def split: option.split sum.split)

lemma run_stopped: "fst (fold (run_health_check config addr) es (h, False)) = h"
proof -
  have "run_health_check config addr e (h, False) = (h, False)" for e
    by (simp add: run_health_check_def)
  then show ?thesis by (induction es) simp_all
qed

lemma run_outcomes:
  "fst (fold (run_health_check config addr) es (h, True)) = fold outcome (outcomes_of config addr es) h"
proof (induction es arbitrary: h)
  case (Cons e es)
  then show ?case
    by (cases e) (simp_all add: run_step run_stopped)
qed simp

text \<open>
  C32. A service is unhealthy exactly while the failures since its last successful check, or
  since the start, have reached the limit of its configuration and there is at least one; this
  holds for every sequence of checks, also when more than \<open>2\<^sup>3\<^sup>2\<close> failures in a row wrap the
  counter around.
\<close>

theorem health_status_correct:
  "hs_healthy (fst (fold (run_health_check config addr) es (health_new (hc_max_failed config), True))) \<longleftrightarrow>
   trailing_failures (outcomes_of config addr es) < max 1 (unat (hc_max_failed config))"
proof -
  let ?m = "hc_max_failed config"
  have "hs_healthy (fold outcome os (health_new ?m)) \<longleftrightarrow> trailing_failures os < max 1 (unat ?m)" for os
  proof (induction os rule: rev_induct)
    case (snoc ok os)
    let ?h = "fold outcome os (health_new ?m)" and ?n = "trailing_failures os"
    have h: "hs_consecutive_failures ?h = of_nat ?n" "hs_max_failed ?h = ?m"
      using outcomes_count by auto
    have "?m \<le> of_nat ?n + 1 \<longleftrightarrow> unat ?m \<le> (?n + 1) mod 2 ^ 32"
    proof -
      have "of_nat ?n + 1 = (of_nat (?n + 1) :: u32)" by simp
      then show ?thesis
        by (simp only: word_le_nat_alt unsigned_of_nat take_bit_eq_mod of_nat_id) simp
    qed
    moreover have "(?n + 1) mod 2 ^ 32 = ?n + 1 \<or> unat ?m \<le> ?n"
      using unsigned_less [of ?m, where 'a = nat] by (cases "?n + 1 < 2 ^ 32") simp_all
    ultimately show ?case
      using snoc.IH h by (cases ok) (auto simp: outcome_simps record_success_def record_failure_def Let_def)
  qed (simp add: health_new_def)
  then show ?thesis by (simp add: run_outcomes)
qed

lemma show_nat_word: "word (show_nat n)"
  using show_nat_digits [of n] by (auto simp: word_def list_all_iff digit_graphic)

text \<open>
  The HTTP check passes exactly for the status codes from 200 to 299: whatever status line
  the service answers with, followed by anything, the check accepts those codes and reports any
  other code as the failure.
\<close>

theorem http_check_status:
  assumes "0 < wr_left c" "code \<le> 65535" "CHR 0x0A \<notin> set reason" "CHR 0x0D \<notin> set reason"
    and "ascii (reason @ rest)" "length (''HTTP/1.1 '' @ show_nat code @ '' '' @ reason @ crlf @ rest) \<le> 1024"
  shows "http_health_check (Dialled c) (Inr (as_bytes (''HTTP/1.1 '' @ show_nat code @ '' '' @ reason @ crlf @ rest))) addr path headers =
    (if 200 \<le> code \<and> code < 300 then Inr () else Inl (StatusNotOk (of_nat code)))"
proof -
  let ?line = "''HTTP/1.1'' @ CHR '' '' # show_nat code @ CHR '' '' # reason"
  have digits: "list_all is_ascii_digit (show_nat code)" using show_nat_digits by blast
  then have "ascii (show_nat code)" "CHR 0x0A \<notin> set (show_nat code)" "CHR 0x0D \<notin> set (show_nat code)"
    by (auto simp: ascii_def list_all_iff is_ascii_digit_def)
  moreover from this assms have "ascii (?line @ crlf @ rest)"
    by (auto simp: ascii_def crlf_def)
  ultimately have resp: "from_utf8_lossy (as_bytes (?line @ crlf @ rest)) = ?line @ crlf @ rest"
      and line: "lines (?line @ crlf @ rest) = ?line # lines rest"
    using assms lines_first [of ?line rest] by (simp_all only: from_utf8_lossy_ascii crlf_def) auto
  have "word ''HTTP/1.1''" by (simp add: word_def graphic_def)
  then have ws: "split_whitespace ?line = ''HTTP/1.1'' # show_nat code # split_whitespace reason"
    using split_whitespace_words(1) [of "''HTTP/1.1''" "show_nat code @ CHR '' '' # reason"]
      split_whitespace_words(1) [OF show_nat_word, of code reason] by simp
  have port: "parse_u16 (show_nat code) = Some (of_nat code)"
    using assms(2) by (simp add: parse_u16_def parse_show_nat)
  have code: "200 \<le> (of_nat code :: u16) \<longleftrightarrow> 200 \<le> code" "(of_nat code :: u16) < 300 \<longleftrightarrow> code < 300"
    using assms(2) by (simp_all add: word_le_nat_alt word_less_nat_alt unsigned_of_nat take_bit_eq_mod)
  have take: "take 1024 (as_bytes (?line @ crlf @ rest)) = as_bytes (?line @ crlf @ rest)"
    using assms(6) by simp
  have "''HTTP/1.1 '' @ show_nat code @ '' '' @ reason @ crlf @ rest = ?line @ crlf @ rest" by simp
  then show ?thesis
    using assms(1) by (simp only: http_health_check_def dial_result.simps rbind.simps write_all_ok snd_conv map_err.simps
        Let_def take resp line list.case ws port option.case code) (simp add: as_bytes_def)
qed

theorem http_check_status_witness:
  "http_health_check (Dialled \<lparr>rx = [], tx = [], wr_left = 1\<rparr>) (Inr (as_bytes (''HTTP/1.1 '' @ show_nat 204 @ '' '' @ ''No Content'' @ crlf @ crlf)))
     ''localhost:80'' ''/'' None = Inr ()"
proof -
  have "show_nat 2 = ''2''" "show_nat 20 = ''20''" "show_nat 204 = ''204''"
    by code_simp+
  then show ?thesis
    using http_check_status [of "\<lparr>rx = [], tx = [], wr_left = 1\<rparr>" 204 "''No Content''" crlf "''localhost:80''" "''/''" None]
    by (simp add: ascii_def crlf_def)
qed

end
