(* ===== verification/Dashboard.thy ===== *)
theory Dashboard
  imports Text_Lines Base64 Metrics Config_Types Conn
begin

text \<open>
  The dashboard server (\<^verbatim>\<open>dashboard.rs\<close>): the loop that accepts connections and the handling
  of one request, with Basic authentication and the four pages. What the single read of the
  request gives is a parameter, and so is the printing of JSON. A request is answered without
  reading further, and the connection is closed.
\<close>

section \<open>The page\<close>

definition dashboard_html :: string where
  \<open>dashboard_html = concat (map (\<lambda>l. l @ [CHR 0x0A])
    [''<!DOCTYPE html>'',
     ''<html>'',
     ''<head>'',
     ''    <title>Chagle Dashboard</title>'',
     ''    <meta charset="utf-8">'',
     ''    <style>'',
     ''        body { font-family: -apple-system, BlinkMacSystemFont, 'Segoe UI', sans-serif; margin: 20px; background: #f5f5f5; }'',
     ''        h1 { color: #333; }'',
     ''        .card { background: white; border-radius: 8px; padding: 20px; margin: 10px 0; box-shadow: 0 2px 4px rgba(0,0,0,0.1); }'',
     ''        table { width: 100%; border-collapse: collapse; }'',
     ''        th, td { text-align: left; padding: 8px 12px; border-bottom: 1px solid #eee; }'',
     ''        th { background: #f8f8f8; font-weight: 600; }'',
     ''        .status-ok { color: #22c55e; }'',
     ''        .status-err { color: #ef4444; }'',
     ''        #status { min-height: 100px; }'',
     ''    </style>'',
     ''</head>'',
     ''<body>'',
     ''    <h1>Chagle Dashboard</h1>'',
     ''    <div class="card">'',
     ''        <h2>Proxy Status</h2>'',
     ''        <div id="status">Loading...</div>'',
     ''    </div>'',
     ''    <script>'',
     ''        async function refresh() {'',
     ''            try {'',
     ''                const resp = await fetch('/api/status');'',
     ''                const data = await resp.json();'',
     ''                let html = '<table><tr><th>Proxy</th><th>Connections In</th><th>Connections Out</th><th>Bytes In</th><th>Bytes Out</th></tr>';'',
     ''                for (const [name, stats] of Object.entries(data)) {'',
     ''                    html += `<tr><td>${name}</td><td>${stats.connections_in}</td><td>${stats.connections_out}</td><td>${formatBytes(stats.bytes_in)}</td><td>${formatBytes(stats.bytes_out)}</td></tr>`;'',
     ''                }'',
     ''                html += '</table>';'',
     ''                document.getElementById('status').innerHTML = html;'',
     ''            } catch(e) {'',
     ''                document.getElementById('status').innerHTML = '<p class="status-err">Failed to load status</p>';'',
     ''            }'',
     ''        }'',
     ''        function formatBytes(b) {'',
     ''            if (b > 1073741824) return (b/1073741824).toFixed(2) + ' GB';'',
     ''            if (b > 1048576) return (b/1048576).toFixed(2) + ' MB';'',
     ''            if (b > 1024) return (b/1024).toFixed(2) + ' KB';'',
     ''            return b + ' B';'',
     ''        }'',
     ''        refresh();'',
     ''        setInterval(refresh, 5000);'',
     ''    </script>'',
     ''</body>'']) @
    ''</html>''\<close>
section \<open>Requests\<close>

definition crlf :: string where
  "crlf = [CHR 0x0D, CHR 0x0A]"

definition http_response :: "string \<Rightarrow> string \<Rightarrow> string \<Rightarrow> string" where
  "http_response status headers body =
     ''HTTP/1.1 '' @ status @ crlf @ headers @ ''Content-Length: '' @ show_nat (length body) @ crlf @ crlf @ body"

text \<open>
  \<^verbatim>\<open>l.to_lowercase().starts_with("authorization:")\<close>: no character outside ASCII has a lower case
  that the prefix could begin with, so only ASCII letters are folded.
\<close>

definition is_auth_line :: "string \<Rightarrow> bool" where
  "is_auth_line l \<longleftrightarrow> starts_with (map to_ascii_lowercase l) ''authorization:''"

definition authorized :: "string \<Rightarrow> string \<Rightarrow> string \<Rightarrow> bool" where
  "authorized user pass request =
     (case map_option trim (find is_auth_line (lines request)) of
        Some auth_line \<Rightarrow>
          (case rev (split_whitespace auth_line) of
             encoded # _ \<Rightarrow> encoded = simple_base64_encode (as_bytes (user @ '':'' @ pass))
           | [] \<Rightarrow> False)
      | None \<Rightarrow> False)"

definition unauthorized_response :: string where
  \<open>unauthorized_response =
     ''HTTP/1.1 401 Unauthorized'' @ crlf @ ''WWW-Authenticate: Basic realm="chagle"'' @ crlf @
     ''Content-Length: 12'' @ crlf @ crlf @ ''Unauthorized''\<close>

type_synonym json_printer = "(string, metrics_snapshot) hmap \<Rightarrow> string option"

text \<open>The answer to a path.\<close>

definition route :: "json_printer \<Rightarrow> metrics_collector \<Rightarrow> bool \<Rightarrow> string \<Rightarrow> string" where
  \<open>route to_string_pretty metrics enable_prometheus path =
     (if path = ''/metrics'' \<and> enable_prometheus then
        http_response ''200 OK'' (''Content-Type: text/plain; charset=utf-8'' @ crlf) (prometheus_output metrics)
      else if path = ''/api/status'' then
        http_response ''200 OK'' (''Content-Type: application/json'' @ crlf) (status_json to_string_pretty metrics)
      else if path = ''/api/health'' then
        http_response ''200 OK'' (''Content-Type: application/json'' @ crlf) (''{"status":"ok"}'')
      else if path = ''/'' then
        http_response ''200 OK'' (''Content-Type: text/html; charset=utf-8'' @ crlf) dashboard_html
      else http_response ''404 Not Found'' [] ''Not Found'')\<close>

text \<open>\<open>received\<close> is what one read gives; the buffer holds 4096 bytes.\<close>

definition handle_request ::
  "json_printer \<Rightarrow> metrics_collector \<Rightarrow> string option \<Rightarrow> string option \<Rightarrow> bool \<Rightarrow> io_error + bytes \<Rightarrow> (conn, io_error, unit) sm" where
  "handle_request to_string_pretty metrics auth_user auth_password enable_prometheus received =
     sbind (slift received) (\<lambda>sent.
     let buf = take 4096 sent in
     if length buf = 0 then sret ()
     else
       let request = from_utf8_lossy buf;
           first_line = (case lines request of [] \<Rightarrow> [] | l # _ \<Rightarrow> l) in
       case split_whitespace first_line of
         _ # path # _ \<Rightarrow>
           if (case (auth_user, auth_password) of
                 (Some user, Some pass) \<Rightarrow> \<not> authorized user pass request
               | _ \<Rightarrow> False)
           then write_all (as_bytes unauthorized_response)
           else write_all (as_bytes (route to_string_pretty metrics enable_prometheus path))
       | _ \<Rightarrow> sret ())"

section \<open>The loop\<close>

text \<open>
  One turn of \<^verbatim>\<open>run\<close>: a connection and what is read from it, a failed accept, or the shutdown
  signal. The answer of a connection is what is written to it. The flag says whether the loop
  still runs.
\<close>

datatype dashboard_event = Accepted conn "io_error + bytes" | AcceptFailed | DashboardShutdown

definition dashboard_addr :: "web_server_config \<Rightarrow> string" where
  "dashboard_addr config = web_addr config @ '':'' @ show_nat (unat (web_port config))"

definition dashboard_step ::
  "json_printer \<Rightarrow> web_server_config \<Rightarrow> metrics_collector \<Rightarrow> dashboard_event \<Rightarrow> bool \<times> bytes list \<Rightarrow> bool \<times> bytes list" where
  "dashboard_step to_string_pretty config metrics e s =
     (case s of (running, answers) \<Rightarrow>
        if \<not> running then s
        else case e of
          Accepted c received \<Rightarrow>
            (True, answers @ [tx (fst (handle_request to_string_pretty metrics (web_user config) (web_password config) True received c))])
        | AcceptFailed \<Rightarrow> s
        | DashboardShutdown \<Rightarrow> (False, answers))"

section \<open>Properties\<close>

text \<open>A request as a browser sends it: the method, the path and the version, then header lines.\<close>

definition plain_request :: "string \<Rightarrow> string \<Rightarrow> string list \<Rightarrow> string" where
  "plain_request method path headers =
     method @ '' '' @ path @ '' HTTP/1.1'' @ crlf @ concat (map (\<lambda>h. h @ crlf) headers) @ crlf"

definition header_line :: "string \<Rightarrow> bool" where
  "header_line h \<longleftrightarrow> h \<noteq> [] \<and> ascii h \<and> CHR 0x0A \<notin> set h \<and> CHR 0x0D \<notin> set h"

lemma word_plain: "word w \<Longrightarrow> header_line w"
  by (auto simp: word_def header_line_def ascii_def list_all_iff graphic_def)

lemma lines_headers:
  "\<forall>h \<in> set headers. header_line h \<Longrightarrow> lines (concat (map (\<lambda>h. h @ crlf) headers) @ crlf) = headers @ [[]]"
proof (induction headers)
  case Nil
  show ?case using lines_first [of "[]" "[]"] by (simp add: crlf_def) (simp add: lines.simps)
next
  case (Cons h hs)
  then show ?case
    using lines_first [of h "concat (map (\<lambda>h. h @ crlf) hs) @ crlf"] by (simp add: header_line_def crlf_def)
qed

lemma plain_request_lines:
  assumes "word method" "word path" "\<forall>h \<in> set headers. header_line h"
  shows "lines (plain_request method path headers) = (method @ '' '' @ path @ '' HTTP/1.1'') # headers @ [[]]"
    and "ascii (plain_request method path headers)"
    and "split_whitespace (method @ '' '' @ path @ '' HTTP/1.1'') = [method, path, ''HTTP/1.1'']"
proof -
  have m: "header_line method" "header_line path" using assms by (simp_all add: word_plain)
  show "lines (plain_request method path headers) = (method @ '' '' @ path @ '' HTTP/1.1'') # headers @ [[]]"
    using lines_first [of "method @ '' '' @ path @ '' HTTP/1.1''" "concat (map (\<lambda>h. h @ crlf) headers) @ crlf"]
      m lines_headers [OF assms(3)]
    by (simp add: plain_request_def header_line_def crlf_def)
  show "ascii (plain_request method path headers)"
    using m assms(3) by (auto simp: plain_request_def header_line_def ascii_def crlf_def list_all_iff)
  have "word ''HTTP/1.1''" by (simp add: word_def graphic_def)
  then show "split_whitespace (method @ '' '' @ path @ '' HTTP/1.1'') = [method, path, ''HTTP/1.1'']"
    using split_whitespace_words [OF assms(1)] split_whitespace_words [OF assms(2)] split_whitespace_words(2) [of "''HTTP/1.1''"]
    by simp
qed

lemma encode_inj: "simple_base64_encode a = simple_base64_encode b \<longleftrightarrow> a = b"
  by (metis base64_decode_encode option.inject)

definition basic_header :: "bytes \<Rightarrow> string" where
  "basic_header creds = ''Authorization: Basic '' @ simple_base64_encode creds"

lemma basic_header_line:
  assumes "creds \<noteq> []"
  shows "is_auth_line (basic_header creds)" "header_line (basic_header creds)" "trim (basic_header creds) = basic_header creds"
    "split_whitespace (basic_header creds) = [''Authorization:'', ''Basic'', simple_base64_encode creds]"
proof -
  let ?e = "simple_base64_encode creds"
  have e: "word ?e" using assms by (simp add: word_def list_all_iff base64_encode_graphic base64_encode_Nil_iff)
  have "map to_ascii_lowercase ''Authorization:'' = ''authorization:''" by code_simp
  then show "is_auth_line (basic_header creds)"
    by (simp add: is_auth_line_def basic_header_def starts_with_def)
  show "header_line (basic_header creds)"
    using word_plain [OF e] by (simp add: header_line_def basic_header_def ascii_def)
  have "graphic (last ?e)"
    using e by (auto simp: word_def list_all_iff)
  then show "trim (basic_header creds) = basic_header creds"
    using e by (intro trim_graphic) (simp_all add: basic_header_def word_def graphic_def)
  have "word ''Authorization:''" "word ''Basic''" by (simp_all add: word_def graphic_def)
  from split_whitespace_words(1) [OF this(1), of "''Basic '' @ ?e"] split_whitespace_words(1) [OF this(2), of ?e]
    split_whitespace_words(2) [OF e]
  show "split_whitespace (basic_header creds) = [''Authorization:'', ''Basic'', ?e]"
    by (simp add: basic_header_def)
qed

lemma authorized_request:
  assumes "lines request = pre @ basic_header creds # post" "creds \<noteq> []" "\<forall>l \<in> set pre. \<not> is_auth_line l"
  shows "authorized user pass request \<longleftrightarrow> creds = as_bytes (user @ '':'' @ pass)"
proof -
  have "find is_auth_line (pre @ basic_header creds # post) = Some (basic_header creds)"
    using assms(3) basic_header_line(1) [OF assms(2)] by (induction pre) auto
  then show ?thesis
    by (simp add: authorized_def assms(1) basic_header_line [OF assms(2)] encode_inj del: as_bytes_append)
qed

lemma unauthorized_request: "\<forall>l \<in> set (lines request). \<not> is_auth_line l \<Longrightarrow> \<not> authorized user pass request"
proof -
  assume "\<forall>l \<in> set (lines request). \<not> is_auth_line l"
  then have "find is_auth_line (lines request) = None" by (simp add: find_None_iff)
  then show ?thesis by (simp add: authorized_def)
qed

lemma handle_plain_request:
  assumes "word method" "word path" "\<forall>h \<in> set headers. header_line h" "length (plain_request method path headers) \<le> 4096"
  shows "handle_request tsp m user pass prom (Inr (as_bytes (plain_request method path headers))) c =
    write_all (as_bytes (if (case (user, pass) of (Some u, Some p) \<Rightarrow> \<not> authorized u p (plain_request method path headers) | _ \<Rightarrow> False)
      then unauthorized_response else route tsp m prom path)) c"
proof -
  let ?r = "plain_request method path headers"
  note plain = plain_request_lines [OF assms(1-3)]
  have "take 4096 (as_bytes ?r) = as_bytes ?r" using assms(4) by simp
  moreover have "length (as_bytes ?r) \<noteq> 0" by (simp add: plain_request_def)
  ultimately show ?thesis
    by (simp only: handle_request_def sbind_def slift_def prod.case sum.case Let_def if_False
        from_utf8_lossy_ascii [OF plain(2)] plain(1,3) list.case if_distrib [of as_bytes] if_distrib [of write_all]
        if_distribR)
qed



end
