(* ===== verification/Plugin.thy ===== *)
theory Plugin
  imports Text_Lines Config_Types Conn
begin

text \<open>
  Plugins (\<^verbatim>\<open>plugin.rs\<close>): the client plugins as they are made from their configuration, and the
  server plugin with its call of an HTTP endpoint. Printing and parsing JSON, connecting and
  what the endpoint answers are parameters.
\<close>

section \<open>Client plugins\<close>

datatype client_plugin =
    HttpProxyPlugin "string option" "string option"
  | Socks5Plugin "string option" "string option"
  | StaticFilePlugin string "string option" "string option" "string option"
  | Http2HttpsPlugin string "string option"
  | Https2HttpPlugin string "string option" "string option" "string option"
  | Http2HttpPlugin string "string option"
  | Https2HttpsPlugin string "string option"
  | Tls2RawPlugin string
  | UnixDomainSocketPlugin string

definition unwrap_or :: "'a option \<Rightarrow> 'a \<Rightarrow> 'a" where
  "unwrap_or x d = (case x of Some v \<Rightarrow> v | None \<Rightarrow> d)"

definition http_proxy_plugin_new :: "client_plugin_config \<Rightarrow> client_plugin" where
  "http_proxy_plugin_new config = HttpProxyPlugin (pl_http_user config) (pl_http_password config)"

definition socks5_plugin_new :: "client_plugin_config \<Rightarrow> client_plugin" where
  "socks5_plugin_new config = Socks5Plugin (pl_http_user config) (pl_http_password config)"

definition static_file_plugin_new :: "client_plugin_config \<Rightarrow> client_plugin" where
  "static_file_plugin_new config =
     StaticFilePlugin (unwrap_or (pl_local_path config) ''.'') (pl_strip_prefix config)
       (pl_http_user config) (pl_http_password config)"

definition http2https_plugin_new :: "client_plugin_config \<Rightarrow> client_plugin" where
  "http2https_plugin_new config =
     Http2HttpsPlugin (unwrap_or (pl_local_addr config) ''127.0.0.1:443'') (pl_host_header_rewrite config)"

definition https2http_plugin_new :: "client_plugin_config \<Rightarrow> client_plugin" where
  "https2http_plugin_new config =
     Https2HttpPlugin (unwrap_or (pl_local_addr config) ''127.0.0.1:80'') (pl_host_header_rewrite config)
       (pl_crt_path config) (pl_key_path config)"

definition http2http_plugin_new :: "client_plugin_config \<Rightarrow> client_plugin" where
  "http2http_plugin_new config =
     Http2HttpPlugin (unwrap_or (pl_local_addr config) ''127.0.0.1:80'') (pl_host_header_rewrite config)"

definition https2https_plugin_new :: "client_plugin_config \<Rightarrow> client_plugin" where
  "https2https_plugin_new config =
     Https2HttpsPlugin (unwrap_or (pl_local_addr config) ''127.0.0.1:443'') (pl_host_header_rewrite config)"

definition tls2raw_plugin_new :: "client_plugin_config \<Rightarrow> client_plugin" where
  "tls2raw_plugin_new config = Tls2RawPlugin (unwrap_or (pl_local_addr config) ''127.0.0.1:0'')"

definition unix_domain_socket_plugin_new :: "client_plugin_config \<Rightarrow> client_plugin" where
  "unix_domain_socket_plugin_new config =
     UnixDomainSocketPlugin (unwrap_or (pl_unix_path config) ''/tmp/chagle.sock'')"

datatype plugin_error =
    UnknownPluginType string
  | PluginIo io_error
  | PluginConnectFailed
  | InvalidPluginResponse
  | PluginJson

definition create_plugin :: "client_plugin_config \<Rightarrow> plugin_error + client_plugin" where
  "create_plugin config =
     (let t = pl_plugin_type config in
      if t = ''http_proxy'' then Inr (http_proxy_plugin_new config)
      else if t = ''socks5'' then Inr (socks5_plugin_new config)
      else if t = ''static_file'' then Inr (static_file_plugin_new config)
      else if t = ''http2https'' then Inr (http2https_plugin_new config)
      else if t = ''https2http'' then Inr (https2http_plugin_new config)
      else if t = ''http2http'' then Inr (http2http_plugin_new config)
      else if t = ''https2https'' then Inr (https2https_plugin_new config)
      else if t = ''tls2raw'' then Inr (tls2raw_plugin_new config)
      else if t = ''unix_domain_socket'' then Inr (unix_domain_socket_plugin_new config)
      else Inl (UnknownPluginType t))"

text \<open>\<^verbatim>\<open>name\<close> and \<^verbatim>\<open>plugin_type\<close>, which agree for every plugin.\<close>

fun plugin_type :: "client_plugin \<Rightarrow> string" where
  "plugin_type (HttpProxyPlugin _ _) = ''http_proxy''"
| "plugin_type (Socks5Plugin _ _) = ''socks5''"
| "plugin_type (StaticFilePlugin _ _ _ _) = ''static_file''"
| "plugin_type (Http2HttpsPlugin _ _) = ''http2https''"
| "plugin_type (Https2HttpPlugin _ _ _ _) = ''https2http''"
| "plugin_type (Http2HttpPlugin _ _) = ''http2http''"
| "plugin_type (Https2HttpsPlugin _ _) = ''https2https''"
| "plugin_type (Tls2RawPlugin _) = ''tls2raw''"
| "plugin_type (UnixDomainSocketPlugin _) = ''unix_domain_socket''"

section \<open>Server plugins\<close>

record server_plugin =
  plugin_name :: string
  plugin_addr :: string
  plugin_path :: string
  plugin_ops :: "string list"
  plugin_tls_verify :: bool

datatype plugin_op = Login | NewProxy | CloseProxy | Ping | NewWorkConn | NewUserConn

definition plugin_op_from_str :: "string \<Rightarrow> plugin_op option" where
  "plugin_op_from_str s =
     (if s = ''Login'' then Some Login
      else if s = ''NewProxy'' then Some NewProxy
      else if s = ''CloseProxy'' then Some CloseProxy
      else if s = ''Ping'' then Some Ping
      else if s = ''NewWorkConn'' then Some NewWorkConn
      else if s = ''NewUserConn'' then Some NewUserConn
      else None)"

record 'j plugin_response =
  resp_reject :: bool
  resp_reject_msg :: string
  resp_unchange :: bool
  resp_content :: "'j option"

definition server_plugin_new :: "server_plugin_config \<Rightarrow> server_plugin" where
  "server_plugin_new config =
     \<lparr>plugin_name = sp_name config, plugin_addr = sp_addr config, plugin_path = sp_path config,
      plugin_ops = sp_ops config, plugin_tls_verify = sp_tls_verify config\<rparr>"

definition supports_op :: "server_plugin \<Rightarrow> string \<Rightarrow> bool" where
  "supports_op p op \<longleftrightarrow> list_ex (\<lambda>o'. o' = op) (plugin_ops p)"

definition crlf :: string where
  "crlf = [CHR 0x0D, CHR 0x0A]"

text \<open>\<^verbatim>\<open>str::find\<close> of a pattern, as the text from its first occurrence on.\<close>

fun find_from :: "string \<Rightarrow> string \<Rightarrow> string option" where
  "find_from pat [] = (if pat = [] then Some [] else None)"
| "find_from pat (c # s) = (if starts_with (c # s) pat then Some (c # s) else find_from pat s)"

definition plugin_request :: "server_plugin \<Rightarrow> string \<Rightarrow> string" where
  "plugin_request p body_str =
     ''POST '' @ plugin_path p @ '' HTTP/1.1'' @ crlf @ ''Host: '' @ plugin_addr p @ crlf @
     ''Content-Type: application/json'' @ crlf @ ''Content-Length: '' @ show_nat (length body_str) @ crlf @
     ''Connection: close'' @ crlf @ crlf @ body_str"

text \<open>
  \<open>to_json op content\<close> prints the call with its version, \<open>from_json\<close> reads an answer. The
  connection holds what the endpoint sends before it closes, which is read to the end;
  \<open>read_ok\<close> says whether that reading succeeds.
\<close>

definition call ::
  "(string \<Rightarrow> 'j \<Rightarrow> string option) \<Rightarrow> (string \<Rightarrow> 'j plugin_response option) \<Rightarrow> conn option \<Rightarrow> bool \<Rightarrow>
   server_plugin \<Rightarrow> string \<Rightarrow> 'j \<Rightarrow> plugin_error + 'j plugin_response" where
  "call to_json from_json connect read_ok p op content =
     rbind (ok_or connect PluginConnectFailed) (\<lambda>stream.
     rbind (ok_or (to_json op content) PluginJson) (\<lambda>body_str.
     case write_all (as_bytes (plugin_request p body_str)) stream of
       (stream, r) \<Rightarrow>
         rbind (map_err PluginIo r) (\<lambda>_.
         rbind (require read_ok (PluginIo UnexpectedEof)) (\<lambda>_.
         let response_str = from_utf8_lossy (rx stream) in
         case find_from (crlf @ crlf) response_str of
           Some s \<Rightarrow> ok_or (from_json (drop 4 s)) PluginJson
         | None \<Rightarrow> Inl InvalidPluginResponse))))"

section \<open>Properties\<close>


text \<open>A plugin is made exactly for the nine known types, and is of the type that was asked for.\<close>

lemma create_plugin_Inr: "create_plugin config = Inr p \<Longrightarrow> plugin_type p = pl_plugin_type config"
  by (auto simp: create_plugin_def Let_def http_proxy_plugin_new_def socks5_plugin_new_def static_file_plugin_new_def
      http2https_plugin_new_def https2http_plugin_new_def http2http_plugin_new_def https2https_plugin_new_def
      tls2raw_plugin_new_def unix_domain_socket_plugin_new_def split: if_splits)

lemma create_plugin_Inl: "create_plugin config = Inl e \<longleftrightarrow>
  e = UnknownPluginType (pl_plugin_type config) \<and> pl_plugin_type config \<notin> range plugin_type"
proof -
  have types: "range plugin_type = {''http_proxy'', ''socks5'', ''static_file'', ''http2https'', ''https2http'',
      ''http2http'', ''https2https'', ''tls2raw'', ''unix_domain_socket''}"
  proof
    show "range plugin_type \<subseteq> {''http_proxy'', ''socks5'', ''static_file'', ''http2https'', ''https2http'',
      ''http2http'', ''https2https'', ''tls2raw'', ''unix_domain_socket''}"
    proof
      fix t
      assume "t \<in> range plugin_type"
      then obtain p where "t = plugin_type p" by blast
      then show "t \<in> {''http_proxy'', ''socks5'', ''static_file'', ''http2https'', ''https2http'',
        ''http2http'', ''https2https'', ''tls2raw'', ''unix_domain_socket''}"
        by (cases p) simp_all
    qed
    show "{''http_proxy'', ''socks5'', ''static_file'', ''http2https'', ''https2http'',
      ''http2http'', ''https2https'', ''tls2raw'', ''unix_domain_socket''} \<subseteq> range plugin_type"
      by (metis (no_types, lifting) empty_subsetI insert_subset plugin_type.simps rangeI)
  qed
  show ?thesis
    unfolding types by (auto simp: create_plugin_def Let_def)
qed

text \<open>The head of an HTTP message, its lines one by one, and the body after the empty line.\<close>

fun http_message :: "string list \<Rightarrow> string \<Rightarrow> string" where
  "http_message [] body = crlf @ body"
| "http_message (l # ls) body = l @ crlf @ http_message ls body"

lemma find_from_skip: "CHR 0x0D \<notin> set l \<Longrightarrow> find_from (crlf @ crlf) (l @ s) = find_from (crlf @ crlf) s"
  by (induction l) (auto simp: starts_with_def crlf_def)

lemma find_from_message:
  assumes "\<forall>l \<in> set (ls @ [m]). l \<noteq> [] \<and> CHR 0x0D \<notin> set l"
  shows "find_from (crlf @ crlf) (http_message (ls @ [m]) body) = Some (crlf @ crlf @ body)"
  using assms
proof (induction ls)
  case Nil
  then have "find_from (crlf @ crlf) (m @ crlf @ crlf @ body) = find_from (crlf @ crlf) (crlf @ crlf @ body)"
    by (intro find_from_skip) simp
  then show ?case by (simp add: crlf_def starts_with_def)
next
  case (Cons l ls)
  obtain c r where next_line: "http_message (ls @ [m]) body = c # r" "c \<noteq> CHR 0x0D"
    using Cons.prems by (cases ls) (fastforce simp: neq_Nil_conv)+
  have "find_from (crlf @ crlf) (l @ crlf @ http_message (ls @ [m]) body) = find_from (crlf @ crlf) (crlf @ c # r)"
    using Cons.prems next_line by (simp add: find_from_skip)
  also have "\<dots> = find_from (crlf @ crlf) (c # r)"
    using next_line by (simp add: crlf_def starts_with_def)
  finally show ?case
    using Cons next_line by simp
qed

text \<open>
  A plugin call sends one well-framed request and understands the answer: the endpoint gets
  a POST whose length header is the length of the JSON that follows, and for any answer with a
  status line and headers, the JSON parser is given exactly the body; whether the plugin rejects
  is what the endpoint said.
\<close>

theorem plugin_call_body:
  assumes "to_json op content = Some js" "0 < wr_left c" "read_ok"
    and "\<forall>l \<in> set (ls @ [m]). l \<noteq> [] \<and> CHR 0x0D \<notin> set l" "ascii (http_message (ls @ [m]) body)"
    and "rx c = as_bytes (http_message (ls @ [m]) body)"
  shows "call to_json from_json (Some c) read_ok p op content = ok_or (from_json body) PluginJson \<and>
    tx (fst (write_all (as_bytes (plugin_request p js)) c)) = tx c @ as_bytes (http_message
      [''POST '' @ plugin_path p @ '' HTTP/1.1'', ''Host: '' @ plugin_addr p, ''Content-Type: application/json'',
       ''Content-Length: '' @ show_nat (length js), ''Connection: close''] js)"
proof -
  have "find_from (crlf @ crlf) (from_utf8_lossy (rx c)) = Some (crlf @ crlf @ body)"
    using assms(4,5,6) by (simp add: from_utf8_lossy_ascii find_from_message)
  moreover have "drop 4 (crlf @ crlf @ body) = body" by (simp add: crlf_def)
  ultimately have "call to_json from_json (Some c) read_ok p op content = ok_or (from_json body) PluginJson"
    using assms(1-3) by (simp add: call_def write_all_ok Let_def)
  then show ?thesis
    using assms(2) by (simp add: write_all_ok plugin_request_def)
qed

end
