(* ===== verification/Tls.thy ===== *)
theory Tls
  imports Helper Config
begin

text \<open>
  The TLS transports (\<^verbatim>\<open>transport/native_tls.rs\<close>, \<^verbatim>\<open>transport/rustls.rs\<close>; a build has one of
  them) and the Noise transport (\<^verbatim>\<open>transport/noise.rs\<close>). The crates and the file system are
  parameters, records of the functions that the code calls; what they return is opaque. A panic
  of the code, the unwraps of missing values and of errors, is the error \<open>TlsPanic\<close>.

  The locale \<open>tls_backend\<close> is what the code around the transports relies on: how a transport
  that could be made relates to its configuration.
\<close>

datatype tls_error =
    MissingTlsConfig
  | Unreadable string
  | BadCertificate
  | NotBuilt
  | BadIdentity
  | TlsPanic
  | TlsDial helper_error
  | BadServerName
  | TlsHandshakeFailed

section \<open>What both backends have\<close>

record ('cn, 'ac) tls_transport =
  tls_tcp :: tcp_transport
  tls_cfg :: tls_config
  tls_connector :: "'cn option"
  tls_acceptor :: "'ac option"

definition tls_accept :: "bool \<times> bool \<Rightarrow> ('cn, 'ac) tls_transport \<Rightarrow> tcp_socket \<Rightarrow> tcp_socket" where
  "tls_accept set_ok t s = tcp_transport_accept set_ok (tls_tcp t) s"

text \<open>\<open>accept\<close> is the TLS handshake of the server over a raw connection.\<close>

definition tls_handshake :: "('ac \<Rightarrow> 'raw \<Rightarrow> 'st option) \<Rightarrow> ('cn, 'ac) tls_transport \<Rightarrow> 'raw \<Rightarrow> tls_error + 'st" where
  "tls_handshake accept t conn =
     rbind (ok_or (tls_acceptor t) TlsPanic) (\<lambda>a. ok_or (accept a conn) TlsHandshakeFailed)"

text \<open>
  The name that the certificate of the server is checked for. The host of the address is
  computed also when a name is configured, and its failure is the failure of connecting.
\<close>

definition tls_server_name :: "tls_config \<Rightarrow> addr_maybe_cached \<Rightarrow> tls_error + string" where
  "tls_server_name cfg addr =
     rbind (map_err TlsDial (host_port_pair (am_addr addr))) (\<lambda>(host, _).
     Inr (case tls_hostname cfg of Some h \<Rightarrow> h | None \<Rightarrow> host))"

section \<open>native-tls\<close>

record ('cert, 'cn, 'id, 'ac) native_api =
  na_read :: "string \<Rightarrow> bytes option"
  na_from_pem :: "bytes \<Rightarrow> 'cert option"
  na_build :: "'cert option \<Rightarrow> 'cn option"
  na_from_pkcs12 :: "bytes \<Rightarrow> string \<Rightarrow> 'id option"
  na_acceptor :: "'id \<Rightarrow> 'ac option"

definition native_connector :: "('cert, 'cn, 'id, 'ac) native_api \<Rightarrow> tls_config \<Rightarrow> tls_error + 'cn" where
  "native_connector api cfg =
     (case tls_trusted_root cfg of
        Some path \<Rightarrow>
          rbind (ok_or (Option.bind (na_read api path) string_from_utf8) (Unreadable path)) (\<lambda>s.
          rbind (ok_or (na_from_pem api (as_bytes s)) BadCertificate) (\<lambda>cert.
          ok_or (na_build api (Some cert)) NotBuilt))
      | None \<Rightarrow> ok_or (na_build api None) NotBuilt)"

definition native_acceptor :: "('cert, 'cn, 'id, 'ac) native_api \<Rightarrow> tls_config \<Rightarrow> tls_error + 'ac option" where
  "native_acceptor api cfg =
     (case tls_pkcs12 cfg of
        Some path \<Rightarrow>
          rbind (ok_or (na_read api path) (Unreadable path)) (\<lambda>b.
          rbind (ok_or (tls_pkcs12_password cfg) TlsPanic) (\<lambda>pw.
          rbind (ok_or (na_from_pkcs12 api b pw) BadIdentity) (\<lambda>ident.
          rbind (ok_or (na_acceptor api ident) TlsPanic) (\<lambda>a. Inr (Some a)))))
      | None \<Rightarrow> Inr None)"

definition native_tls_new ::
  "('cert, 'cn, 'id, 'ac) native_api \<Rightarrow> transport_config \<Rightarrow> tls_error + ('cn, 'ac) tls_transport" where
  "native_tls_new api config =
     (let tcp = tcp_transport_new config in
      rbind (ok_or (tr_tls config) MissingTlsConfig) (\<lambda>cfg.
      rbind (native_connector api cfg) (\<lambda>connector.
      rbind (native_acceptor api cfg) (\<lambda>acceptor.
      Inr \<lparr>tls_tcp = tcp, tls_cfg = cfg, tls_connector = Some connector, tls_acceptor = acceptor\<rparr>))))"

text \<open>\<open>connect\<close> is the TLS handshake of the client, for a server name.\<close>

definition native_tls_connect ::
  "('cn \<Rightarrow> string \<Rightarrow> dial \<Rightarrow> 'st option) \<Rightarrow> bool \<times> bool \<Rightarrow> ('cn, 'ac) tls_transport \<Rightarrow> addr_maybe_cached \<Rightarrow> tcp_socket \<Rightarrow>
   tls_error + 'st" where
  "native_tls_connect connect set_ok t addr s =
     rbind (map_err TlsDial (tcp_transport_connect set_ok (tls_tcp t) addr s)) (\<lambda>(conn, _).
     rbind (ok_or (tls_connector t) TlsPanic) (\<lambda>cn.
     rbind (tls_server_name (tls_cfg t) addr) (\<lambda>name.
     ok_or (connect cn name conn) TlsHandshakeFailed)))"

section \<open>rustls\<close>

record ('cert, 'pfx, 'key, 'cn, 'ac) rustls_api =
  ra_read :: "string \<Rightarrow> bytes option"
  ra_pem_certs :: "bytes \<Rightarrow> 'cert option list"
  ra_native_certs :: "'cert list option"
  ra_root_add :: "'cert \<Rightarrow> bool"
  ra_client_config :: "'cert \<Rightarrow> 'cn"
  ra_pfx_parse :: "bytes \<Rightarrow> 'pfx option"
  ra_cert_bags :: "'pfx \<Rightarrow> string \<Rightarrow> 'cert list option"
  ra_key_bags :: "'pfx \<Rightarrow> string \<Rightarrow> 'key list option"
  ra_server_config :: "'cert list \<Rightarrow> 'key \<Rightarrow> 'ac option"
  ra_server_name :: "string \<Rightarrow> bool"

definition load_server_config :: "('cert, 'pfx, 'key, 'cn, 'ac) rustls_api \<Rightarrow> tls_config \<Rightarrow> tls_error + 'ac option" where
  "load_server_config api config =
     (case tls_pkcs12 config of
        Some path \<Rightarrow>
          rbind (ok_or (ra_read api path) (Unreadable path)) (\<lambda>buf.
          rbind (ok_or (ra_pfx_parse api buf) BadIdentity) (\<lambda>pfx.
          rbind (ok_or (tls_pkcs12_password config) TlsPanic) (\<lambda>pass.
          rbind (ok_or (ra_cert_bags api pfx pass) BadIdentity) (\<lambda>chain.
          rbind (ok_or (ra_key_bags api pfx pass) BadIdentity) (\<lambda>keys.
          rbind (case keys of [] \<Rightarrow> Inl TlsPanic | k # _ \<Rightarrow> Inr k) (\<lambda>key.
          rbind (ok_or (ra_server_config api chain key) BadIdentity) (\<lambda>c. Inr (Some c))))))))
      | None \<Rightarrow> Inr None)"

text \<open>One certificate, the first of the file or of the system, becomes the only trusted root.\<close>

definition load_client_config :: "('cert, 'pfx, 'key, 'cn, 'ac) rustls_api \<Rightarrow> tls_config \<Rightarrow> tls_error + 'cn option" where
  "load_client_config api config =
     rbind (case tls_trusted_root config of
         Some path \<Rightarrow>
           rbind (ok_or (ra_read api path) TlsPanic) (\<lambda>s.
           (case ra_pem_certs api s of
              [] \<Rightarrow> Inl BadCertificate
            | None # _ \<Rightarrow> Inl TlsPanic
            | Some cert # _ \<Rightarrow> Inr (Some cert)))
       | None \<Rightarrow>
           (case ra_native_certs api of
              Some [] \<Rightarrow> Inl TlsPanic
            | Some (cert # _) \<Rightarrow> Inr (Some cert)
            | None \<Rightarrow> Inr None)) (\<lambda>cert.
     case cert of
       None \<Rightarrow> Inr None
     | Some cert \<Rightarrow> rbind (require (ra_root_add api cert) TlsPanic) (\<lambda>_. Inr (Some (ra_client_config api cert))))"

definition rustls_new ::
  "('cert, 'pfx, 'key, 'cn, 'ac) rustls_api \<Rightarrow> transport_config \<Rightarrow> tls_error + ('cn, 'ac) tls_transport" where
  "rustls_new api config =
     (let tcp = tcp_transport_new config in
      rbind (ok_or (tr_tls config) MissingTlsConfig) (\<lambda>cfg.
      rbind (map_err (\<lambda>_. TlsPanic) (load_client_config api cfg)) (\<lambda>connector.
      rbind (map_err (\<lambda>_. TlsPanic) (load_server_config api cfg)) (\<lambda>acceptor.
      Inr \<lparr>tls_tcp = tcp, tls_cfg = cfg, tls_connector = connector, tls_acceptor = acceptor\<rparr>))))"

definition rustls_connect ::
  "('cert, 'pfx, 'key, 'cn, 'ac) rustls_api \<Rightarrow> ('cn \<Rightarrow> string \<Rightarrow> dial \<Rightarrow> 'st option) \<Rightarrow> bool \<times> bool \<Rightarrow>
   ('cn, 'ac) tls_transport \<Rightarrow> addr_maybe_cached \<Rightarrow> tcp_socket \<Rightarrow> tls_error + 'st" where
  "rustls_connect api connect set_ok t addr s =
     rbind (map_err TlsDial (tcp_transport_connect set_ok (tls_tcp t) addr s)) (\<lambda>(conn, _).
     rbind (ok_or (tls_connector t) TlsPanic) (\<lambda>cn.
     rbind (tls_server_name (tls_cfg t) addr) (\<lambda>name.
     rbind (require (ra_server_name api name) BadServerName) (\<lambda>_.
     ok_or (connect cn name conn) TlsHandshakeFailed))))"

section \<open>Noise\<close>

datatype noise_error = MissingNoiseConfig | BadPattern | BadRemoteKey | BadLocalKey | NoKeypair | NoiseDial helper_error | NoiseHandshake

record 'p noise_transport =
  nt_tcp :: tcp_transport
  nt_config :: noise_config
  nt_params :: 'p
  nt_local_private_key :: bytes
  nt_remote_public_key :: "bytes option"

text \<open>\<open>parse\<close>, \<open>decode\<close> and \<open>generate\<close> are the pattern parser, standard base64 and the key generator.\<close>

definition noise_new ::
  "(string \<Rightarrow> 'p option) \<Rightarrow> (string \<Rightarrow> bytes option) \<Rightarrow> ('p \<Rightarrow> bytes option) \<Rightarrow> transport_config \<Rightarrow> noise_error + 'p noise_transport" where
  "noise_new parse decode generate config =
     (let tcp = tcp_transport_new config in
      rbind (ok_or (tr_noise config) MissingNoiseConfig) (\<lambda>cfg.
      rbind (ok_or (parse (noise_pattern cfg)) BadPattern) (\<lambda>builder.
      rbind (case noise_remote_public_key cfg of
          Some x \<Rightarrow> rbind (ok_or (decode x) BadRemoteKey) (\<lambda>k. Inr (Some k))
        | None \<Rightarrow> Inr None) (\<lambda>remote_public_key.
      rbind (case noise_local_private_key cfg of
          Some x \<Rightarrow> ok_or (decode x) BadLocalKey
        | None \<Rightarrow> ok_or (generate builder) NoKeypair) (\<lambda>local_private_key.
      rbind (ok_or (parse (noise_pattern cfg)) BadPattern) (\<lambda>params.
      Inr \<lparr>nt_tcp = tcp, nt_config = cfg, nt_params = params, nt_local_private_key = local_private_key,
        nt_remote_public_key = remote_public_key\<rparr>))))))"

text \<open>What a handshake is given: the pattern, the own key and the other's key, if it is known.\<close>

definition noise_builder :: "'p noise_transport \<Rightarrow> 'p \<times> bytes \<times> bytes option" where
  "noise_builder t = (nt_params t, nt_local_private_key t, nt_remote_public_key t)"

definition noise_accept :: "bool \<times> bool \<Rightarrow> 'p noise_transport \<Rightarrow> tcp_socket \<Rightarrow> tcp_socket" where
  "noise_accept set_ok t s = tcp_transport_accept set_ok (nt_tcp t) s"

definition noise_handshake :: "('p \<times> bytes \<times> bytes option \<Rightarrow> 'raw \<Rightarrow> 'st option) \<Rightarrow> 'p noise_transport \<Rightarrow> 'raw \<Rightarrow> noise_error + 'st" where
  "noise_handshake respond t conn = ok_or (respond (noise_builder t) conn) NoiseHandshake"

definition noise_connect ::
  "('p \<times> bytes \<times> bytes option \<Rightarrow> dial \<Rightarrow> 'st option) \<Rightarrow> bool \<times> bool \<Rightarrow> 'p noise_transport \<Rightarrow> addr_maybe_cached \<Rightarrow> tcp_socket \<Rightarrow>
   noise_error + 'st" where
  "noise_connect initiate set_ok t addr s =
     rbind (map_err NoiseDial (tcp_transport_connect set_ok (nt_tcp t) addr s)) (\<lambda>(conn, _).
     ok_or (initiate (noise_builder t) conn) NoiseHandshake)"

section \<open>The contract of a backend\<close>

locale tls_backend =
  fixes new :: "transport_config \<Rightarrow> tls_error + ('cn, 'ac) tls_transport"
  assumes new_cfg: "new config = Inr t \<Longrightarrow> tr_tls config = Some (tls_cfg t)"
    and new_tcp: "new config = Inr t \<Longrightarrow> tls_tcp t = tcp_transport_new config"
    and new_acceptor: "new config = Inr t \<Longrightarrow> tls_acceptor t = None \<longleftrightarrow> tls_pkcs12 (tls_cfg t) = None"
begin

lemma handshake_panics_iff:
  "new config = Inr t \<Longrightarrow> tls_handshake accept t conn = Inl TlsPanic \<longleftrightarrow> tls_pkcs12 (tls_cfg t) = None"
  using new_acceptor [of config t]
  by (cases "tls_acceptor t"; cases "accept (the (tls_acceptor t)) conn") (auto simp: tls_handshake_def)

lemma server_handshake:
  assumes "validate_transport_config config True = Inr ()" "tr_transport_type config = TTls" "new config = Inr t"
  shows "\<exists>a. tls_acceptor t = Some a \<and> tls_handshake accept t conn = ok_or (accept a conn) TlsHandshakeFailed"
proof -
  have "tls_pkcs12 (tls_cfg t) \<noteq> None"
    using assms(1,2) new_cfg [OF assms(3)] by (auto simp: validate_transport_config_def result_iff split: option.splits)
  then obtain a where "tls_acceptor t = Some a"
    using new_acceptor [OF assms(3)] by auto
  then show ?thesis by (simp add: tls_handshake_def)
qed

end

sublocale tls_backend \<subseteq> transport new tls_accept
  by unfold_locales (simp add: new_tcp tls_accept_def tcp.accept_opts)

interpretation native: tls_backend "native_tls_new api" for api
  by unfold_locales (auto simp: native_tls_new_def native_acceptor_def result_iff Let_def split: option.splits)

interpretation rust: tls_backend "rustls_new api" for api
  by unfold_locales (auto simp: rustls_new_def load_server_config_def result_iff Let_def split: option.splits)

interpretation noise: transport "noise_new parse decode generate" noise_accept for parse decode generate
  by unfold_locales (auto simp: noise_new_def noise_accept_def tcp.accept_opts result_iff)

section \<open>Properties\<close>

text \<open>
  C38. A server whose TLS section passed validation can take connections: with either backend,
  if the transport can be made at all then it has an acceptor, and a handshake is that
  acceptor's verdict on the connection, never the panic of a missing one. A transport that is
  made for an unvalidated section without an identity panics at every connection.
\<close>

theorem tls_validated_server:
  assumes "validate_transport_config config True = Inr ()" and "tr_transport_type config = TTls"
  shows "(native_tls_new napi config = Inr nt \<longrightarrow>
      (\<exists>a. tls_acceptor nt = Some a \<and> tls_handshake naccept nt conn = ok_or (naccept a conn) TlsHandshakeFailed)) \<and>
    (rustls_new rapi config = Inr rt \<longrightarrow>
      (\<exists>a. tls_acceptor rt = Some a \<and> tls_handshake raccept rt conn = ok_or (raccept a conn) TlsHandshakeFailed)) \<and>
    (native_tls_new napi config' = Inr nt' \<longrightarrow>
      (tls_handshake naccept nt' conn = Inl TlsPanic \<longleftrightarrow> tls_pkcs12 (tls_cfg nt') = None)) \<and>
    (rustls_new rapi config' = Inr rt' \<longrightarrow>
      (tls_handshake raccept rt' conn = Inl TlsPanic \<longleftrightarrow> tls_pkcs12 (tls_cfg rt') = None))"
  using native.server_handshake [OF assms] rust.server_handshake [OF assms]
    native.handshake_panics_iff rust.handshake_panics_iff by (intro conjI impI)

definition example_native :: "(unit, unit, unit, unit) native_api" where
  "example_native = \<lparr>na_read = (\<lambda>_. Some []), na_from_pem = (\<lambda>_. Some ()), na_build = (\<lambda>_. Some ()),
     na_from_pkcs12 = (\<lambda>_ _. Some ()), na_acceptor = Some\<rparr>"

definition example_rustls :: "(unit, unit, unit, unit, unit) rustls_api" where
  "example_rustls = \<lparr>ra_read = (\<lambda>_. Some []), ra_pem_certs = (\<lambda>_. [Some ()]), ra_native_certs = Some [()],
     ra_root_add = (\<lambda>_. True), ra_client_config = id, ra_pfx_parse = (\<lambda>_. Some ()), ra_cert_bags = (\<lambda>_ _. Some [()]),
     ra_key_bags = (\<lambda>_ _. Some [()]), ra_server_config = (\<lambda>_ _. Some ()), ra_server_name = (\<lambda>_. True)\<rparr>"

definition example_tls :: tls_config where
  "example_tls = \<lparr>tls_hostname = None, tls_trusted_root = None, tls_pkcs12 = Some ''id.pfx'', tls_pkcs12_password = Some ''pw'',
     tls_cert_file = None, tls_key_file = None, tls_force = False\<rparr>"

definition example_tls_transport :: transport_config where
  "example_tls_transport = default_transport\<lparr>tr_transport_type := TTls, tr_tls := Some example_tls\<rparr>"

definition example_made :: "(unit, unit) tls_transport" where
  "example_made = \<lparr>tls_tcp = tcp_transport_new example_tls_transport, tls_cfg = example_tls, tls_connector = Some (), tls_acceptor = Some ()\<rparr>"

theorem tls_validated_server_witness:
  "\<exists>a. tls_acceptor example_made = Some a \<and> tls_handshake (\<lambda>_ _. Some True) example_made () = Inr True"
proof -
  have "native_tls_new example_native example_tls_transport = Inr example_made"
    "rustls_new example_rustls example_tls_transport = Inr example_made"
    by (simp_all add: native_tls_new_def rustls_new_def native_connector_def native_acceptor_def load_client_config_def
        load_server_config_def example_native_def example_rustls_def example_tls_transport_def example_tls_def example_made_def)
  moreover have "validate_transport_config example_tls_transport True = Inr ()" "tr_transport_type example_tls_transport = TTls"
    by (simp_all add: validate_transport_config_def example_tls_transport_def example_tls_def default_transport_def default_tcp_def)
  ultimately show ?thesis
    using tls_validated_server [of example_tls_transport example_native example_made "\<lambda>_ _. Some True" "()" example_rustls example_made "\<lambda>_ _. Some True"]
    by auto
qed

text \<open>
  The WebSocket transport over TLS uses the same section, which validation does not look at:
  a server of this type without an identity passes and panics at its first connection.
\<close>

lemma websocket_tls_unvalidated:
  assumes "tr_transport_type config = TWebsocket" "tcp_proxy (tr_tcp config) = None"
    and "native_tls_new api config = Inr t" "tls_pkcs12 (tls_cfg t) = None"
  shows "validate_transport_config config True = Inr () \<and> tls_handshake accept t conn = Inl TlsPanic"
  using assms native.handshake_panics_iff [OF assms(3)] by (simp add: validate_transport_config_def)

text \<open>The name that is checked is the configured one, or the host of the remote address.\<close>

lemma tls_server_name_eq:
  "tls_server_name cfg (addr_new (host @ '':'' @ show_nat (unat (port :: u16)))) =
     Inr (case tls_hostname cfg of Some h \<Rightarrow> h | None \<Rightarrow> host)"
  using host_port_pair_ok [OF refl, of host port] by (simp add: tls_server_name_def addr_new_def)

end
