(* ===== verification/Websocket.thy ===== *)
theory Websocket
  imports Tls
begin

text \<open>
  The WebSocket transport (\<^verbatim>\<open>transport/websocket.rs\<close>): the stream below it, plain or TLS, the
  tunnel that carries a byte stream in binary messages, and the transport.

  The WebSocket library and the reader that turns a stream of chunks into a byte stream are
  parameters. Of the first the model has the messages it delivers, in the order it delivers
  them, and whether it takes a message; of the second the documented behaviour is the
  hypothesis \<open>reader_ok\<close>.
\<close>

section \<open>The stream below\<close>

datatype 'a polled = Waiting | Done 'a

datatype ('t, 's) transport_stream = Insecure 't | Secure 's

fun ts_get_tcpstream :: "('s \<Rightarrow> 't) \<Rightarrow> ('t, 's) transport_stream \<Rightarrow> 't" where
  "ts_get_tcpstream get_tcpstream (Insecure s) = s"
| "ts_get_tcpstream get_tcpstream (Secure s) = get_tcpstream s"

text \<open>A poll of the stream is that of the variant it holds; \<open>f\<close> and \<open>g\<close> are the polls of the two.\<close>

fun ts_poll :: "('t \<Rightarrow> 't \<times> 'r) \<Rightarrow> ('s \<Rightarrow> 's \<times> 'r) \<Rightarrow> ('t, 's) transport_stream \<Rightarrow> ('t, 's) transport_stream \<times> 'r" where
  "ts_poll f g (Insecure s) = (case f s of (s', r) \<Rightarrow> (Insecure s', r))"
| "ts_poll f g (Secure s) = (case g s of (s', r) \<Rightarrow> (Secure s', r))"

definition ts_poll_read ::
  "(nat \<Rightarrow> 't \<Rightarrow> 't \<times> 'r) \<Rightarrow> (nat \<Rightarrow> 's \<Rightarrow> 's \<times> 'r) \<Rightarrow> nat \<Rightarrow> ('t, 's) transport_stream \<Rightarrow> ('t, 's) transport_stream \<times> 'r" where
  "ts_poll_read f g k = ts_poll (f k) (g k)"

definition ts_poll_write ::
  "(bytes \<Rightarrow> 't \<Rightarrow> 't \<times> 'r) \<Rightarrow> (bytes \<Rightarrow> 's \<Rightarrow> 's \<times> 'r) \<Rightarrow> bytes \<Rightarrow> ('t, 's) transport_stream \<Rightarrow> ('t, 's) transport_stream \<times> 'r" where
  "ts_poll_write f g buf = ts_poll (f buf) (g buf)"

definition ts_poll_flush :: "('t \<Rightarrow> 't \<times> 'r) \<Rightarrow> ('s \<Rightarrow> 's \<times> 'r) \<Rightarrow> ('t, 's) transport_stream \<Rightarrow> ('t, 's) transport_stream \<times> 'r" where
  "ts_poll_flush f g = ts_poll f g"

definition ts_poll_shutdown :: "('t \<Rightarrow> 't \<times> 'r) \<Rightarrow> ('s \<Rightarrow> 's \<times> 'r) \<Rightarrow> ('t, 's) transport_stream \<Rightarrow> ('t, 's) transport_stream \<times> 'r" where
  "ts_poll_shutdown f g = ts_poll f g"

section \<open>The tunnel\<close>

datatype message = Text string | Binary bytes | Ping bytes | Pong bytes | Close

datatype ws_error = WsLibrary | UnexpectedFrame

text \<open>What the library says when it is polled: nothing yet, the end, an error, or a message.\<close>

type_synonym ws_item = "(unit + message) option polled"
type_synonym chunk = "(ws_error + bytes) option polled"

fun stream_wrapper_poll_next :: "ws_item \<Rightarrow> chunk" where
  "stream_wrapper_poll_next Waiting = Waiting"
| "stream_wrapper_poll_next (Done None) = Done None"
| "stream_wrapper_poll_next (Done (Some (Inl err))) = Done (Some (Inl WsLibrary))"
| "stream_wrapper_poll_next (Done (Some (Inr res))) =
     (case res of Binary b \<Rightarrow> Done (Some (Inr b)) | _ \<Rightarrow> Done (Some (Inl UnexpectedFrame)))"

text \<open>
  The items the library will deliver, and one poll of the wrapper on them; with none left it
  has nothing yet.
\<close>

fun poll_next :: "ws_item list \<Rightarrow> ws_item list \<times> chunk" where
  "poll_next [] = ([], Waiting)"
| "poll_next (i # is) = (is, stream_wrapper_poll_next i)"

text \<open>
  The reader over the wrapper: given a buffer size, its state and the items it polls the
  wrapper and gives bytes, an error, or has nothing yet. No bytes are the end of the stream.
\<close>

type_synonym 'r reader =
  "(ws_item list \<Rightarrow> ws_item list \<times> chunk) \<Rightarrow> nat \<Rightarrow> 'r \<times> ws_item list \<Rightarrow> ('r \<times> ws_item list) \<times> (ws_error + bytes) polled"

definition tunnel_poll_read :: "'r reader \<Rightarrow> nat \<Rightarrow> 'r \<times> ws_item list \<Rightarrow> ('r \<times> ws_item list) \<times> (ws_error + bytes) polled" where
  "tunnel_poll_read reader k t = reader poll_next k t"

text \<open>
  A write: \<open>ready\<close> is what \<^verbatim>\<open>poll_ready\<close> says, \<open>send_ok\<close> whether \<^verbatim>\<open>start_send\<close> takes the message;
  the messages that were taken are the state.
\<close>

definition tunnel_poll_write :: "(unit + unit) polled \<Rightarrow> bool \<Rightarrow> bytes \<Rightarrow> message list \<Rightarrow> message list \<times> (ws_error + nat) polled" where
  "tunnel_poll_write ready send_ok buf sent =
     (case ready of
        Waiting \<Rightarrow> (sent, Waiting)
      | Done (Inl e) \<Rightarrow> (sent, Done (Inl WsLibrary))
      | Done (Inr _) \<Rightarrow>
          if send_ok then (sent @ [Binary buf], Done (Inr (length buf))) else (sent, Done (Inl WsLibrary)))"

definition tunnel_poll_flush :: "(unit + unit) polled \<Rightarrow> (ws_error + unit) polled" where
  "tunnel_poll_flush r = (case r of Waiting \<Rightarrow> Waiting | Done x \<Rightarrow> Done (map_err (\<lambda>_. WsLibrary) x))"

text \<open>Shutting down sends the close message.\<close>

definition tunnel_poll_shutdown :: "(unit + unit) polled \<Rightarrow> message list \<Rightarrow> message list \<times> (ws_error + unit) polled" where
  "tunnel_poll_shutdown r sent =
     (if r = Done (Inr ()) then sent @ [Close] else sent, case r of Waiting \<Rightarrow> Waiting | Done x \<Rightarrow> Done (map_err (\<lambda>_. WsLibrary) x))"

section \<open>The transport\<close>

datatype ('cn, 'ac) sub_transport = SubSecure "('cn, 'ac) tls_transport" | SubInsecure tcp_transport

datatype ws_transport_error =
    MissingWebsocketConfig
  | WsTls tls_error
  | WsDial helper_error
  | WsHandshake
  | WsPanic

definition websocket_new ::
  "(transport_config \<Rightarrow> tls_error + ('cn, 'ac) tls_transport) \<Rightarrow> transport_config \<Rightarrow> ws_transport_error + ('cn, 'ac) sub_transport" where
  "websocket_new tls_new config =
     rbind (ok_or (tr_websocket config) MissingWebsocketConfig) (\<lambda>wsconfig.
     if ws_tls wsconfig then rbind (map_err WsTls (tls_new config)) (\<lambda>t. Inr (SubSecure t))
     else Inr (SubInsecure (tcp_transport_new config)))"

definition websocket_accept :: "bool \<times> bool \<Rightarrow> ('cn, 'ac) sub_transport \<Rightarrow> tcp_socket \<Rightarrow> tcp_socket" where
  "websocket_accept set_ok sub s =
     (case sub of
        SubInsecure t \<Rightarrow> tcp_transport_accept set_ok t s
      | SubSecure t \<Rightarrow> tls_accept set_ok t s)"

text \<open>\<open>upgrade\<close> is the WebSocket handshake of the server over the stream below.\<close>

definition websocket_handshake ::
  "('ac \<Rightarrow> 'raw \<Rightarrow> 'st option) \<Rightarrow> (('raw, 'st) transport_stream \<Rightarrow> 'ws option) \<Rightarrow> ('cn, 'ac) sub_transport \<Rightarrow> 'raw \<Rightarrow>
   ws_transport_error + 'ws" where
  "websocket_handshake tls_accept_conn upgrade sub conn =
     rbind (case sub of
         SubInsecure t \<Rightarrow> Inr (Insecure conn)
       | SubSecure t \<Rightarrow> rbind (map_err WsTls (tls_handshake tls_accept_conn t conn)) (\<lambda>s. Inr (Secure s))) (\<lambda>tstream.
     ok_or (upgrade tstream) WsHandshake)"

text \<open>
  \<open>valid_url\<close> is the parser of URLs, \<open>tls_connect\<close> the connect of the TLS transport and \<open>upgrade\<close>
  the WebSocket handshake of the client. Its failure is not returned but panics.
\<close>

definition websocket_connect ::
  "(string \<Rightarrow> bool) \<Rightarrow> (('cn, 'ac) tls_transport \<Rightarrow> addr_maybe_cached \<Rightarrow> tls_error + 'st) \<Rightarrow>
   (string \<Rightarrow> (dial, 'st) transport_stream \<Rightarrow> 'ws option) \<Rightarrow> bool \<times> bool \<Rightarrow> ('cn, 'ac) sub_transport \<Rightarrow> addr_maybe_cached \<Rightarrow>
   tcp_socket \<Rightarrow> ws_transport_error + 'ws" where
  "websocket_connect valid_url tls_connect upgrade set_ok sub addr s =
     (let u = ''ws://'' @ am_addr addr in
      rbind (require (valid_url u) WsPanic) (\<lambda>_.
      rbind (case sub of
          SubInsecure t \<Rightarrow> rbind (map_err WsDial (tcp_transport_connect set_ok t addr s)) (\<lambda>(d, _). Inr (Insecure d))
        | SubSecure t \<Rightarrow> rbind (map_err WsTls (tls_connect t addr)) (\<lambda>st. Inr (Secure st))) (\<lambda>tstream.
      ok_or (upgrade u tstream) WsPanic)))"

text \<open>The tunnel over any TLS backend is a transport.\<close>

sublocale tls_backend \<subseteq> websocket: transport "websocket_new new" websocket_accept
  by unfold_locales
    (auto simp: websocket_new_def websocket_accept_def tcp.accept_opts accept_opts result_iff split: if_splits)

section \<open>The tunnel is a byte stream\<close>

text \<open>
  What is relied on of the reader, for buffers that are not empty: it hands out what it holds
  first, as much as fits; otherwise it polls, passes errors, the end and the lack of data on,
  holds the rest of a chunk that does not fit, and polls again after an empty chunk.
\<close>

definition reader_ok :: "'r reader \<Rightarrow> ('r \<Rightarrow> bytes) \<Rightarrow> bool" where
  "reader_ok reader held \<longleftrightarrow> (\<forall>k r is. 0 < k \<longrightarrow>
     (held r \<noteq> [] \<longrightarrow> (\<exists>r'. reader poll_next k (r, is) = ((r', is), Done (Inr (take k (held r)))) \<and> held r' = drop k (held r))) \<and>
     (held r = [] \<longrightarrow>
       (\<exists>r'. held r' = [] \<and>
         (case poll_next is of
            (is', Waiting) \<Rightarrow> reader poll_next k (r, is) = ((r', is'), Waiting)
          | (is', Done None) \<Rightarrow> reader poll_next k (r, is) = ((r', is'), Done (Inr []))
          | (is', Done (Some (Inl e))) \<Rightarrow> reader poll_next k (r, is) = ((r', is'), Done (Inl e))
          | (is', Done (Some (Inr b))) \<Rightarrow>
              if b = [] then reader poll_next k (r, is) = reader poll_next k (r', is')
              else \<exists>r''. reader poll_next k (r, is) = ((r'', is'), Done (Inr (take k b))) \<and> held r'' = drop k b))))"

fun tunnel_reads :: "'r reader \<Rightarrow> nat list \<Rightarrow> 'r \<times> ws_item list \<Rightarrow> ('r \<times> ws_item list) \<times> (ws_error + bytes) polled list" where
  "tunnel_reads reader [] t = (t, [])"
| "tunnel_reads reader (k # ks) t =
     (case tunnel_poll_read reader k t of (t1, r) \<Rightarrow>
        (case tunnel_reads reader ks t1 of (t', rs) \<Rightarrow> (t', r # rs)))"

fun tunnel_writes :: "((unit + unit) polled \<times> bool \<times> bytes) list \<Rightarrow> message list \<Rightarrow> message list \<times> bytes" where
  "tunnel_writes [] sent = (sent, [])"
| "tunnel_writes ((ready, send_ok, buf) # ws) sent =
     (case tunnel_poll_write ready send_ok buf sent of (sent1, r) \<Rightarrow>
        (case tunnel_writes ws sent1 of (sent', bs) \<Rightarrow>
           (sent', (case r of Done (Inr n) \<Rightarrow> take n buf | _ \<Rightarrow> []) @ bs)))"

text \<open>The bytes of the binary messages of a list of items.\<close>

fun payload :: "ws_item list \<Rightarrow> bytes" where
  "payload [] = []"
| "payload (Done (Some (Inr (Binary b))) # is) = b @ payload is"
| "payload (_ # is) = payload is"

fun binary_or_waiting :: "ws_item \<Rightarrow> bool" where
  "binary_or_waiting Waiting = True"
| "binary_or_waiting (Done (Some (Inr (Binary b)))) = True"
| "binary_or_waiting _ = False"

text \<open>The library delivers what the other end sent, in its order and after any delays.\<close>

definition delivers :: "message list \<Rightarrow> ws_item list \<Rightarrow> bool" where
  "delivers sent is \<longleftrightarrow> filter (\<lambda>i. i \<noteq> Waiting) is = map (\<lambda>m. Done (Some (Inr m))) sent"

definition got :: "(ws_error + bytes) polled \<Rightarrow> bytes" where
  "got r = (case r of Done (Inr bs) \<Rightarrow> bs | _ \<Rightarrow> [])"

definition healthy :: "(ws_error + bytes) polled \<Rightarrow> bool" where
  "healthy r \<longleftrightarrow> r = Waiting \<or> (\<exists>bs. bs \<noteq> [] \<and> r = Done (Inr bs))"

lemma write_binary:
  obtains bufs r where "tunnel_poll_write ready send_ok buf sent = (sent @ map Binary bufs, r)"
    "(case r of Done (Inr n) \<Rightarrow> take n buf | _ \<Rightarrow> []) = concat bufs"
proof (cases "(\<exists>u. ready = Done (Inr u)) \<and> send_ok")
  case True
  then show ?thesis
    using that [of "[buf]" "Done (Inr (length buf))"] by (auto simp: tunnel_poll_write_def)
next
  case False
  then show ?thesis
    using that [of "[]" "snd (tunnel_poll_write ready send_ok buf sent)"]
    by (cases ready) (auto simp: tunnel_poll_write_def split: sum.splits)
qed

lemma writes_binary:
  "\<exists>bufs. fst (tunnel_writes ws sent) = sent @ map Binary bufs \<and> snd (tunnel_writes ws sent) = concat bufs"
proof (induction ws arbitrary: sent)
  case (Cons w ws)
  obtain ready send_ok buf where w: "w = (ready, send_ok, buf)" by (cases w)
  obtain bufs r where bufs: "tunnel_poll_write ready send_ok buf sent = (sent @ map Binary bufs, r)"
      "(case r of Done (Inr n) \<Rightarrow> take n buf | _ \<Rightarrow> []) = concat bufs"
    by (rule write_binary)
  obtain bufs' where "fst (tunnel_writes ws (sent @ map Binary bufs)) = (sent @ map Binary bufs) @ map Binary bufs'"
      "snd (tunnel_writes ws (sent @ map Binary bufs)) = concat bufs'"
    using Cons.IH by blast
  then show ?case
    by (intro exI [of _ "bufs @ bufs'"]) (simp add: w bufs split_beta)
qed (simp add: exI [of _ "[]"])

lemma delivers_binary:
  "delivers (map Binary bufs) is \<Longrightarrow> payload is = concat bufs \<and> (\<forall>i\<in>set is. binary_or_waiting i)"
proof (induction "is" arbitrary: bufs)
  case (Cons i "is")
  show ?case
  proof (cases "i = Waiting")
    case True
    then show ?thesis using Cons by (simp add: delivers_def)
  next
    case False
    then obtain b bs where "bufs = b # bs" "i = Done (Some (Inr (Binary b)))" "delivers (map Binary bs) is"
      using Cons.prems by (cases bufs) (auto simp: delivers_def)
    then show ?thesis using Cons.IH by simp
  qed
qed (simp add: delivers_def)

lemma reader_held:
  assumes "reader_ok reader held" "0 < k" "held r \<noteq> []"
  obtains r' where "reader poll_next k (r, is) = ((r', is), Done (Inr (take k (held r))))" "held r' = drop k (held r)"
  using assms unfolding reader_ok_def by blast

lemma reader_polls:
  assumes "reader_ok reader held" "0 < k" "held r = []"
  shows "\<exists>r'. held r' = [] \<and>
    (case poll_next is of
       (is', Waiting) \<Rightarrow> reader poll_next k (r, is) = ((r', is'), Waiting)
     | (is', Done None) \<Rightarrow> reader poll_next k (r, is) = ((r', is'), Done (Inr []))
     | (is', Done (Some (Inl e))) \<Rightarrow> reader poll_next k (r, is) = ((r', is'), Done (Inl e))
     | (is', Done (Some (Inr b))) \<Rightarrow>
         if b = [] then reader poll_next k (r, is) = reader poll_next k (r', is')
         else \<exists>r''. reader poll_next k (r, is) = ((r'', is'), Done (Inr (take k b))) \<and> held r'' = drop k b)"
  using assms unfolding reader_ok_def by blast

text \<open>A bound on the reads that are left: the items to poll and the bytes to hand out.\<close>

definition pending :: "('r \<Rightarrow> bytes) \<Rightarrow> 'r \<times> ws_item list \<Rightarrow> nat" where
  "pending held t = length (snd t) + length (held (fst t)) + length (payload (snd t))"

lemma tunnel_read_held:
  assumes ok: "reader_ok reader held" "0 < k" and "held r \<noteq> []"
  shows "\<exists>r' is' out. reader poll_next k (r, is) = ((r', is'), out) \<and> healthy out \<and> set is' \<subseteq> set is \<and>
    got out @ held r' @ payload is' = held r @ payload is \<and> pending held (r', is') \<le> pending held (r, is) - 1"
proof -
  obtain r' where "reader poll_next k (r, is) = ((r', is), Done (Inr (take k (held r))))" "held r' = drop k (held r)"
    using assms by (rule reader_held)
  then show ?thesis
    using assms by (cases "held r") (auto simp: healthy_def got_def pending_def)
qed

lemma tunnel_read_step:
  assumes ok: "reader_ok reader held" "0 < k" and "\<forall>i\<in>set is. binary_or_waiting i"
  shows "\<exists>r' is' out. reader poll_next k (r, is) = ((r', is'), out) \<and> healthy out \<and> set is' \<subseteq> set is \<and>
    got out @ held r' @ payload is' = held r @ payload is \<and> pending held (r', is') \<le> pending held (r, is) - 1"
  using assms(3)
proof (induction "is" arbitrary: r)
  case Nil
  then show ?case
    using tunnel_read_held [OF ok, of r "[]"] reader_polls [OF ok, of r "[]"]
    by (cases "held r = []") (auto simp: healthy_def got_def pending_def)
next
  case (Cons i "is")
  show ?case
  proof (cases "held r = []")
    case True
    note polled = reader_polls [OF ok True, of "i # is"]
    from Cons.prems consider "i = Waiting" | "i = Done (Some (Inr (Binary [])))"
      | b where "i = Done (Some (Inr (Binary b)))" "b \<noteq> []"
      by (cases i rule: binary_or_waiting.cases) auto
    then show ?thesis
    proof cases
      case 1
      with polled True show ?thesis by (auto simp: healthy_def got_def pending_def)
    next
      case 2
      with polled obtain r' where "reader poll_next k (r, i # is) = reader poll_next k (r', is)" "held r' = []"
        by auto
      with Cons.IH [of r'] Cons.prems 2 True show ?thesis by (fastforce simp: pending_def)
    next
      case (3 b)
      with polled obtain r' where "reader poll_next k (r, i # is) = ((r', is), Done (Inr (take k b)))" "held r' = drop k b"
        by auto
      then show ?thesis
        using True 3 ok(2) by (simp add: healthy_def got_def pending_def subset_insertI)
    qed
  qed (rule tunnel_read_held [OF ok])
qed

lemma reads_payload:
  assumes "reader_ok reader held" "\<forall>k\<in>set ks. 0 < k" "\<forall>i\<in>set is. binary_or_waiting i"
    and "tunnel_reads reader ks (r, is) = ((r', is'), outs)"
  shows "concat (map got outs) @ held r' @ payload is' = held r @ payload is \<and> (\<forall>out\<in>set outs. healthy out) \<and>
    pending held (r', is') \<le> pending held (r, is) - length ks"
  using assms(2-)
proof (induction ks arbitrary: r "is" outs)
  case (Cons k ks)
  obtain r1 is1 out where step: "reader poll_next k (r, is) = ((r1, is1), out)" "healthy out" "set is1 \<subseteq> set is"
      "got out @ held r1 @ payload is1 = held r @ payload is" "pending held (r1, is1) \<le> pending held (r, is) - 1"
    using tunnel_read_step [OF assms(1), of k "is" r] Cons.prems by auto
  then obtain outs' where outs: "outs = out # outs'" "tunnel_reads reader ks (r1, is1) = ((r', is'), outs')"
    using Cons.prems(3) by (auto simp: tunnel_poll_read_def split: prod.splits)
  have "concat (map got outs') @ held r' @ payload is' = held r1 @ payload is1" "\<forall>out\<in>set outs'. healthy out"
    "pending held (r', is') \<le> pending held (r1, is1) - length ks"
    using Cons.IH [of is1 r1 outs'] Cons.prems step(3) outs by auto
  then show ?case using step outs by auto
qed simp

section \<open>Properties\<close>

text \<open>
  C37. The WebSocket tunnel is a byte stream. Whatever the sizes of the writes and of the reads,
  whichever writes the library delays or refuses, and however it delays the messages, the bytes
  that were read, those held back and those under way are together the bytes that the writer
  was told were taken, in their order; no read reports an error or the end of the stream; and
  after enough reads the bytes read are all of them.
\<close>

theorem websocket_tunnel_stream:
  assumes "reader_ok reader held" and "held r0 = []"
    and "tunnel_writes ws [] = (sent, accepted)" and "delivers sent is"
    and "\<forall>k\<in>set ks. 0 < k" and "tunnel_reads reader ks (r0, is) = ((r, is'), outs)"
  shows "concat (map got outs) @ held r @ payload is' = accepted \<and> (\<forall>out\<in>set outs. healthy out) \<and>
    (length is + length accepted \<le> length ks \<longrightarrow> concat (map got outs) = accepted)"
proof -
  obtain bufs where bufs: "sent = map Binary bufs" "accepted = concat bufs"
    using writes_binary [of ws "[]"] assms(3) by auto
  with assms(4) have p: "payload is = accepted" "\<forall>i\<in>set is. binary_or_waiting i"
    using delivers_binary by auto
  note reads = reads_payload [OF assms(1,5) p(2) assms(6)]
  moreover have "held r = [] \<and> payload is' = []" if "length is + length accepted \<le> length ks"
    using reads that p assms(2) by (simp add: pending_def)
  ultimately show ?thesis using p assms(2) by auto
qed

text \<open>A reader with the documented behaviour: it holds a rest, and the length of the items bounds its polls.\<close>

fun example_read :: "nat \<Rightarrow> bytes reader" where
  "example_read 0 poll k (r, is) = ((r, is), Waiting)"
| "example_read (Suc n) poll k (r, is) =
     (if r \<noteq> [] then ((drop k r, is), Done (Inr (take k r)))
      else case poll is of
        (is', Waiting) \<Rightarrow> (([], is'), Waiting)
      | (is', Done None) \<Rightarrow> (([], is'), Done (Inr []))
      | (is', Done (Some (Inl e))) \<Rightarrow> (([], is'), Done (Inl e))
      | (is', Done (Some (Inr b))) \<Rightarrow>
          if b = [] then example_read n poll k ([], is') else ((drop k b, is'), Done (Inr (take k b))))"

definition example_reader :: "bytes reader" where
  "example_reader poll k t = example_read (Suc (length (snd t))) poll k t"

lemma example_reader_ok: "reader_ok example_reader id"
  unfolding reader_ok_def
proof (intro allI impI conjI)
  fix k :: nat and r :: bytes and "is"
  assume "id r = []"
  then show "\<exists>r'. id r' = [] \<and>
     (case poll_next is of
        (is', Waiting) \<Rightarrow> example_reader poll_next k (r, is) = ((r', is'), Waiting)
      | (is', Done None) \<Rightarrow> example_reader poll_next k (r, is) = ((r', is'), Done (Inr []))
      | (is', Done (Some (Inl e))) \<Rightarrow> example_reader poll_next k (r, is) = ((r', is'), Done (Inl e))
      | (is', Done (Some (Inr b))) \<Rightarrow>
          if b = [] then example_reader poll_next k (r, is) = example_reader poll_next k (r', is')
          else \<exists>r''. example_reader poll_next k (r, is) = ((r'', is'), Done (Inr (take k b))) \<and> id r'' = drop k b)"
    by (cases "is") (auto simp: example_reader_def split: polled.split option.split sum.split)
qed (simp add: example_reader_def)

theorem websocket_tunnel_stream_witness:
  "concat (map got (snd (tunnel_reads example_reader [1, 1, 2, 5, 5, 5] ([], [Waiting, Done (Some (Inr (Binary [1, 2, 3]))), Done (Some (Inr (Binary [])))])))) = [1, 2, 3]"
proof -
  let ?is = "[Waiting, Done (Some (Inr (Binary [1, 2, 3]))), Done (Some (Inr (Binary [])))] :: ws_item list"
  obtain r is' outs where reads: "tunnel_reads example_reader [1, 1, 2, 5, 5, 5] ([], ?is) = ((r, is'), outs)"
    by (metis prod.collapse)
  have "tunnel_writes [(Waiting, True, [7]), (Done (Inr ()), True, [1, 2, 3]), (Done (Inr ()), False, [8]), (Done (Inr ()), True, [])] []
      = ([Binary [1, 2, 3], Binary []], [1, 2, 3])"
    by (simp add: tunnel_poll_write_def)
  from websocket_tunnel_stream [OF example_reader_ok _ this _ _ reads] reads show ?thesis
    by (simp add: delivers_def)
qed

text \<open>
  The end of the other side's tunnel is not the end of the stream: a shutdown sends the close
  message, which this side reports as an unexpected frame, as it does every other message that
  is not binary.
\<close>

lemma tunnel_shutdown_read:
  assumes "reader_ok reader held" "held r = []" "0 < k"
    and "\<forall>b. m \<noteq> Binary b"
  shows "fst (tunnel_poll_shutdown (Done (Inr ())) sent) = sent @ [Close] \<and>
    snd (tunnel_poll_read reader k (r, Done (Some (Inr m)) # is)) = Done (Inl UnexpectedFrame)"
  using reader_polls [OF assms(1,3,2), of "Done (Some (Inr m)) # is"] assms(4)
  by (cases m) (auto simp: tunnel_poll_shutdown_def tunnel_poll_read_def)

text \<open>Of the failures of connecting, that of the upgrade and that of the URL are panics; the others are returned.\<close>

lemma websocket_connect_panics:
  "websocket_connect valid_url tls_connect upgrade set_ok (SubInsecure t) addr s = Inl WsPanic \<longleftrightarrow>
     \<not> valid_url (''ws://'' @ am_addr addr) \<or>
     (\<exists>d s'. tcp_transport_connect set_ok t addr s = Inr (d, s') \<and> upgrade (''ws://'' @ am_addr addr) (Insecure d) = None)"
  by (cases "tcp_transport_connect set_ok t addr s"; cases "valid_url (''ws://'' @ am_addr addr)")
    (auto simp: websocket_connect_def require_def Let_def split: prod.split elim!: ok_or.elims)

text \<open>Which streams are below: a tunnel over TLS exactly when the section says so.\<close>

lemma websocket_new_sub:
  assumes "websocket_new tls_new config = Inr sub"
  obtains ws where "tr_websocket config = Some ws" "(\<exists>t. sub = SubSecure t \<and> tls_new config = Inr t) \<longleftrightarrow> ws_tls ws"
  using assms that by (auto simp: websocket_new_def result_iff split: option.splits if_splits)

text \<open>
  Whatever the transport, the socket of an accepted control channel has nodelay set and the
  keepalive of the TCP section.
\<close>

lemma control_channel_sockets:
  "tcp_transport_hint (True, True) for_control_channel (tcp_transport_accept (True, True) (tcp_transport_new config) s) =
     s\<lparr>ts_nodelay := True, ts_keepalive := so_keepalive (from_cfg (tr_tcp config))\<rparr>"
  "native_tls_new napi config = Inr t \<or> rustls_new rapi config = Inr t \<Longrightarrow>
   tcp_transport_hint (True, True) for_control_channel (tls_accept (True, True) t s) =
     s\<lparr>ts_nodelay := True, ts_keepalive := so_keepalive (from_cfg (tr_tcp config))\<rparr>"
  "noise_new parse decode generate config = Inr nt \<Longrightarrow>
   tcp_transport_hint (True, True) for_control_channel (noise_accept (True, True) nt s) =
     s\<lparr>ts_nodelay := True, ts_keepalive := so_keepalive (from_cfg (tr_tcp config))\<rparr>"
  "websocket_new (native_tls_new napi) config = Inr sub \<or> websocket_new (rustls_new rapi) config = Inr sub \<Longrightarrow>
   tcp_transport_hint (True, True) for_control_channel (websocket_accept (True, True) sub s) =
     s\<lparr>ts_nodelay := True, ts_keepalive := so_keepalive (from_cfg (tr_tcp config))\<rparr>"
  by (rule tcp.control_channel_socket [OF refl])
    (erule disjE, erule native.control_channel_socket, erule rust.control_channel_socket,
     erule noise.control_channel_socket,
     erule disjE, erule native.websocket.control_channel_socket, erule rust.websocket.control_channel_socket)

end
