(* ===== verification/Spec2Isabelle.thy ===== *)
theory Spec2Isabelle
  imports Multi_Map Protocol Config_Watcher Http_Proxy Server_Props Server_Pools Handshake Client_Props Client_Udp Run
    Tunnel Udp_Tunnel Bandwidth Load_Balance Proxy_Protocol Health_Check Dashboard Plugin Websocket
begin

text \<open>
  A verification of chagle, a reverse proxy that makes services behind a NAT reachable through a
  public server. All paths below are relative to \<^verbatim>\<open>src/src/\<close>.

  \<^bold>\<open>The program.\<close> A \<^emph>\<open>server\<close> (\<^verbatim>\<open>server.rs\<close>) and a \<^emph>\<open>client\<close> (\<^verbatim>\<open>client.rs\<close>) keep one control channel
  per service. The client says hello with the digest of the service name, the server answers
  with a nonce, the client proves that it knows the token by the digest of token and nonce, and
  the server files the channel in a two-key map (\<^verbatim>\<open>multi_map.rs\<close>) under the service digest and the
  nonce, which is from then on the session key. When a visitor comes to the public port the
  server asks for a data channel over the control channel; the client opens one that carries
  the session key and copies bytes (TCP) or framed datagrams (UDP) to the local service. Secret
  services are reached by visitors of another client instead, HTTP services by a router on the
  host name and path (\<^verbatim>\<open>http_proxy.rs\<close>). The messages are those of \<^verbatim>\<open>protocol.rs\<close>; the streams are
  TCP, TLS, Noise or WebSocket (\<^verbatim>\<open>transport/\<close>). Configuration files (\<^verbatim>\<open>config.rs\<close>) are validated, and
  watched while the program runs (\<^verbatim>\<open>config_watcher.rs\<close>): a change of services is passed to the
  running instance, any other change restarts it (\<^verbatim>\<open>lib.rs\<close>). Around this are metrics, a
  dashboard, health checks, load balancing groups, bandwidth limits, PROXY protocol headers and
  plugins.

  \<^bold>\<open>How the code is modelled.\<close> A struct is a record, an enum a datatype, both with the fields and
  constructors of the source. A \<^verbatim>\<open>Result\<close> is a sum with \<open>Inl\<close> for the error, and a panic is an
  error of its own, so that a theorem can say that it does not happen. Machine integers are
  words, or numbers with the reduction written out where the code casts. Strings are lists of
  bytes, as in Rust; the functions on them work on UTF-8. A hash map whose order the code
  observes is an association list, other maps are functions. A handler is a function on the
  state and the connection; a task that shares state with others is a step function, and the
  theorems quantify over all sequences of steps. What the outside decides (bytes that arrive,
  failing writes, timers, random numbers, the clock) is an argument of the step. Crates that
  are not part of the source (bincode, sha2, httparse, serde and its formats, tungstenite,
  native-tls, rustls, snowstorm) are parameters; where a theorem relies on one, what it relies
  on is a hypothesis (\<open>bincode_ok\<close>, \<open>sha_ok\<close>, \<open>reader_ok\<close>, \<dots>) that a witness satisfies. Every function is total:
  loops are structural or have a measure, and none has fuel.

  \<^bold>\<open>The theories.\<close>

  \<^item> Shared: \<^verbatim>\<open>Prelude\<close> (results, association lists, the collections \<open>result_iff\<close> and \<open>wf_intros\<close>,
    the locale \<open>settling\<close> of systems whose steps keep an invariant and lessen a weight),
    \<^verbatim>\<open>Conn\<close> (connections: bytes to read, bytes written, how many writes succeed), \<^verbatim>\<open>Rust_Str\<close> and
    \<^verbatim>\<open>Text_Lines\<close> (the string functions of the standard library), \<^verbatim>\<open>Float64\<close> (IEEE doubles: exact
    operations and a rounding; the locale \<open>rounding\<close> has what the error bounds use).
  \<^item> \<^verbatim>\<open>Multi_Map\<close> (\<^verbatim>\<open>multi_map.rs\<close>): both tables, the boxes and the raw pointers. No sequence of
    operations dereferences a freed box or frees one twice, and the map refines a set of items
    with unique keys. The locale \<open>two_key_map\<close> is the interface that the server relies on.
  \<^item> \<^verbatim>\<open>Protocol\<close> (\<^verbatim>\<open>protocol.rs\<close>): messages, readers, UDP framing; round trips, and what happens to
    packets that are too long.
  \<^item> \<^verbatim>\<open>Config_Types\<close>, \<^verbatim>\<open>Config\<close> (\<^verbatim>\<open>config.rs\<close>): all structs and defaults; validation and loading. What a
    validated configuration guarantees, exactly which are accepted, and that validation is
    idempotent.
  \<^item> \<^verbatim>\<open>Config_Watcher\<close> (\<^verbatim>\<open>config_watcher.rs\<close>): the diff of two configurations and the watcher's loop.
    The locales \<open>service_diff\<close> and \<open>instance_section\<close> are interpreted for both sections; replaying
    the events gives the last valid configuration.
  \<^item> \<^verbatim>\<open>Server\<close>, \<^verbatim>\<open>Server_Safety\<close>, \<^verbatim>\<open>Server_Props\<close>, \<^verbatim>\<open>Server_Pools\<close> (\<^verbatim>\<open>server.rs\<close>): the state, every handshake,
    hot reload, the loops of the server and of a control channel, the pools, virtual hosts. The
    step relation \<open>sstep\<close> interleaves handshakes that are under way with reloads and with
    everything that happens on an established channel (\<open>chan_step\<close>); its invariant gives memory safety, the absence of panics and agreement of the tables. Further:
    authentication, hot reload against a restart, fidelity and progress of the pools.
  \<^item> \<^verbatim>\<open>Helper\<close> (\<^verbatim>\<open>helper.rs\<close>, \<^verbatim>\<open>constants.rs\<close>, \<^verbatim>\<open>transport/mod.rs\<close>, \<^verbatim>\<open>transport/tcp.rs\<close>): addresses,
    dialling, socket options, retrying with a backoff, the TCP transport. The locale \<open>transport\<close> is the trait of that name
    as far as the socket below is concerned.
  \<^item> \<^verbatim>\<open>Client\<close>, \<^verbatim>\<open>Client_Props\<close>, \<^verbatim>\<open>Client_Udp\<close> (\<^verbatim>\<open>client.rs\<close>): services, control channels with their retry
    loop, data channels, visitors; the UDP data channel as a state machine of the main loop, the
    forwarders and the writer around a read-write lock, with what it delivers and how it blocks.
  \<^item> \<^verbatim>\<open>Handshake\<close>: both ends over one connection; they agree on the outcome, commands and data
    channels arrive.
  \<^item> \<^verbatim>\<open>Tunnel\<close>, \<^verbatim>\<open>Udp_Tunnel\<close>: the composition of the components for one service. For TCP: the pool and
    the control channel of the server, the control channel of the client and the data channels
    it opens, interleaved with visitors, heartbeats and lost data channels. For UDP: the pool,
    both directions of the data channel and the tasks of the client. Both interpret \<open>settling\<close>:
    from every reachable state the tasks come to rest in a bounded number of steps, and then
    every visitor has its data channel, up to those that were lost, and every datagram and
    every answer has arrived; for UDP also that every intermediate state is faithful.
  \<^item> \<^verbatim>\<open>Run\<close> (\<^verbatim>\<open>lib.rs\<close>, \<^verbatim>\<open>cli.rs\<close>, \<^verbatim>\<open>main.rs\<close>): the loop around the instances composed with the watcher; the
    running instance follows the file. Of \<^verbatim>\<open>main.rs\<close> the task that waits for an interrupt.
  \<^item> \<^verbatim>\<open>Tls\<close>, \<^verbatim>\<open>Websocket\<close> (\<^verbatim>\<open>transport/native_tls.rs\<close>, \<^verbatim>\<open>rustls.rs\<close>, \<^verbatim>\<open>noise.rs\<close>, \<^verbatim>\<open>websocket.rs\<close>): making the
    transports, handshakes and connecting; the locale \<open>tls_backend\<close> is interpreted for both TLS
    backends and gives \<open>transport\<close> for them and for WebSocket over them; the WebSocket tunnel is shown
    to be a byte stream.
  \<^item> \<^verbatim>\<open>Base64\<close>, \<^verbatim>\<open>Http_Proxy\<close> (\<^verbatim>\<open>http_proxy.rs\<close>): header reading and parsing, the router, rewriting, Basic
    authentication, the server name of a TLS ClientHello.
  \<^item> \<^verbatim>\<open>Metrics\<close>, \<^verbatim>\<open>Dashboard\<close>, \<^verbatim>\<open>Health_Check\<close>, \<^verbatim>\<open>Load_Balance\<close>, \<^verbatim>\<open>Bandwidth\<close>, \<^verbatim>\<open>Proxy_Protocol\<close>, \<^verbatim>\<open>Plugin\<close>: the
    files of those names. The counters are words that wrap, the token bucket computes in
    doubles, and the bandwidth bound accounts for every rounding.

  \<^bold>\<open>Bounds.\<close> Buffer sizes, queue lengths and time limits are those of the source. Statements that
  hold up to a bound say so: UDP packets below 64 KiB, load balancing until the 64-bit counter
  wraps, bandwidth strings below $2^{53}$, a fixed number of roundings per poll of a limited
  stream.

  \<^bold>\<open>Not modelled.\<close> The parsing of the command line (clap) and the set-up of logging, the \<^verbatim>\<open>Debug\<close> and
  \<^verbatim>\<open>Display\<close> instances and log messages, binding of listeners, the copying of bytes between two
  TCP sockets (tokio's), the scheduler (any order of steps is allowed instead), the
  crates named above, the build script and the tests.
\<close>

end
